(* ===== verification/Vocabulary.thy ===== *)
theory Vocabulary
  imports Prelude
begin

text \<open>
  The words the domain is written in: the identifiers of \<^verbatim>\<open>src/domain/ids.rs\<close>, the
  enumerations of \<^verbatim>\<open>src/domain/mod.rs\<close> and its modules, the priorities with their
  order, and the rejections of \<^verbatim>\<open>src/domain/error.rs\<close>.

  The macro \<open>string_enum!\<close> gives each enumeration a text per value (\<open>as_str\<close>) and a
  parser that matches those texts (\<open>FromStr\<close>). Here an enumeration \<open>X\<close> is a datatype
  with \<open>X_as_str\<close> and the list \<open>X_all\<close> of its values in the order written; the locale
  \<open>string_enum\<close> is what the macro promises, proved once and interpreted for every one.
  The interpretations rest on the texts being pairwise different, which the macro
  itself does not check.
\<close>

section \<open>Identifiers\<close>

text \<open>An \<open>i64\<close> rowid in a type of its own. No operation computes with one, so the
  integer is unbounded here; they are compared and checked for positivity only.\<close>

datatype TaskId = TaskId (task_id_as_i64: int)
datatype GoalId = GoalId (goal_id_as_i64: int)
datatype ProposalId = ProposalId (proposal_id_as_i64: int)
datatype RequestId = RequestId (request_id_as_i64: int)
datatype EventId = EventId (event_id_as_i64: int)
datatype ReplanId = ReplanId (replan_id_as_i64: int)
datatype HoldId = HoldId (hold_id_as_i64: int)
datatype AskId = AskId (ask_id_as_i64: int)

instantiation TaskId :: linorder
begin

definition less_eq_TaskId :: "TaskId \<Rightarrow> TaskId \<Rightarrow> bool" where
  "less_eq_TaskId a b \<longleftrightarrow> task_id_as_i64 a \<le> task_id_as_i64 b"

definition less_TaskId :: "TaskId \<Rightarrow> TaskId \<Rightarrow> bool" where
  "less_TaskId a b \<longleftrightarrow> task_id_as_i64 a < task_id_as_i64 b"

instance
  by standard (auto simp: less_eq_TaskId_def less_TaskId_def TaskId.expand)

end

instantiation GoalId :: linorder
begin

definition less_eq_GoalId :: "GoalId \<Rightarrow> GoalId \<Rightarrow> bool" where
  "less_eq_GoalId a b \<longleftrightarrow> goal_id_as_i64 a \<le> goal_id_as_i64 b"

definition less_GoalId :: "GoalId \<Rightarrow> GoalId \<Rightarrow> bool" where
  "less_GoalId a b \<longleftrightarrow> goal_id_as_i64 a < goal_id_as_i64 b"

instance
  by standard (auto simp: less_eq_GoalId_def less_GoalId_def GoalId.expand)

end

instantiation EventId :: linorder
begin

definition less_eq_EventId :: "EventId \<Rightarrow> EventId \<Rightarrow> bool" where
  "less_eq_EventId a b \<longleftrightarrow> event_id_as_i64 a \<le> event_id_as_i64 b"

definition less_EventId :: "EventId \<Rightarrow> EventId \<Rightarrow> bool" where
  "less_EventId a b \<longleftrightarrow> event_id_as_i64 a < event_id_as_i64 b"

instance
  by standard (auto simp: less_eq_EventId_def less_EventId_def EventId.expand)

end

lemma TaskId_le [simp]: "TaskId a \<le> TaskId b \<longleftrightarrow> a \<le> b"
  by (simp add: less_eq_TaskId_def)

lemma TaskId_less [simp]: "TaskId a < TaskId b \<longleftrightarrow> a < b"
  by (simp add: less_TaskId_def)

lemma GoalId_le [simp]: "GoalId a \<le> GoalId b \<longleftrightarrow> a \<le> b"
  by (simp add: less_eq_GoalId_def)

lemma GoalId_less [simp]: "GoalId a < GoalId b \<longleftrightarrow> a < b"
  by (simp add: less_GoalId_def)

lemma EventId_le [simp]: "EventId a \<le> EventId b \<longleftrightarrow> a \<le> b"
  by (simp add: less_eq_EventId_def)

lemma EventId_less [simp]: "EventId a < EventId b \<longleftrightarrow> a < b"
  by (simp add: less_EventId_def)

datatype RunId = RunId (run_id_as_str: string)
datatype CommitSha = CommitSha (commit_as_str: string)
datatype TaskChange = TaskChange (task_change_as_str: string)
datatype GoalTag = GoalTag (goal_tag_as_str: string)

section \<open>Enumerations\<close>

subsection \<open>Replanning and holds\<close>

datatype ReplanOrigin =
  Manual
| Worker
| Runtime

primrec ReplanOrigin_as_str :: "ReplanOrigin \<Rightarrow> string" where
  "ReplanOrigin_as_str ReplanOrigin.Manual = ''manual''"
| "ReplanOrigin_as_str ReplanOrigin.Worker = ''worker''"
| "ReplanOrigin_as_str ReplanOrigin.Runtime = ''runtime''"

definition ReplanOrigin_all :: "ReplanOrigin list" where
  "ReplanOrigin_all = [ReplanOrigin.Manual, ReplanOrigin.Worker, ReplanOrigin.Runtime]"

datatype ReplanStatus =
  Candidate
| Diagnosing
| Continuing
| PauseRequested
| Quiescing
| Snapshotting
| Parked
| Planning
| Reviewing
| AwaitingAnswer
| Applying
| Applied
| ContinuingAfterPark
| Withdrawn
| Blocked

primrec ReplanStatus_as_str :: "ReplanStatus \<Rightarrow> string" where
  "ReplanStatus_as_str ReplanStatus.Candidate = ''candidate''"
| "ReplanStatus_as_str ReplanStatus.Diagnosing = ''diagnosing''"
| "ReplanStatus_as_str ReplanStatus.Continuing = ''continuing''"
| "ReplanStatus_as_str ReplanStatus.PauseRequested = ''pause_requested''"
| "ReplanStatus_as_str ReplanStatus.Quiescing = ''quiescing''"
| "ReplanStatus_as_str ReplanStatus.Snapshotting = ''snapshotting''"
| "ReplanStatus_as_str ReplanStatus.Parked = ''parked''"
| "ReplanStatus_as_str ReplanStatus.Planning = ''planning''"
| "ReplanStatus_as_str ReplanStatus.Reviewing = ''reviewing''"
| "ReplanStatus_as_str ReplanStatus.AwaitingAnswer = ''awaiting_answer''"
| "ReplanStatus_as_str ReplanStatus.Applying = ''applying''"
| "ReplanStatus_as_str ReplanStatus.Applied = ''applied''"
| "ReplanStatus_as_str ReplanStatus.ContinuingAfterPark = ''continuing_after_park''"
| "ReplanStatus_as_str ReplanStatus.Withdrawn = ''withdrawn''"
| "ReplanStatus_as_str ReplanStatus.Blocked = ''blocked''"

definition ReplanStatus_all :: "ReplanStatus list" where
  "ReplanStatus_all = [ReplanStatus.Candidate, ReplanStatus.Diagnosing, ReplanStatus.Continuing, ReplanStatus.PauseRequested, ReplanStatus.Quiescing, ReplanStatus.Snapshotting, ReplanStatus.Parked, ReplanStatus.Planning, ReplanStatus.Reviewing, ReplanStatus.AwaitingAnswer, ReplanStatus.Applying, ReplanStatus.Applied, ReplanStatus.ContinuingAfterPark, ReplanStatus.Withdrawn, ReplanStatus.Blocked]"

datatype GuardedStep =
  Claim
| Resume
| Recover
| Revise
| Ready
| Edit
| Cancel
| Dependency
| Integrate

primrec GuardedStep_as_str :: "GuardedStep \<Rightarrow> string" where
  "GuardedStep_as_str GuardedStep.Claim = ''claim''"
| "GuardedStep_as_str GuardedStep.Resume = ''resume''"
| "GuardedStep_as_str GuardedStep.Recover = ''recover''"
| "GuardedStep_as_str GuardedStep.Revise = ''revise''"
| "GuardedStep_as_str GuardedStep.Ready = ''ready''"
| "GuardedStep_as_str GuardedStep.Edit = ''edit''"
| "GuardedStep_as_str GuardedStep.Cancel = ''cancel''"
| "GuardedStep_as_str GuardedStep.Dependency = ''dependency''"
| "GuardedStep_as_str GuardedStep.Integrate = ''integrate''"

definition GuardedStep_all :: "GuardedStep list" where
  "GuardedStep_all = [GuardedStep.Claim, GuardedStep.Resume, GuardedStep.Recover, GuardedStep.Revise, GuardedStep.Ready, GuardedStep.Edit, GuardedStep.Cancel, GuardedStep.Dependency, GuardedStep.Integrate]"

datatype ReplanResolution =
  Continue
| Withdraw
| Replan

primrec ReplanResolution_as_str :: "ReplanResolution \<Rightarrow> string" where
  "ReplanResolution_as_str ReplanResolution.Continue = ''continue''"
| "ReplanResolution_as_str ReplanResolution.Withdraw = ''withdraw''"
| "ReplanResolution_as_str ReplanResolution.Replan = ''replan''"

definition ReplanResolution_all :: "ReplanResolution list" where
  "ReplanResolution_all = [ReplanResolution.Continue, ReplanResolution.Withdraw, ReplanResolution.Replan]"

datatype ReleaseDecision =
  Claim
| Resume
| RetryInherit
| RetryFresh

primrec ReleaseDecision_as_str :: "ReleaseDecision \<Rightarrow> string" where
  "ReleaseDecision_as_str ReleaseDecision.Claim = ''claim''"
| "ReleaseDecision_as_str ReleaseDecision.Resume = ''resume''"
| "ReleaseDecision_as_str ReleaseDecision.RetryInherit = ''retry_inherit''"
| "ReleaseDecision_as_str ReleaseDecision.RetryFresh = ''retry_fresh''"

definition ReleaseDecision_all :: "ReleaseDecision list" where
  "ReleaseDecision_all = [ReleaseDecision.Claim, ReleaseDecision.Resume, ReleaseDecision.RetryInherit, ReleaseDecision.RetryFresh]"

datatype HoldState =
  Settling
| Held

primrec HoldState_as_str :: "HoldState \<Rightarrow> string" where
  "HoldState_as_str HoldState.Settling = ''settling''"
| "HoldState_as_str HoldState.Held = ''held''"

definition HoldState_all :: "HoldState list" where
  "HoldState_all = [HoldState.Settling, HoldState.Held]"

text \<open>\<open>NoWait\<close> is the variant \<open>None\<close> of the code, a name \<open>option\<close> has here.\<close>

datatype RunHoldWait =
  NoWait
| Settling
| Settled

primrec RunHoldWait_as_str :: "RunHoldWait \<Rightarrow> string" where
  "RunHoldWait_as_str RunHoldWait.NoWait = ''none''"
| "RunHoldWait_as_str RunHoldWait.Settling = ''settling''"
| "RunHoldWait_as_str RunHoldWait.Settled = ''settled''"

definition RunHoldWait_all :: "RunHoldWait list" where
  "RunHoldWait_all = [RunHoldWait.NoWait, RunHoldWait.Settling, RunHoldWait.Settled]"

datatype KeptSource =
  RecoveryVerdict
| TriageAnswer
| LiveVerdict

primrec KeptSource_as_str :: "KeptSource \<Rightarrow> string" where
  "KeptSource_as_str KeptSource.RecoveryVerdict = ''recovery_verdict''"
| "KeptSource_as_str KeptSource.TriageAnswer = ''triage_answer''"
| "KeptSource_as_str KeptSource.LiveVerdict = ''live_verdict''"

definition KeptSource_all :: "KeptSource list" where
  "KeptSource_all = [KeptSource.RecoveryVerdict, KeptSource.TriageAnswer, KeptSource.LiveVerdict]"

datatype DiscardReason =
  Changed
| LiveSession
| Refused
| TaskEnded

primrec DiscardReason_as_str :: "DiscardReason \<Rightarrow> string" where
  "DiscardReason_as_str DiscardReason.Changed = ''changed''"
| "DiscardReason_as_str DiscardReason.LiveSession = ''live_session''"
| "DiscardReason_as_str DiscardReason.Refused = ''refused''"
| "DiscardReason_as_str DiscardReason.TaskEnded = ''task_ended''"

definition DiscardReason_all :: "DiscardReason list" where
  "DiscardReason_all = [DiscardReason.Changed, DiscardReason.LiveSession, DiscardReason.Refused, DiscardReason.TaskEnded]"

datatype HoldEnd =
  Completed
| Canceled
| Replaced

primrec HoldEnd_as_str :: "HoldEnd \<Rightarrow> string" where
  "HoldEnd_as_str HoldEnd.Completed = ''completed''"
| "HoldEnd_as_str HoldEnd.Canceled = ''canceled''"
| "HoldEnd_as_str HoldEnd.Replaced = ''replaced''"

definition HoldEnd_all :: "HoldEnd list" where
  "HoldEnd_all = [HoldEnd.Completed, HoldEnd.Canceled, HoldEnd.Replaced]"

datatype HoldReminder =
  UntilPassed
| LongHeld

primrec HoldReminder_as_str :: "HoldReminder \<Rightarrow> string" where
  "HoldReminder_as_str HoldReminder.UntilPassed = ''until_passed''"
| "HoldReminder_as_str HoldReminder.LongHeld = ''long_held''"

definition HoldReminder_all :: "HoldReminder list" where
  "HoldReminder_all = [HoldReminder.UntilPassed, HoldReminder.LongHeld]"

subsection \<open>Tasks, runs and goals\<close>

datatype TaskStatus =
  Draft
| Submitted
| Ready
| InProgress
| Completed
| Canceled
| Replaced

primrec TaskStatus_as_str :: "TaskStatus \<Rightarrow> string" where
  "TaskStatus_as_str TaskStatus.Draft = ''draft''"
| "TaskStatus_as_str TaskStatus.Submitted = ''submitted''"
| "TaskStatus_as_str TaskStatus.Ready = ''ready''"
| "TaskStatus_as_str TaskStatus.InProgress = ''in_progress''"
| "TaskStatus_as_str TaskStatus.Completed = ''completed''"
| "TaskStatus_as_str TaskStatus.Canceled = ''canceled''"
| "TaskStatus_as_str TaskStatus.Replaced = ''replaced''"

definition TaskStatus_all :: "TaskStatus list" where
  "TaskStatus_all = [TaskStatus.Draft, TaskStatus.Submitted, TaskStatus.Ready, TaskStatus.InProgress, TaskStatus.Completed, TaskStatus.Canceled, TaskStatus.Replaced]"

datatype RunStatus =
  Claimed
| Starting
| Running
| Validating
| AwaitingIntegration
| Integrating
| NeedsSession
| Integrated
| Succeeded
| Failed
| Interrupted
| Replaced

primrec RunStatus_as_str :: "RunStatus \<Rightarrow> string" where
  "RunStatus_as_str RunStatus.Claimed = ''claimed''"
| "RunStatus_as_str RunStatus.Starting = ''starting''"
| "RunStatus_as_str RunStatus.Running = ''running''"
| "RunStatus_as_str RunStatus.Validating = ''validating''"
| "RunStatus_as_str RunStatus.AwaitingIntegration = ''awaiting_integration''"
| "RunStatus_as_str RunStatus.Integrating = ''integrating''"
| "RunStatus_as_str RunStatus.NeedsSession = ''needs_session''"
| "RunStatus_as_str RunStatus.Integrated = ''integrated''"
| "RunStatus_as_str RunStatus.Succeeded = ''succeeded''"
| "RunStatus_as_str RunStatus.Failed = ''failed''"
| "RunStatus_as_str RunStatus.Interrupted = ''interrupted''"
| "RunStatus_as_str RunStatus.Replaced = ''replaced''"

definition RunStatus_all :: "RunStatus list" where
  "RunStatus_all = [RunStatus.Claimed, RunStatus.Starting, RunStatus.Running, RunStatus.Validating, RunStatus.AwaitingIntegration, RunStatus.Integrating, RunStatus.NeedsSession, RunStatus.Integrated, RunStatus.Succeeded, RunStatus.Failed, RunStatus.Interrupted, RunStatus.Replaced]"

datatype Provider =
  Claude
| Codex

primrec Provider_as_str :: "Provider \<Rightarrow> string" where
  "Provider_as_str Provider.Claude = ''claude''"
| "Provider_as_str Provider.Codex = ''codex''"

definition Provider_all :: "Provider list" where
  "Provider_all = [Provider.Claude, Provider.Codex]"

datatype WorkerMode =
  Interactive
| Headless

primrec WorkerMode_as_str :: "WorkerMode \<Rightarrow> string" where
  "WorkerMode_as_str WorkerMode.Interactive = ''interactive''"
| "WorkerMode_as_str WorkerMode.Headless = ''headless''"

definition WorkerMode_all :: "WorkerMode list" where
  "WorkerMode_all = [WorkerMode.Interactive, WorkerMode.Headless]"

datatype GoalStatus =
  Draft
| Open

primrec GoalStatus_as_str :: "GoalStatus \<Rightarrow> string" where
  "GoalStatus_as_str GoalStatus.Draft = ''draft''"
| "GoalStatus_as_str GoalStatus.Open = ''open''"

definition GoalStatus_all :: "GoalStatus list" where
  "GoalStatus_all = [GoalStatus.Draft, GoalStatus.Open]"

datatype GoalVerdict =
  Achieved
| Abandoned

primrec GoalVerdict_as_str :: "GoalVerdict \<Rightarrow> string" where
  "GoalVerdict_as_str GoalVerdict.Achieved = ''achieved''"
| "GoalVerdict_as_str GoalVerdict.Abandoned = ''abandoned''"

definition GoalVerdict_all :: "GoalVerdict list" where
  "GoalVerdict_all = [GoalVerdict.Achieved, GoalVerdict.Abandoned]"

datatype EvidenceCheck =
  Tests
| E2e
| SubagentReview

primrec EvidenceCheck_as_str :: "EvidenceCheck \<Rightarrow> string" where
  "EvidenceCheck_as_str EvidenceCheck.Tests = ''tests''"
| "EvidenceCheck_as_str EvidenceCheck.E2e = ''e2e''"
| "EvidenceCheck_as_str EvidenceCheck.SubagentReview = ''subagent_review''"

definition EvidenceCheck_all :: "EvidenceCheck list" where
  "EvidenceCheck_all = [EvidenceCheck.Tests, EvidenceCheck.E2e, EvidenceCheck.SubagentReview]"

datatype PrioritySource =
  Task
| Goal
| Default

primrec PrioritySource_as_str :: "PrioritySource \<Rightarrow> string" where
  "PrioritySource_as_str PrioritySource.Task = ''task''"
| "PrioritySource_as_str PrioritySource.Goal = ''goal''"
| "PrioritySource_as_str PrioritySource.Default = ''default''"

definition PrioritySource_all :: "PrioritySource list" where
  "PrioritySource_all = [PrioritySource.Task, PrioritySource.Goal, PrioritySource.Default]"

subsection \<open>Planning\<close>

datatype ProposalStatus =
  Submitted
| Revising
| Accepted
| Canceled

primrec ProposalStatus_as_str :: "ProposalStatus \<Rightarrow> string" where
  "ProposalStatus_as_str ProposalStatus.Submitted = ''submitted''"
| "ProposalStatus_as_str ProposalStatus.Revising = ''revising''"
| "ProposalStatus_as_str ProposalStatus.Accepted = ''accepted''"
| "ProposalStatus_as_str ProposalStatus.Canceled = ''canceled''"

definition ProposalStatus_all :: "ProposalStatus list" where
  "ProposalStatus_all = [ProposalStatus.Submitted, ProposalStatus.Revising, ProposalStatus.Accepted, ProposalStatus.Canceled]"

datatype PlannerOrigin =
  Person
| Runtime

primrec PlannerOrigin_as_str :: "PlannerOrigin \<Rightarrow> string" where
  "PlannerOrigin_as_str PlannerOrigin.Person = ''person''"
| "PlannerOrigin_as_str PlannerOrigin.Runtime = ''runtime''"

definition PlannerOrigin_all :: "PlannerOrigin list" where
  "PlannerOrigin_all = [PlannerOrigin.Person, PlannerOrigin.Runtime]"

datatype PriorityBy =
  Human
| Ai

primrec PriorityBy_as_str :: "PriorityBy \<Rightarrow> string" where
  "PriorityBy_as_str PriorityBy.Human = ''human''"
| "PriorityBy_as_str PriorityBy.Ai = ''ai''"

definition PriorityBy_all :: "PriorityBy list" where
  "PriorityBy_all = [PriorityBy.Human, PriorityBy.Ai]"

datatype Origin =
  Human
| Ai
| Unknown

primrec Origin_as_str :: "Origin \<Rightarrow> string" where
  "Origin_as_str Origin.Human = ''human''"
| "Origin_as_str Origin.Ai = ''ai''"
| "Origin_as_str Origin.Unknown = ''unknown''"

definition Origin_all :: "Origin list" where
  "Origin_all = [Origin.Human, Origin.Ai, Origin.Unknown]"

datatype OriginKind =
  Request
| Person
| Finding
| FollowUp
| GoalGap
| Reopened
| Draft
| Planner
| Runtime

primrec OriginKind_as_str :: "OriginKind \<Rightarrow> string" where
  "OriginKind_as_str OriginKind.Request = ''request''"
| "OriginKind_as_str OriginKind.Person = ''person''"
| "OriginKind_as_str OriginKind.Finding = ''finding''"
| "OriginKind_as_str OriginKind.FollowUp = ''follow_up''"
| "OriginKind_as_str OriginKind.GoalGap = ''goal_gap''"
| "OriginKind_as_str OriginKind.Reopened = ''reopened''"
| "OriginKind_as_str OriginKind.Draft = ''draft''"
| "OriginKind_as_str OriginKind.Planner = ''planner''"
| "OriginKind_as_str OriginKind.Runtime = ''runtime''"

definition OriginKind_all :: "OriginKind list" where
  "OriginKind_all = [OriginKind.Request, OriginKind.Person, OriginKind.Finding, OriginKind.FollowUp, OriginKind.GoalGap, OriginKind.Reopened, OriginKind.Draft, OriginKind.Planner, OriginKind.Runtime]"

datatype DraftOrigin =
  FollowUp
| GoalGap
| Reopened
| Revisit
| Recurring

primrec DraftOrigin_as_str :: "DraftOrigin \<Rightarrow> string" where
  "DraftOrigin_as_str DraftOrigin.FollowUp = ''follow_up''"
| "DraftOrigin_as_str DraftOrigin.GoalGap = ''goal_gap''"
| "DraftOrigin_as_str DraftOrigin.Reopened = ''reopened''"
| "DraftOrigin_as_str DraftOrigin.Revisit = ''revisit''"
| "DraftOrigin_as_str DraftOrigin.Recurring = ''recurring''"

definition DraftOrigin_all :: "DraftOrigin list" where
  "DraftOrigin_all = [DraftOrigin.FollowUp, DraftOrigin.GoalGap, DraftOrigin.Reopened, DraftOrigin.Revisit, DraftOrigin.Recurring]"

datatype MembershipClassification =
  Required
| OutOfScope
| Undecided

primrec MembershipClassification_as_str :: "MembershipClassification \<Rightarrow> string" where
  "MembershipClassification_as_str MembershipClassification.Required = ''required''"
| "MembershipClassification_as_str MembershipClassification.OutOfScope = ''out_of_scope''"
| "MembershipClassification_as_str MembershipClassification.Undecided = ''undecided''"

definition MembershipClassification_all :: "MembershipClassification list" where
  "MembershipClassification_all = [MembershipClassification.Required, MembershipClassification.OutOfScope, MembershipClassification.Undecided]"

datatype UnsettledReason =
  Unjudged
| Undecided
| NeedsRecheck
| RequiredOutside

primrec UnsettledReason_as_str :: "UnsettledReason \<Rightarrow> string" where
  "UnsettledReason_as_str UnsettledReason.Unjudged = ''unjudged''"
| "UnsettledReason_as_str UnsettledReason.Undecided = ''undecided''"
| "UnsettledReason_as_str UnsettledReason.NeedsRecheck = ''needs_recheck''"
| "UnsettledReason_as_str UnsettledReason.RequiredOutside = ''required_outside''"

definition UnsettledReason_all :: "UnsettledReason list" where
  "UnsettledReason_all = [UnsettledReason.Unjudged, UnsettledReason.Undecided, UnsettledReason.NeedsRecheck, UnsettledReason.RequiredOutside]"

datatype ActorRole =
  User
| Inbox
| Planner
| Worker
| ReviewJob
| RecoveryJob
| PlanReviewJob
| GoalReviewJob
| ThroughputReviewJob
| SetupReviewJob
| Observer
| Supervisor
| Wrapper
| Integrator
| ExecutorTelemetry

primrec ActorRole_as_str :: "ActorRole \<Rightarrow> string" where
  "ActorRole_as_str ActorRole.User = ''user''"
| "ActorRole_as_str ActorRole.Inbox = ''inbox''"
| "ActorRole_as_str ActorRole.Planner = ''planner''"
| "ActorRole_as_str ActorRole.Worker = ''worker''"
| "ActorRole_as_str ActorRole.ReviewJob = ''review-job''"
| "ActorRole_as_str ActorRole.RecoveryJob = ''recovery-job''"
| "ActorRole_as_str ActorRole.PlanReviewJob = ''plan-review-job''"
| "ActorRole_as_str ActorRole.GoalReviewJob = ''goal-review-job''"
| "ActorRole_as_str ActorRole.ThroughputReviewJob = ''throughput-review-job''"
| "ActorRole_as_str ActorRole.SetupReviewJob = ''setup-review-job''"
| "ActorRole_as_str ActorRole.Observer = ''observer''"
| "ActorRole_as_str ActorRole.Supervisor = ''supervisor''"
| "ActorRole_as_str ActorRole.Wrapper = ''wrapper''"
| "ActorRole_as_str ActorRole.Integrator = ''integrator''"
| "ActorRole_as_str ActorRole.ExecutorTelemetry = ''executor-telemetry''"

definition ActorRole_all :: "ActorRole list" where
  "ActorRole_all = [ActorRole.User, ActorRole.Inbox, ActorRole.Planner, ActorRole.Worker, ActorRole.ReviewJob, ActorRole.RecoveryJob, ActorRole.PlanReviewJob, ActorRole.GoalReviewJob, ActorRole.ThroughputReviewJob, ActorRole.SetupReviewJob, ActorRole.Observer, ActorRole.Supervisor, ActorRole.Wrapper, ActorRole.Integrator, ActorRole.ExecutorTelemetry]"

subsection \<open>Review\<close>

datatype ReviewDecision =
  Pass
| Revise
| Concern

primrec ReviewDecision_as_str :: "ReviewDecision \<Rightarrow> string" where
  "ReviewDecision_as_str ReviewDecision.Pass = ''pass''"
| "ReviewDecision_as_str ReviewDecision.Revise = ''revise''"
| "ReviewDecision_as_str ReviewDecision.Concern = ''concern''"

definition ReviewDecision_all :: "ReviewDecision list" where
  "ReviewDecision_all = [ReviewDecision.Pass, ReviewDecision.Revise, ReviewDecision.Concern]"

datatype AskConfidence =
  High
| Low

primrec AskConfidence_as_str :: "AskConfidence \<Rightarrow> string" where
  "AskConfidence_as_str AskConfidence.High = ''high''"
| "AskConfidence_as_str AskConfidence.Low = ''low''"

definition AskConfidence_all :: "AskConfidence list" where
  "AskConfidence_all = [AskConfidence.High, AskConfidence.Low]"

datatype LandingRecommendation =
  Land
| SendBack

primrec LandingRecommendation_as_str :: "LandingRecommendation \<Rightarrow> string" where
  "LandingRecommendation_as_str LandingRecommendation.Land = ''land''"
| "LandingRecommendation_as_str LandingRecommendation.SendBack = ''send_back''"

definition LandingRecommendation_all :: "LandingRecommendation list" where
  "LandingRecommendation_all = [LandingRecommendation.Land, LandingRecommendation.SendBack]"

datatype ConcernReason =
  Scope
| Discard

primrec ConcernReason_as_str :: "ConcernReason \<Rightarrow> string" where
  "ConcernReason_as_str ConcernReason.Scope = ''scope''"
| "ConcernReason_as_str ConcernReason.Discard = ''discard''"

definition ConcernReason_all :: "ConcernReason list" where
  "ConcernReason_all = [ConcernReason.Scope, ConcernReason.Discard]"

datatype EscalatedBecause =
  NoRecommendation
| LowConfidence
| Scope
| Discard
| ReviseLimit
| Unsent

primrec EscalatedBecause_as_str :: "EscalatedBecause \<Rightarrow> string" where
  "EscalatedBecause_as_str EscalatedBecause.NoRecommendation = ''no_recommendation''"
| "EscalatedBecause_as_str EscalatedBecause.LowConfidence = ''low_confidence''"
| "EscalatedBecause_as_str EscalatedBecause.Scope = ''scope''"
| "EscalatedBecause_as_str EscalatedBecause.Discard = ''discard''"
| "EscalatedBecause_as_str EscalatedBecause.ReviseLimit = ''revise_limit''"
| "EscalatedBecause_as_str EscalatedBecause.Unsent = ''unsent''"

definition EscalatedBecause_all :: "EscalatedBecause list" where
  "EscalatedBecause_all = [EscalatedBecause.NoRecommendation, EscalatedBecause.LowConfidence, EscalatedBecause.Scope, EscalatedBecause.Discard, EscalatedBecause.ReviseLimit, EscalatedBecause.Unsent]"

section \<open>Actions, classes and priorities\<close>

datatype TaskAction =
  Ready | Draft | Cancel | Submit | Approve | BypassReview | Reopen

datatype ExecutionClass =
  Implementation
| Spike

primrec ExecutionClass_as_str :: "ExecutionClass \<Rightarrow> string" where
  "ExecutionClass_as_str Implementation = ''implementation''"
| "ExecutionClass_as_str Spike = ''spike''"

definition ExecutionClass_all :: "ExecutionClass list" where
  "ExecutionClass_all = [Implementation, Spike]"

datatype Priority = Low | Normal | High | Urgent | Interrupt

primrec Priority_as_str :: "Priority \<Rightarrow> string" where
  "Priority_as_str Low = ''low''"
| "Priority_as_str Normal = ''normal''"
| "Priority_as_str High = ''high''"
| "Priority_as_str Urgent = ''urgent''"
| "Priority_as_str Interrupt = ''interrupt''"

definition Priority_all :: "Priority list" where
  "Priority_all = [Low, Normal, High, Urgent, Interrupt]"

primrec Priority_as_i64 :: "Priority \<Rightarrow> int" where
  "Priority_as_i64 Low = 0"
| "Priority_as_i64 Normal = 1"
| "Priority_as_i64 High = 2"
| "Priority_as_i64 Urgent = 3"
| "Priority_as_i64 Interrupt = 4"

lemma Priority_as_i64_inj [simp]: "Priority_as_i64 p = Priority_as_i64 q \<longleftrightarrow> p = q"
  by (cases p; cases q) simp_all

text \<open>The derived order: the order of the variants, lowest first.\<close>

instantiation Priority :: linorder
begin

definition less_eq_Priority :: "Priority \<Rightarrow> Priority \<Rightarrow> bool" where
  "less_eq_Priority p q \<longleftrightarrow> Priority_as_i64 p \<le> Priority_as_i64 q"

definition less_Priority :: "Priority \<Rightarrow> Priority \<Rightarrow> bool" where
  "less_Priority p q \<longleftrightarrow> Priority_as_i64 p < Priority_as_i64 q"

instance
proof
  fix p q :: Priority
  assume "p \<le> q" and "q \<le> p"
  then have "Priority_as_i64 p = Priority_as_i64 q" by (simp add: less_eq_Priority_def)
  then show "p = q" by simp
qed (auto simp: less_eq_Priority_def less_Priority_def)

end

lemmas Priority_order_defs = less_eq_Priority_def less_Priority_def

datatype PriorityHolder = HolderTask TaskId | HolderGoal GoalId

section \<open>Broken replacement records\<close>

datatype ReplacementFault = Empty | Missing TaskId | Cycle TaskId

record UnresolvedReplacement =
  unresolved_task :: TaskId
  unresolved_fault :: ReplacementFault

text \<open>The derived order: task, then variant, then the variant's task.\<close>

primrec fault_key :: "ReplacementFault \<Rightarrow> nat \<times> int" where
  "fault_key Empty = (0, 0)"
| "fault_key (Missing to) = (1, task_id_as_i64 to)"
| "fault_key (Cycle to) = (2, task_id_as_i64 to)"

definition unresolved_key :: "UnresolvedReplacement \<Rightarrow> TaskId \<times> nat \<times> int" where
  "unresolved_key u = (unresolved_task u, fault_key (unresolved_fault u))"

lemma fault_key_inject: "fault_key x = fault_key y \<longleftrightarrow> x = y"
  by (cases x; cases y) (auto intro: TaskId.expand)

lemma unresolved_key_inject: "unresolved_key x = unresolved_key y \<longleftrightarrow> x = y"
  by (cases x; cases y) (simp add: unresolved_key_def fault_key_inject)

section \<open>Rejections\<close>

text \<open>The variants of \<open>DomainError\<close> the modelled components return.\<close>

datatype (plugins only: code size) DomainError =
  UnknownValue string string
| TaskHasUnfinishedRun TaskAction
| TransitionNotAllowed TaskStatus TaskAction
| GoalClosed GoalId "GoalVerdict option"
| GoalCloseInconsistent GoalId
| ReadyNeedsPlanReview TaskStatus
| TaskNotEditable string
| TaskPriorityNotEditable TaskId TaskStatus
| TaskContentNotEditable TaskId TaskStatus
| TaskStatusChangedSinceAuthorized TaskId TaskStatus TaskStatus
| SelfDependency
| DependencyCycle TaskId TaskId
| ReplacedDependency TaskId TaskId
| OwnGoalDependency GoalId
| AbandonedGoalDependency GoalId
| GoalDependencyCycle TaskId GoalId
| GoalMembershipCycle TaskId GoalId
| EmptyProposal
| TaskInOtherProposal TaskId ProposalId
| GoalInOtherProposal GoalId ProposalId
| ProposalNotInStatus ProposalId ProposalStatus ProposalStatus
| ProposalNotActive ProposalId ProposalStatus
| Blank string
| NonPositiveId string
| GoalAlreadyClosed GoalId "GoalVerdict option"
| GoalCloseBlocked GoalId GoalVerdict "(TaskStatus \<times> nat) list"
| GoalFollowUpsUnsettled GoalId "(TaskId \<times> string) list"
| GoalReplacementsUnresolved GoalId "UnresolvedReplacement list"
| InvalidCommit string
| GoalNotDraft GoalId
| GoalNotReopenable GoalId "GoalVerdict option"
| InvalidTaskChange string
| InvalidGoalTag string
| GoalTagRepeated string
| GoalTagNotInSet string "string list"
| GoalTagMissing GoalId "string list"
| WorkerModeUnsupported Provider WorkerMode
| InteractiveWorkerRetired
| TaskReplanning TaskId ReplanId ReplanStatus GuardedStep
| TaskHeld TaskId HoldId GuardedStep
| HoldReasonEmpty
| TaskNotHoldable TaskId TaskStatus
| TaskAlreadyHeld TaskId HoldId
| TaskNotHeld TaskId
| HoldNotSettled TaskId HoldId
| ReleaseReadMoved TaskId HoldId
| RunNotReplannable RunId RunStatus TaskStatus
| ReplanPremiseStale ReplanId string
| ReplanDiagnosisHeld ReplanId TaskId HoldId
| ReplanGenerationStale ReplanId int int
| ReplanMoveNotAllowed ReplanId ReplanStatus ReplanStatus
| ReplanNeedsSnapshot ReplanId ReplanStatus
| ReplanApplyUnavailable ReplanId
| ReplanNotResolvable ReplanId string
| ReplanDeletionRepeated ReplanId nat
| ReplanDeletionMapped ReplanId nat
| RequestPriorityDiffers RequestId Priority Priority
| PersonsPriority PriorityHolder Priority ActorRole
| TaskNotClaimable TaskId TaskStatus
| RunOfUnclaimedTask TaskId TaskStatus
| RunTransitionNotAllowed RunStatus string
| RunInconsistent RunId string
| InvalidPathGlob string string

type_synonym 'a result = "DomainError + 'a"

section \<open>Parsing an enumeration\<close>

text \<open>The macro's \<open>FromStr\<close>: the value whose text is given, or \<open>UnknownValue\<close>.\<close>

definition from_str :: "string \<Rightarrow> 'a list \<Rightarrow> ('a \<Rightarrow> string) \<Rightarrow> string \<Rightarrow> 'a result" where
  "from_str kind values as_str v = (case find (\<lambda>x. as_str x = v) values of
     Some x \<Rightarrow> Inr x | None \<Rightarrow> Inl (UnknownValue kind v))"

definition Priority_from_i64 :: "int \<Rightarrow> Priority result" where
  "Priority_from_i64 value =
    (if 0 \<le> value \<and> nat value < length Priority_all then Inr (Priority_all ! nat value)
     else Inl (UnknownValue ''Priority'' (show_int value)))"

locale string_enum =
  fixes every :: "'a list" and as_str :: "'a \<Rightarrow> string"
  assumes distinct_texts: "distinct (map as_str every)"
    and complete: "x \<in> set every"
begin

lemma from_str_as_str: "from_str kind every as_str (as_str x) = Inr x"
  using find_unique [OF distinct_texts complete] by (simp add: from_str_def)

lemma from_str_sound: "from_str kind every as_str v = Inr x \<longleftrightarrow> as_str x = v"
proof
  assume "from_str kind every as_str v = Inr x"
  then show "as_str x = v"
    by (auto simp: from_str_def split: option.splits dest: find_Some_in)
next
  assume "as_str x = v"
  then show "from_str kind every as_str v = Inr x"
    using from_str_as_str by blast
qed

lemma from_str_unknown:
  "from_str kind every as_str v = Inl e \<longleftrightarrow> e = UnknownValue kind v \<and> v \<notin> range as_str"
proof (cases "find (\<lambda>x. as_str x = v) every")
  case None
  then have "\<forall>x. as_str x \<noteq> v"
    using complete by (auto simp: find_None_iff)
  with None show ?thesis by (auto simp: from_str_def)
next
  case (Some x)
  then have "as_str x = v" by (auto dest: find_Some_in)
  with Some show ?thesis by (auto simp: from_str_def)
qed

lemma as_str_inject: "as_str x = as_str y \<longleftrightarrow> x = y"
  using from_str_as_str by (metis Inr_inject)

end

interpretation ReplanOrigin_enum: string_enum ReplanOrigin_all ReplanOrigin_as_str
proof unfold_locales
  show "distinct (map ReplanOrigin_as_str ReplanOrigin_all)" by (simp add: ReplanOrigin_all_def)
  show "x \<in> set ReplanOrigin_all" for x by (cases x) (simp_all add: ReplanOrigin_all_def)
qed

interpretation ReplanStatus_enum: string_enum ReplanStatus_all ReplanStatus_as_str
proof unfold_locales
  show "distinct (map ReplanStatus_as_str ReplanStatus_all)" by (simp add: ReplanStatus_all_def)
  show "x \<in> set ReplanStatus_all" for x by (cases x) (simp_all add: ReplanStatus_all_def)
qed

interpretation GuardedStep_enum: string_enum GuardedStep_all GuardedStep_as_str
proof unfold_locales
  show "distinct (map GuardedStep_as_str GuardedStep_all)" by (simp add: GuardedStep_all_def)
  show "x \<in> set GuardedStep_all" for x by (cases x) (simp_all add: GuardedStep_all_def)
qed

interpretation ReplanResolution_enum: string_enum ReplanResolution_all ReplanResolution_as_str
proof unfold_locales
  show "distinct (map ReplanResolution_as_str ReplanResolution_all)" by (simp add: ReplanResolution_all_def)
  show "x \<in> set ReplanResolution_all" for x by (cases x) (simp_all add: ReplanResolution_all_def)
qed

interpretation ReleaseDecision_enum: string_enum ReleaseDecision_all ReleaseDecision_as_str
proof unfold_locales
  show "distinct (map ReleaseDecision_as_str ReleaseDecision_all)" by (simp add: ReleaseDecision_all_def)
  show "x \<in> set ReleaseDecision_all" for x by (cases x) (simp_all add: ReleaseDecision_all_def)
qed

interpretation HoldState_enum: string_enum HoldState_all HoldState_as_str
proof unfold_locales
  show "distinct (map HoldState_as_str HoldState_all)" by (simp add: HoldState_all_def)
  show "x \<in> set HoldState_all" for x by (cases x) (simp_all add: HoldState_all_def)
qed

interpretation RunHoldWait_enum: string_enum RunHoldWait_all RunHoldWait_as_str
proof unfold_locales
  show "distinct (map RunHoldWait_as_str RunHoldWait_all)" by (simp add: RunHoldWait_all_def)
  show "x \<in> set RunHoldWait_all" for x by (cases x) (simp_all add: RunHoldWait_all_def)
qed

interpretation KeptSource_enum: string_enum KeptSource_all KeptSource_as_str
proof unfold_locales
  show "distinct (map KeptSource_as_str KeptSource_all)" by (simp add: KeptSource_all_def)
  show "x \<in> set KeptSource_all" for x by (cases x) (simp_all add: KeptSource_all_def)
qed

interpretation DiscardReason_enum: string_enum DiscardReason_all DiscardReason_as_str
proof unfold_locales
  show "distinct (map DiscardReason_as_str DiscardReason_all)" by (simp add: DiscardReason_all_def)
  show "x \<in> set DiscardReason_all" for x by (cases x) (simp_all add: DiscardReason_all_def)
qed

interpretation HoldEnd_enum: string_enum HoldEnd_all HoldEnd_as_str
proof unfold_locales
  show "distinct (map HoldEnd_as_str HoldEnd_all)" by (simp add: HoldEnd_all_def)
  show "x \<in> set HoldEnd_all" for x by (cases x) (simp_all add: HoldEnd_all_def)
qed

interpretation HoldReminder_enum: string_enum HoldReminder_all HoldReminder_as_str
proof unfold_locales
  show "distinct (map HoldReminder_as_str HoldReminder_all)" by (simp add: HoldReminder_all_def)
  show "x \<in> set HoldReminder_all" for x by (cases x) (simp_all add: HoldReminder_all_def)
qed

interpretation TaskStatus_enum: string_enum TaskStatus_all TaskStatus_as_str
proof unfold_locales
  show "distinct (map TaskStatus_as_str TaskStatus_all)" by (simp add: TaskStatus_all_def)
  show "x \<in> set TaskStatus_all" for x by (cases x) (simp_all add: TaskStatus_all_def)
qed

interpretation RunStatus_enum: string_enum RunStatus_all RunStatus_as_str
proof unfold_locales
  show "distinct (map RunStatus_as_str RunStatus_all)" by (simp add: RunStatus_all_def)
  show "x \<in> set RunStatus_all" for x by (cases x) (simp_all add: RunStatus_all_def)
qed

interpretation Provider_enum: string_enum Provider_all Provider_as_str
proof unfold_locales
  show "distinct (map Provider_as_str Provider_all)" by (simp add: Provider_all_def)
  show "x \<in> set Provider_all" for x by (cases x) (simp_all add: Provider_all_def)
qed

interpretation WorkerMode_enum: string_enum WorkerMode_all WorkerMode_as_str
proof unfold_locales
  show "distinct (map WorkerMode_as_str WorkerMode_all)" by (simp add: WorkerMode_all_def)
  show "x \<in> set WorkerMode_all" for x by (cases x) (simp_all add: WorkerMode_all_def)
qed

interpretation GoalStatus_enum: string_enum GoalStatus_all GoalStatus_as_str
proof unfold_locales
  show "distinct (map GoalStatus_as_str GoalStatus_all)" by (simp add: GoalStatus_all_def)
  show "x \<in> set GoalStatus_all" for x by (cases x) (simp_all add: GoalStatus_all_def)
qed

interpretation GoalVerdict_enum: string_enum GoalVerdict_all GoalVerdict_as_str
proof unfold_locales
  show "distinct (map GoalVerdict_as_str GoalVerdict_all)" by (simp add: GoalVerdict_all_def)
  show "x \<in> set GoalVerdict_all" for x by (cases x) (simp_all add: GoalVerdict_all_def)
qed

interpretation EvidenceCheck_enum: string_enum EvidenceCheck_all EvidenceCheck_as_str
proof unfold_locales
  show "distinct (map EvidenceCheck_as_str EvidenceCheck_all)" by (simp add: EvidenceCheck_all_def)
  show "x \<in> set EvidenceCheck_all" for x by (cases x) (simp_all add: EvidenceCheck_all_def)
qed

interpretation PrioritySource_enum: string_enum PrioritySource_all PrioritySource_as_str
proof unfold_locales
  show "distinct (map PrioritySource_as_str PrioritySource_all)" by (simp add: PrioritySource_all_def)
  show "x \<in> set PrioritySource_all" for x by (cases x) (simp_all add: PrioritySource_all_def)
qed

interpretation ProposalStatus_enum: string_enum ProposalStatus_all ProposalStatus_as_str
proof unfold_locales
  show "distinct (map ProposalStatus_as_str ProposalStatus_all)" by (simp add: ProposalStatus_all_def)
  show "x \<in> set ProposalStatus_all" for x by (cases x) (simp_all add: ProposalStatus_all_def)
qed

interpretation PlannerOrigin_enum: string_enum PlannerOrigin_all PlannerOrigin_as_str
proof unfold_locales
  show "distinct (map PlannerOrigin_as_str PlannerOrigin_all)" by (simp add: PlannerOrigin_all_def)
  show "x \<in> set PlannerOrigin_all" for x by (cases x) (simp_all add: PlannerOrigin_all_def)
qed

interpretation PriorityBy_enum: string_enum PriorityBy_all PriorityBy_as_str
proof unfold_locales
  show "distinct (map PriorityBy_as_str PriorityBy_all)" by (simp add: PriorityBy_all_def)
  show "x \<in> set PriorityBy_all" for x by (cases x) (simp_all add: PriorityBy_all_def)
qed

interpretation Origin_enum: string_enum Origin_all Origin_as_str
proof unfold_locales
  show "distinct (map Origin_as_str Origin_all)" by (simp add: Origin_all_def)
  show "x \<in> set Origin_all" for x by (cases x) (simp_all add: Origin_all_def)
qed

interpretation OriginKind_enum: string_enum OriginKind_all OriginKind_as_str
proof unfold_locales
  show "distinct (map OriginKind_as_str OriginKind_all)" by (simp add: OriginKind_all_def)
  show "x \<in> set OriginKind_all" for x by (cases x) (simp_all add: OriginKind_all_def)
qed

interpretation DraftOrigin_enum: string_enum DraftOrigin_all DraftOrigin_as_str
proof unfold_locales
  show "distinct (map DraftOrigin_as_str DraftOrigin_all)" by (simp add: DraftOrigin_all_def)
  show "x \<in> set DraftOrigin_all" for x by (cases x) (simp_all add: DraftOrigin_all_def)
qed

interpretation MembershipClassification_enum: string_enum MembershipClassification_all MembershipClassification_as_str
proof unfold_locales
  show "distinct (map MembershipClassification_as_str MembershipClassification_all)" by (simp add: MembershipClassification_all_def)
  show "x \<in> set MembershipClassification_all" for x by (cases x) (simp_all add: MembershipClassification_all_def)
qed

interpretation UnsettledReason_enum: string_enum UnsettledReason_all UnsettledReason_as_str
proof unfold_locales
  show "distinct (map UnsettledReason_as_str UnsettledReason_all)" by (simp add: UnsettledReason_all_def)
  show "x \<in> set UnsettledReason_all" for x by (cases x) (simp_all add: UnsettledReason_all_def)
qed

interpretation ActorRole_enum: string_enum ActorRole_all ActorRole_as_str
proof unfold_locales
  show "distinct (map ActorRole_as_str ActorRole_all)" by (simp add: ActorRole_all_def)
  show "x \<in> set ActorRole_all" for x by (cases x) (simp_all add: ActorRole_all_def)
qed

interpretation ReviewDecision_enum: string_enum ReviewDecision_all ReviewDecision_as_str
proof unfold_locales
  show "distinct (map ReviewDecision_as_str ReviewDecision_all)" by (simp add: ReviewDecision_all_def)
  show "x \<in> set ReviewDecision_all" for x by (cases x) (simp_all add: ReviewDecision_all_def)
qed

interpretation AskConfidence_enum: string_enum AskConfidence_all AskConfidence_as_str
proof unfold_locales
  show "distinct (map AskConfidence_as_str AskConfidence_all)" by (simp add: AskConfidence_all_def)
  show "x \<in> set AskConfidence_all" for x by (cases x) (simp_all add: AskConfidence_all_def)
qed

interpretation LandingRecommendation_enum: string_enum LandingRecommendation_all LandingRecommendation_as_str
proof unfold_locales
  show "distinct (map LandingRecommendation_as_str LandingRecommendation_all)" by (simp add: LandingRecommendation_all_def)
  show "x \<in> set LandingRecommendation_all" for x by (cases x) (simp_all add: LandingRecommendation_all_def)
qed

interpretation ConcernReason_enum: string_enum ConcernReason_all ConcernReason_as_str
proof unfold_locales
  show "distinct (map ConcernReason_as_str ConcernReason_all)" by (simp add: ConcernReason_all_def)
  show "x \<in> set ConcernReason_all" for x by (cases x) (simp_all add: ConcernReason_all_def)
qed

interpretation EscalatedBecause_enum: string_enum EscalatedBecause_all EscalatedBecause_as_str
proof unfold_locales
  show "distinct (map EscalatedBecause_as_str EscalatedBecause_all)" by (simp add: EscalatedBecause_all_def)
  show "x \<in> set EscalatedBecause_all" for x by (cases x) (simp_all add: EscalatedBecause_all_def)
qed

interpretation ExecutionClass_enum: string_enum ExecutionClass_all ExecutionClass_as_str
proof unfold_locales
  show "distinct (map ExecutionClass_as_str ExecutionClass_all)"
    by (simp add: ExecutionClass_all_def)
  show "x \<in> set ExecutionClass_all" for x by (cases x) (simp_all add: ExecutionClass_all_def)
qed

interpretation Priority_enum: string_enum Priority_all Priority_as_str
proof unfold_locales
  show "distinct (map Priority_as_str Priority_all)" by (simp add: Priority_all_def)
  show "x \<in> set Priority_all" for x by (cases x) (simp_all add: Priority_all_def)
qed

end
