(* ===== verification/Scope.thy ===== *)
theory Scope
  imports Vocabulary
begin

text \<open>
  The paths a task may change, \<^verbatim>\<open>src/domain/scope.rs\<close>: the check of the globs a task
  declares, the matcher, and the changed paths no glob covers.

  The matcher is a backtracking recursion over bytes. Its meaning is stated without
  recursion: a text matches a glob when it can be cut into one piece per token of the
  glob, each piece what its token stands for (\<open>piece_of\<close>), and a path matches when its
  segments can be cut into one block per segment of the glob (\<open>block_of\<close>).
\<close>

section \<open>Checking declared globs\<close>

definition path_glob_reason :: "string \<Rightarrow> string option" where
  "path_glob_reason glob =
    (if blank glob then Some ''it is blank''
     else if take 1 glob = ''/'' then Some ''it must be relative to the repository root''
     else if list_ex (\<lambda>s. s = ''.'' \<or> s = ''..'') (split_on (CHR ''/'') glob)
       then Some ''it must not have a . or .. segment''
     else if list_ex (\<lambda>s. s = []) (split_on (CHR ''/'') glob)
       then Some ''it must not have an empty segment''
     else None)"

definition validate_path_globs :: "string list \<Rightarrow> unit result" where
  "validate_path_globs globs = check_each (\<lambda>glob.
     case path_glob_reason glob of
       Some reason \<Rightarrow> Inl (InvalidPathGlob glob reason)
     | None \<Rightarrow> Inr ()) globs"

definition dedup_globs :: "string list \<Rightarrow> string list" where
  "dedup_globs globs = each_once globs"

section \<open>Matching\<close>

definition leading_ones :: "char \<Rightarrow> nat" where
  "leading_ones b = (let n = (of_char b :: nat) in
     if n < 128 then 0 else if n < 192 then 1 else if n < 224 then 2 else if n < 240 then 3
     else if n < 248 then 4 else if n < 252 then 5 else if n < 254 then 6
     else if n < 255 then 7 else 8)"

definition char_width :: "char \<Rightarrow> nat" where
  "char_width b = (if leading_ones b = 0 then 1 else leading_ones b)"

fun segment_matches :: "string \<Rightarrow> string \<Rightarrow> bool" where
  "segment_matches [] text = (text = [])"
| "segment_matches (c # rest) text =
    (if c = CHR ''*'' then
       list_ex (\<lambda>skip. segment_matches rest (drop skip text)) [0..<length text + 1]
     else if c = CHR ''?'' then
       (let width = (case text of [] \<Rightarrow> 0 | b # _ \<Rightarrow> char_width b)
        in 0 < width \<and> width \<le> length text \<and> segment_matches rest (drop width text))
     else (case text of [] \<Rightarrow> False | b # tail \<Rightarrow> b = c \<and> segment_matches rest tail))"

fun segments_match :: "string list \<Rightarrow> string list \<Rightarrow> bool" where
  "segments_match [] path = (path = [])"
| "segments_match (first # rest) path =
    (if first = ''**'' then
       list_ex (\<lambda>skip. segments_match rest (drop skip path)) [0..<length path + 1]
     else (case path of [] \<Rightarrow> False
       | segment # tail \<Rightarrow> segment_matches first segment \<and> segments_match rest tail))"

definition glob_matches :: "string \<Rightarrow> string \<Rightarrow> bool" where
  "glob_matches glob path =
    segments_match (split_on (CHR ''/'') glob) (split_on (CHR ''/'') path)"

definition out_of_scope :: "string list \<Rightarrow> string list \<Rightarrow> string list" where
  "out_of_scope globs changed =
    (if globs = [] then []
     else filter (\<lambda>path. \<not> list_ex (\<lambda>glob. glob_matches glob path) globs) changed)"

definition scope_violation_reason :: "string list \<Rightarrow> string" where
  "scope_violation_reason paths =
    ''changed paths outside the task's --paths: '' @ join '', '' paths"

section \<open>What the globs stand for\<close>

definition piece_of :: "char \<Rightarrow> string \<Rightarrow> bool" where
  "piece_of c p =
    (if c = CHR ''*'' then True
     else if c = CHR ''?'' then p \<noteq> [] \<and> length p = char_width (hd p)
     else p = [c])"

definition block_of :: "string \<Rightarrow> string list \<Rightarrow> bool" where
  "block_of s b =
    (if s = ''**'' then True
     else \<exists>x ps. b = [x] \<and> list_all2 piece_of s ps \<and> concat ps = x)"

lemma char_width_pos [simp]: "0 < char_width b"
  by (simp add: char_width_def)

lemma piece_of_star [simp]: "piece_of (CHR ''*'') p"
  by (simp add: piece_of_def)

lemma piece_of_one [simp]: "piece_of (CHR ''?'') p \<longleftrightarrow> p \<noteq> [] \<and> length p = char_width (hd p)"
  by (simp add: piece_of_def)

lemma piece_of_literal: "c \<noteq> CHR ''*'' \<Longrightarrow> c \<noteq> CHR ''?'' \<Longrightarrow> piece_of c p \<longleftrightarrow> p = [c]"
  by (simp add: piece_of_def)

lemma block_of_stars [simp]: "block_of ''**'' b"
  by (simp add: block_of_def)

lemma list_ex_drop:
  "list_ex (\<lambda>skip. P (drop skip xs)) [0..<length xs + 1] \<longleftrightarrow> (\<exists>p q. xs = p @ q \<and> P q)"
  (is "?l \<longleftrightarrow> ?r")
proof -
  have "?l \<longleftrightarrow> (\<exists>k < length xs + 1. P (drop k xs))"
    unfolding list_ex_iff by (simp only: set_upt atLeastLessThan_iff Bex_def) blast
  also have "\<dots> \<longleftrightarrow> ?r"
  proof
    assume "\<exists>k < length xs + 1. P (drop k xs)"
    then obtain k where "P (drop k xs)" by blast
    moreover have "xs = take k xs @ drop k xs" by simp
    ultimately show ?r by blast
  next
    assume ?r
    then obtain p q where "xs = p @ q" and "P q" by blast
    then have "length p < length xs + 1" and "P (drop (length p) xs)" by simp_all
    then show "\<exists>k < length xs + 1. P (drop k xs)" by blast
  qed
  finally show ?thesis .
qed

lemma list_all2_concat_Cons:
  "(\<exists>ps. list_all2 R (c # cs) ps \<and> concat ps = xs) \<longleftrightarrow>
    (\<exists>p q. xs = p @ q \<and> R c p \<and> (\<exists>ps. list_all2 R cs ps \<and> concat ps = q))"
proof
  assume "\<exists>ps. list_all2 R (c # cs) ps \<and> concat ps = xs"
  then obtain p ps where "R c p" "list_all2 R cs ps" "xs = p @ concat ps"
    by (auto simp: list_all2_Cons1)
  then show "\<exists>p q. xs = p @ q \<and> R c p \<and> (\<exists>ps. list_all2 R cs ps \<and> concat ps = q)" by blast
next
  assume "\<exists>p q. xs = p @ q \<and> R c p \<and> (\<exists>ps. list_all2 R cs ps \<and> concat ps = q)"
  then obtain p ps where "R c p" "list_all2 R cs ps" "xs = p @ concat ps" by blast
  then have "list_all2 R (c # cs) (p # ps) \<and> concat (p # ps) = xs" by simp
  then show "\<exists>ps. list_all2 R (c # cs) ps \<and> concat ps = xs" by blast
qed

lemma segment_matches_pieces:
  "segment_matches g t \<longleftrightarrow> (\<exists>ps. list_all2 piece_of g ps \<and> concat ps = t)"
proof (induction g arbitrary: t)
  case Nil
  then show ?case by auto
next
  case (Cons c rest)
  have split: "(\<exists>ps. list_all2 piece_of (c # rest) ps \<and> concat ps = t) \<longleftrightarrow>
      (\<exists>p q. t = p @ q \<and> piece_of c p \<and> segment_matches rest q)"
    by (simp only: list_all2_concat_Cons Cons.IH)
  consider (star) "c = CHR ''*''" | (one) "c = CHR ''?''" | (lit) "c \<noteq> CHR ''*''" "c \<noteq> CHR ''?''"
    by blast
  then show ?case
  proof cases
    case star
    then have "segment_matches (c # rest) t \<longleftrightarrow> (\<exists>p q. t = p @ q \<and> segment_matches rest q)"
      by (simp only: segment_matches.simps if_True simp_thms list_ex_drop)
    with split star show ?thesis by simp
  next
    case one
    have "segment_matches (c # rest) t \<longleftrightarrow>
        (\<exists>p q. t = p @ q \<and> p \<noteq> [] \<and> length p = char_width (hd p) \<and> segment_matches rest q)"
    proof (cases t)
      case Nil
      with one show ?thesis by simp
    next
      case (Cons b bs)
      show ?thesis
      proof
        assume "segment_matches (c # rest) t"
        with one Cons have w: "char_width b \<le> length t" "segment_matches rest (drop (char_width b) t)"
          by (auto simp: Let_def)
        let ?p = "take (char_width b) t"
        have ne: "?p \<noteq> []" using Cons char_width_pos [of b] by simp
        then have "hd ?p = b" using Cons by (cases "char_width b") auto
        with w ne show "\<exists>p q. t = p @ q \<and> p \<noteq> [] \<and> length p = char_width (hd p) \<and> segment_matches rest q"
          by (metis append_take_drop_id length_take min.absorb2)
      next
        assume "\<exists>p q. t = p @ q \<and> p \<noteq> [] \<and> length p = char_width (hd p) \<and> segment_matches rest q"
        then obtain p q where pq: "t = p @ q" "p \<noteq> []" "length p = char_width (hd p)" "segment_matches rest q"
          by blast
        with Cons have "hd p = b" by (cases p) auto
        with pq one Cons show "segment_matches (c # rest) t"
          by (auto simp: Let_def split: list.splits)
      qed
    qed
    with split one show ?thesis by (simp only: piece_of_one conj_assoc)
  next
    case lit
    then have "segment_matches (c # rest) t \<longleftrightarrow> (\<exists>q. t = [c] @ q \<and> segment_matches rest q)"
      by (cases t) auto
    with split piece_of_literal [OF lit] show ?thesis by (simp only: conj_commute ex_simps simp_thms) blast
  qed
qed

lemma segments_match_blocks:
  "segments_match g p \<longleftrightarrow> (\<exists>bs. list_all2 block_of g bs \<and> concat bs = p)"
proof (induction g arbitrary: p)
  case Nil
  then show ?case by auto
next
  case (Cons s rest)
  have split: "(\<exists>bs. list_all2 block_of (s # rest) bs \<and> concat bs = p) \<longleftrightarrow>
      (\<exists>a b. p = a @ b \<and> block_of s a \<and> segments_match rest b)"
    by (simp only: list_all2_concat_Cons Cons.IH)
  show ?case
  proof (cases "s = ''**''")
    case True
    then have "segments_match (s # rest) p \<longleftrightarrow> (\<exists>a b. p = a @ b \<and> segments_match rest b)"
      by (simp only: segments_match.simps if_True simp_thms list_ex_drop)
    with split True show ?thesis by simp
  next
    case False
    then have "segments_match (s # rest) p \<longleftrightarrow>
        (\<exists>x b. p = [x] @ b \<and> segment_matches s x \<and> segments_match rest b)"
      by (cases p) auto
    also have "\<dots> \<longleftrightarrow> (\<exists>a b. p = a @ b \<and> (\<exists>x. a = [x] \<and> segment_matches s x) \<and> segments_match rest b)"
      by blast
    also have "\<dots> \<longleftrightarrow> (\<exists>a b. p = a @ b \<and> block_of s a \<and> segments_match rest b)"
      using False by (simp only: block_of_def segment_matches_pieces if_False) blast
    finally show ?thesis using split by (simp only:)
  qed
qed

section \<open>Properties\<close>

lemma validate_path_globs_ok:
  "validate_path_globs globs = Inr u \<longleftrightarrow> (\<forall>g \<in> set globs. path_glob_reason g = None)"
  by (auto simp: validate_path_globs_def split: option.splits)

lemma valid_glob_segments:
  assumes "path_glob_reason glob = None" and "s \<in> set (split_on (CHR ''/'') glob)"
  shows "s \<noteq> []" and "s \<noteq> ''.''" and "s \<noteq> ''..''"
  using assms by (auto simp: path_glob_reason_def list_ex_iff split: if_splits)

lemma out_of_scope_empty:
  "out_of_scope globs changed = [] \<longleftrightarrow>
    globs = [] \<or> (\<forall>p \<in> set changed. \<exists>g \<in> set globs. glob_matches g p)"
  by (auto simp: out_of_scope_def filter_empty_conv list_ex_iff)


end
