(* ===== verification/Worker.thy ===== *)
theory Worker
  imports Vocabulary
begin

text \<open>
  The worker a task asks for, \<^verbatim>\<open>src/domain/worker.rs\<close>: a provider and a mode, the pairs the
  runtime can run (\<open>worker_ok\<close>), how a missing provider or mode is filled in, and why a
  supervisor cannot claim for a worker.
\<close>

record Worker =
  worker_provider :: Provider
  worker_mode :: WorkerMode

definition refuse_interactive :: "WorkerMode option \<Rightarrow> unit result" where
  "refuse_interactive mode = (case mode of
     Some WorkerMode.Interactive \<Rightarrow> Inl InteractiveWorkerRetired
   | Some WorkerMode.Headless \<Rightarrow> Inr ()
   | None \<Rightarrow> Inr ())"

definition worker_new :: "Provider \<Rightarrow> WorkerMode \<Rightarrow> Worker result" where
  "worker_new provider mode =
    (if provider = Provider.Codex \<and> mode = WorkerMode.Interactive
     then Inl (WorkerModeUnsupported provider mode)
     else Inr \<lparr>worker_provider = provider, worker_mode = mode\<rparr>)"

definition default_mode :: "Provider \<Rightarrow> WorkerMode" where
  "default_mode provider = WorkerMode.Headless"

definition worker_resolve :: "Provider option \<Rightarrow> WorkerMode option \<Rightarrow> Worker result" where
  "worker_resolve provider mode =
    (let provider = case_option Provider.Claude id provider
     in worker_new provider (case_option (default_mode provider) id mode))"

definition worker_with :: "Worker \<Rightarrow> Provider option \<Rightarrow> WorkerMode option \<Rightarrow> Worker result" where
  "worker_with w provider mode = (case (provider, mode) of
     (None, None) \<Rightarrow> Inr w
   | (Some provider, mode) \<Rightarrow> worker_new provider (case_option (default_mode provider) id mode)
   | (None, Some mode) \<Rightarrow> worker_new (worker_provider w) mode)"

definition PROVIDER_UNAVAILABLE :: string where
  "PROVIDER_UNAVAILABLE = ''provider_unavailable''"

definition MODE_UNAVAILABLE :: string where
  "MODE_UNAVAILABLE = ''mode_unavailable''"

definition unavailable :: "Worker \<Rightarrow> Worker list \<Rightarrow> string option" where
  "unavailable w supported =
    (let w = w\<lparr>worker_mode := WorkerMode.Headless\<rparr>
     in if w \<in> set supported then None
        else if list_ex (\<lambda>v. worker_provider v = worker_provider w) supported
        then Some MODE_UNAVAILABLE
        else Some PROVIDER_UNAVAILABLE)"

definition provider_other :: "Provider \<Rightarrow> Provider" where
  "provider_other p = (case p of Provider.Claude \<Rightarrow> Provider.Codex | Provider.Codex \<Rightarrow> Provider.Claude)"

text \<open>The pairs the runtime can run: every one but Codex interactive.\<close>

definition worker_ok :: "Worker \<Rightarrow> bool" where
  "worker_ok w \<longleftrightarrow> \<not> (worker_provider w = Provider.Codex \<and> worker_mode w = WorkerMode.Interactive)"

lemma worker_new_ok: "worker_new p m = Inr w \<Longrightarrow> worker_ok w"
  by (auto simp: worker_new_def worker_ok_def split: if_splits)

lemma worker_resolve_ok: "worker_resolve p m = Inr w \<Longrightarrow> worker_ok w"
  by (auto simp: worker_resolve_def Let_def dest: worker_new_ok)

lemma worker_with_ok: "worker_ok w \<Longrightarrow> worker_with w p m = Inr w' \<Longrightarrow> worker_ok w'"
  by (auto simp: worker_with_def split: option.splits dest: worker_new_ok)

text \<open>Without a mode a worker always resolves, and it runs headless.\<close>

lemma worker_resolve_default:
  "worker_resolve p None =
    Inr \<lparr>worker_provider = case_option Provider.Claude id p, worker_mode = WorkerMode.Headless\<rparr>"
  by (simp add: worker_resolve_def worker_new_def default_mode_def Let_def)

lemma worker_with_provider:
  "worker_with w (Some p) None = Inr \<lparr>worker_provider = p, worker_mode = WorkerMode.Headless\<rparr>"
  by (simp add: worker_with_def worker_new_def default_mode_def)

lemma unavailable_None:
  "unavailable w supported = None \<longleftrightarrow>
    \<lparr>worker_provider = worker_provider w, worker_mode = WorkerMode.Headless\<rparr> \<in> set supported"
  by (cases w) (auto simp: unavailable_def Let_def)

lemma provider_other_involutive [simp]: "provider_other (provider_other p) = p"
  by (cases p) (simp_all add: provider_other_def)

end
