(* ===== verification/Priority_Rules.thy ===== *)
theory Priority_Rules
  imports Vocabulary
begin

text \<open>
  Where a priority comes from and who may change it: \<open>base_priority\<close> and \<open>ClaimRank\<close> of
  \<^verbatim>\<open>src/domain/mod.rs\<close>, the origins and the priorities at creation of
  \<^verbatim>\<open>src/domain/plan_request.rs\<close>, and the protection of a person's priority of
  \<^verbatim>\<open>src/domain/authorization.rs\<close>.
\<close>

section \<open>Base priority and claim rank\<close>

definition base_priority ::
  "Priority option \<Rightarrow> Priority option \<Rightarrow> Priority \<times> PrioritySource" where
  "base_priority own goal = (case (own, goal) of
     (Some own, _) \<Rightarrow> (own, PrioritySource.Task)
   | (None, Some goal) \<Rightarrow> (goal, PrioritySource.Goal)
   | (None, None) \<Rightarrow> (Normal, PrioritySource.Default))"

text \<open>\<open>ClaimRank\<close> derives its order field by field: highest effective priority, then most
  tasks released, then lowest ID.\<close>

type_synonym ClaimRank = "Priority reverse \<times> nat reverse \<times> TaskId"

definition claim_rank :: "Priority \<Rightarrow> nat \<Rightarrow> TaskId \<Rightarrow> ClaimRank" where
  "claim_rank effective_priority unblocks task =
    (Reverse effective_priority, Reverse unblocks, task)"

section \<open>Origins\<close>

definition OriginKind_origin :: "OriginKind \<Rightarrow> Origin" where
  "OriginKind_origin k = (case k of
     OriginKind.Request \<Rightarrow> Origin.Human
   | OriginKind.Person \<Rightarrow> Origin.Human
   | _ \<Rightarrow> Origin.Ai)"

definition OriginKind_of_draft :: "DraftOrigin option \<Rightarrow> OriginKind" where
  "OriginKind_of_draft d = (case d of
     Some DraftOrigin.FollowUp \<Rightarrow> OriginKind.FollowUp
   | Some DraftOrigin.GoalGap \<Rightarrow> OriginKind.GoalGap
   | Some DraftOrigin.Reopened \<Rightarrow> OriginKind.Reopened
   | Some DraftOrigin.Revisit \<Rightarrow> OriginKind.Draft
   | Some DraftOrigin.Recurring \<Rightarrow> OriginKind.Draft
   | None \<Rightarrow> OriginKind.Draft)"

record RecordedOrigin =
  recorded_origin :: Origin
  recorded_kind :: "OriginKind option"
  recorded_request :: "RequestId option"

definition RecordedOrigin_UNKNOWN :: RecordedOrigin where
  "RecordedOrigin_UNKNOWN =
    \<lparr>recorded_origin = Origin.Unknown, recorded_kind = None, recorded_request = None\<rparr>"

definition RecordedOrigin_of :: "OriginKind \<Rightarrow> RecordedOrigin" where
  "RecordedOrigin_of kind =
    \<lparr>recorded_origin = OriginKind_origin kind, recorded_kind = Some kind, recorded_request = None\<rparr>"

definition RecordedOrigin_request :: "RequestId \<Rightarrow> RecordedOrigin" where
  "RecordedOrigin_request request =
    \<lparr>recorded_origin = Origin.Human, recorded_kind = Some OriginKind.Request,
     recorded_request = Some request\<rparr>"

record CreatingPlanner =
  opened_by :: "PlannerOrigin option"
  planner_request :: "RequestId option"
  revised_request :: "RequestId option"
  planner_finding :: bool
  planner_draft :: "DraftOrigin option option"

datatype Creator =
  CreatorPerson
| CreatorPlanner CreatingPlanner
| CreatorDraft DraftOrigin
| CreatorOther

definition Creator_is_person :: "Creator \<Rightarrow> bool" where
  "Creator_is_person c \<longleftrightarrow> c = CreatorPerson"

definition creation_origin :: "Creator \<Rightarrow> RecordedOrigin" where
  "creation_origin creator = (case creator of
     CreatorPerson \<Rightarrow> RecordedOrigin_of OriginKind.Person
   | CreatorDraft origin \<Rightarrow> RecordedOrigin_of (OriginKind_of_draft (Some origin))
   | CreatorOther \<Rightarrow> RecordedOrigin_of OriginKind.Runtime
   | CreatorPlanner planner \<Rightarrow>
       (case planner_request planner of
          Some request \<Rightarrow> RecordedOrigin_request request
        | None \<Rightarrow>
            if opened_by planner = Some PlannerOrigin.Person
            then RecordedOrigin_of OriginKind.Person
            else if planner_finding planner then RecordedOrigin_of OriginKind.Finding
            else (case planner_draft planner of
                Some draft \<Rightarrow> RecordedOrigin_of (OriginKind_of_draft draft)
              | None \<Rightarrow> (case revised_request planner of
                  Some request \<Rightarrow> RecordedOrigin_request request
                | None \<Rightarrow> RecordedOrigin_of OriginKind.Planner))))"

section \<open>Who set a priority\<close>

definition PriorityBy_of :: "Creator \<Rightarrow> PriorityBy" where
  "PriorityBy_of creator = (if Creator_is_person creator then PriorityBy.Human else PriorityBy.Ai)"

definition PriorityBy_effective ::
  "Priority option \<Rightarrow> PriorityBy option \<Rightarrow> PriorityBy option \<Rightarrow> PriorityBy" where
  "PriorityBy_effective own own_by goal_by = (case own of
     Some _ \<Rightarrow> case_option PriorityBy.Human id own_by
   | None \<Rightarrow> case_option PriorityBy.Ai id goal_by)"

definition goal_priority_at_creation ::
  "Creator \<Rightarrow> (RequestId \<times> Priority) option \<Rightarrow> Priority option \<Rightarrow> (Priority \<times> PriorityBy) result"
where
  "goal_priority_at_creation creator request given = (case request of
     Some (request_id, priority) \<Rightarrow>
       (case given of
          Some g \<Rightarrow> if g \<noteq> priority then Inl (RequestPriorityDiffers request_id priority g)
                    else Inr (priority, PriorityBy.Human)
        | None \<Rightarrow> Inr (priority, PriorityBy.Human))
   | None \<Rightarrow> Inr (case_option Normal id given, PriorityBy_of creator))"

definition task_priority_at_creation ::
  "Creator \<Rightarrow> (RequestId \<times> Priority) option \<Rightarrow> Priority option \<Rightarrow> (Priority \<times> PriorityBy) option
    \<Rightarrow> (Priority option \<times> PriorityBy option) result"
where
  "task_priority_at_creation creator request given goal = (case request of
     Some (request_id, priority) \<Rightarrow>
       (case given of
          Some g \<Rightarrow> if g \<noteq> priority then Inl (RequestPriorityDiffers request_id priority g)
                    else Inr (Some priority, Some PriorityBy.Human)
        | None \<Rightarrow> if goal = Some (priority, PriorityBy.Human) then Inr (None, None)
                  else Inr (Some priority, Some PriorityBy.Human))
   | None \<Rightarrow> Inr (given, map_option (\<lambda>_. PriorityBy_of creator) given))"

definition changes_persons_priority :: "ActorRole \<Rightarrow> bool" where
  "changes_persons_priority role \<longleftrightarrow> role = ActorRole.User \<or> role = ActorRole.Inbox"

definition check_priority_change ::
  "ActorRole \<Rightarrow> PriorityHolder \<Rightarrow> Priority \<Rightarrow> PriorityBy \<Rightarrow> unit result" where
  "check_priority_change role holder priority by =
    require (by \<noteq> PriorityBy.Human \<or> changes_persons_priority role)
      (PersonsPriority holder priority role)"

section \<open>Properties\<close>

lemma claim_rank_less_iff:
  "claim_rank p u i < claim_rank q v j \<longleftrightarrow> q < p \<or> q = p \<and> (v < u \<or> v = u \<and> i < j)"
  by (auto simp: claim_rank_def less_prod_simp)

lemma claim_rank_inject:
  "claim_rank p u i = claim_rank q v j \<longleftrightarrow> p = q \<and> u = v \<and> i = j"
  by (auto simp: claim_rank_def)

text \<open>A recorded origin is consistent: the kind is absent only for an unknown origin, it
  implies the origin, and a request is named exactly for the kind \<open>request\<close>.\<close>

definition origin_consistent :: "RecordedOrigin \<Rightarrow> bool" where
  "origin_consistent r \<longleftrightarrow>
    (case recorded_kind r of
       None \<Rightarrow> recorded_origin r = Origin.Unknown \<and> recorded_request r = None
     | Some k \<Rightarrow> recorded_origin r = OriginKind_origin k
         \<and> (recorded_request r \<noteq> None \<longleftrightarrow> k = OriginKind.Request))"

lemma OriginKind_of_draft_not_request: "OriginKind_of_draft d \<noteq> OriginKind.Request"
  by (simp add: OriginKind_of_draft_def split: option.splits DraftOrigin.splits)

lemma RecordedOrigin_of_consistent:
  "k \<noteq> OriginKind.Request \<Longrightarrow> origin_consistent (RecordedOrigin_of k)"
  by (simp add: origin_consistent_def RecordedOrigin_of_def)

lemma RecordedOrigin_request_consistent: "origin_consistent (RecordedOrigin_request r)"
  by (simp add: origin_consistent_def RecordedOrigin_request_def OriginKind_origin_def)

text \<open>The origin recorded for a new task or goal is consistent whoever creates it: it names
  its kind, the kind implies whether a person or the AI stands behind it, and a request is named
  exactly when the kind is a request.\<close>

theorem creation_origin_consistent: "origin_consistent (creation_origin creator)"
  unfolding creation_origin_def
  by (auto split: Creator.splits option.splits
      intro!: RecordedOrigin_of_consistent RecordedOrigin_request_consistent
      simp: OriginKind_of_draft_not_request)

text \<open>A request's priority reaches the task made for it: where the creation rule accepts, the
  priority the new task takes, of its own or from its goal, is the request's and counts as a
  person's, whatever the planner gave and whatever goal it joins.\<close>

theorem task_priority_of_request:
  assumes "task_priority_at_creation creator (Some (r, p)) given goal = Inr (own, own_by)"
  shows "fst (base_priority own (map_option fst goal)) = p
    \<and> PriorityBy_effective own own_by (map_option snd goal) = PriorityBy.Human"
  using assms
  by (auto simp: task_priority_at_creation_def base_priority_def PriorityBy_effective_def
      split: option.splits if_splits)

end
