(* ===== verification/Task_Aggregate.thy ===== *)
theory Task_Aggregate
  imports Scope Worker Priority_Rules
begin

text \<open>
  The task aggregate: \<^verbatim>\<open>src/domain/task.rs\<close>, with its inputs of \<^verbatim>\<open>src/domain/input.rs\<close>.

  A task is built by \<open>task_new\<close> or \<open>task_restore\<close> and changes only through the commands
  below; each returns the changed task or a rejection. \<open>TaskCommand\<close> names every command
  and \<open>task_step\<close> applies one, so that \<open>task_runs\<close> is any sequence of accepted commands.
  Shown: the type invariant \<open>task_ok\<close> of every reachable task, the fields a command
  leaves alone, that a ready task passed plan review or a person's bypass, that an ended
  task moves no more, and that no move by the AI lowers a priority a person set.
\<close>

section \<open>Inputs\<close>

record NewTask =
  new_title :: string
  new_description :: string
  new_acceptance :: string
  new_verification_commands :: "string list"
  new_dependencies :: "TaskId list"
  new_goal_dependencies :: "GoalId list"
  new_goal_id :: "GoalId option"
  new_context :: string
  new_required_evidence :: "EvidenceCheck list"
  new_paths :: "string list"
  new_priority :: "Priority option"
  new_change :: "TaskChange option"
  new_provider :: "Provider option"
  new_worker_mode :: "WorkerMode option"
  new_wait_for_build :: bool
  new_execution_class :: ExecutionClass

definition NewTask_worker :: "NewTask \<Rightarrow> Worker result" where
  "NewTask_worker n = worker_resolve (new_provider n) (new_worker_mode n)"

definition NewTask_required_evidence :: "NewTask \<Rightarrow> EvidenceCheck list" where
  "NewTask_required_evidence n = each_once (new_required_evidence n)"

definition NewTask_validate :: "NewTask \<Rightarrow> unit result" where
  "NewTask_validate n =
    and_then (require (\<not> blank (new_title n)) (Blank ''task title'')) (\<lambda>_.
    and_then (require (list_all (\<lambda>s. \<not> blank s) (new_verification_commands n))
      (Blank ''verification commands'')) (\<lambda>_.
    and_then (require (list_all (\<lambda>i. task_id_as_i64 i > 0) (new_dependencies n))
      (NonPositiveId ''dependency IDs'')) (\<lambda>_.
    and_then (require (case_option True (\<lambda>i. goal_id_as_i64 i > 0) (new_goal_id n))
      (NonPositiveId ''goal ID'')) (\<lambda>_.
    and_then (require (list_all (\<lambda>i. goal_id_as_i64 i > 0) (new_goal_dependencies n))
      (NonPositiveId ''goal dependency IDs'')) (\<lambda>_.
    and_then (case new_goal_id n of
        Some goal_id \<Rightarrow> require (goal_id \<notin> set (new_goal_dependencies n)) (OwnGoalDependency goal_id)
      | None \<Rightarrow> Inr ()) (\<lambda>_.
    and_then (NewTask_worker n) (\<lambda>_.
    validate_path_globs (new_paths n))))))))"

record TaskEdit =
  edit_title :: "string option"
  edit_description :: "string option"
  edit_acceptance :: "string option"
  edit_verification_commands :: "string list option"
  edit_required_evidence :: "EvidenceCheck list option"
  edit_paths :: "string list option"
  edit_context :: "string option"
  edit_change :: "TaskChange option"
  edit_provider :: "Provider option"
  edit_worker_mode :: "WorkerMode option"
  edit_wait_for_build :: "bool option"
  edit_execution_class :: "ExecutionClass option"

definition TaskEdit_verify_only :: "TaskEdit \<Rightarrow> bool" where
  "TaskEdit_verify_only e \<longleftrightarrow>
    edit_verification_commands e \<noteq> None
    \<and> edit_title e = None \<and> edit_description e = None \<and> edit_acceptance e = None
    \<and> edit_required_evidence e = None \<and> edit_paths e = None \<and> edit_context e = None
    \<and> edit_change e = None \<and> edit_provider e = None \<and> edit_worker_mode e = None
    \<and> edit_wait_for_build e = None \<and> edit_execution_class e = None"

definition TaskEdit_is_empty :: "TaskEdit \<Rightarrow> bool" where
  "TaskEdit_is_empty e \<longleftrightarrow>
    edit_title e = None \<and> edit_description e = None \<and> edit_acceptance e = None
    \<and> edit_verification_commands e = None \<and> edit_required_evidence e = None
    \<and> edit_paths e = None \<and> edit_context e = None \<and> edit_change e = None
    \<and> edit_provider e = None \<and> edit_worker_mode e = None
    \<and> edit_wait_for_build e = None \<and> edit_execution_class e = None"

definition require_not_blank :: "string \<Rightarrow> string option \<Rightarrow> unit result" where
  "require_not_blank field value = (case value of
     Some v \<Rightarrow> require (\<not> blank v) (Blank field)
   | None \<Rightarrow> Inr ())"

definition TaskEdit_validate :: "TaskEdit \<Rightarrow> unit result" where
  "TaskEdit_validate e =
    and_then (require_not_blank ''task title'' (edit_title e)) (\<lambda>_.
    and_then (require_not_blank ''task description'' (edit_description e)) (\<lambda>_.
    and_then (require_not_blank ''task acceptance'' (edit_acceptance e)) (\<lambda>_.
    and_then (case edit_verification_commands e of
        Some commands \<Rightarrow> require (list_all (\<lambda>s. \<not> blank s) commands) (Blank ''verification commands'')
      | None \<Rightarrow> Inr ()) (\<lambda>_.
    (case edit_paths e of Some paths \<Rightarrow> validate_path_globs paths | None \<Rightarrow> Inr ())))))"

record TaskRecord =
  rec_id :: TaskId
  rec_title :: string
  rec_description :: string
  rec_acceptance :: string
  rec_verification_commands :: "string list"
  rec_required_evidence :: "EvidenceCheck list"
  rec_paths :: "string list"
  rec_priority :: "Priority option"
  rec_goal_priority :: "Priority option"
  rec_change :: "TaskChange option"
  rec_wait_for_build :: bool
  rec_execution_class :: ExecutionClass
  rec_worker :: Worker
  rec_named_mode :: "WorkerMode option"
  rec_status :: TaskStatus
  rec_goal_id :: "GoalId option"
  rec_context :: string
  rec_created_at :: string
  rec_updated_at :: string

section \<open>Statuses\<close>

text \<open>The arms of the match in the order written; the last one refuses the rest.\<close>

definition TaskStatus_transition :: "TaskStatus \<Rightarrow> TaskAction \<Rightarrow> bool \<Rightarrow> TaskStatus result" where
  "TaskStatus_transition s action unfinished_run =
    (if s = TaskStatus.Draft \<and> action = Submit then Inr TaskStatus.Submitted
     else if s = TaskStatus.Ready \<and> action = Reopen then Inr TaskStatus.Submitted
     else if s = TaskStatus.Submitted \<and> action = Approve
          \<or> (s = TaskStatus.Draft \<or> s = TaskStatus.Submitted) \<and> action = BypassReview
       then Inr TaskStatus.Ready
     else if (s = TaskStatus.Draft \<or> s = TaskStatus.Submitted) \<and> action = TaskAction.Ready
       then Inl (ReadyNeedsPlanReview s)
     else if (s = TaskStatus.Ready \<or> s = TaskStatus.Submitted) \<and> action = TaskAction.Draft
       then Inr TaskStatus.Draft
     else if (s = TaskStatus.Draft \<or> s = TaskStatus.Submitted \<or> s = TaskStatus.Ready) \<and> action = Cancel
       then Inr TaskStatus.Canceled
     else if s = TaskStatus.InProgress \<and> unfinished_run then Inl (TaskHasUnfinishedRun action)
     else if s = TaskStatus.InProgress \<and> action = TaskAction.Ready then Inr TaskStatus.Ready
     else if s = TaskStatus.InProgress \<and> action = TaskAction.Draft then Inr TaskStatus.Draft
     else if s = TaskStatus.InProgress \<and> action = Cancel then Inr TaskStatus.Canceled
     else Inl (TransitionNotAllowed s action))"

definition TaskStatus_dependencies_editable :: "TaskStatus \<Rightarrow> bool" where
  "TaskStatus_dependencies_editable s \<longleftrightarrow>
    s = TaskStatus.Draft \<or> s = TaskStatus.Submitted \<or> s = TaskStatus.Ready"

definition TaskStatus_priority_editable :: "TaskStatus \<Rightarrow> bool" where
  "TaskStatus_priority_editable s \<longleftrightarrow>
    TaskStatus_dependencies_editable s \<or> s = TaskStatus.InProgress"

definition TaskStatus_content_editable :: "TaskStatus \<Rightarrow> bool" where
  "TaskStatus_content_editable s \<longleftrightarrow> s = TaskStatus.Draft \<or> s = TaskStatus.Submitted"

definition TaskStatus_is_terminal :: "TaskStatus \<Rightarrow> bool" where
  "TaskStatus_is_terminal s \<longleftrightarrow>
    s = TaskStatus.Completed \<or> s = TaskStatus.Canceled \<or> s = TaskStatus.Replaced"

section \<open>The task\<close>

record Task =
  task_id :: TaskId
  task_title :: string
  task_description :: string
  task_acceptance :: string
  task_verification_commands :: "string list"
  task_required_evidence :: "EvidenceCheck list"
  task_paths :: "string list"
  task_priority :: Priority
  task_priority_source :: PrioritySource
  task_priority_by :: PriorityBy
  task_own_priority :: "Priority option"
  task_own_priority_by :: "PriorityBy option"
  task_goal_priority :: "Priority option"
  task_goal_priority_by :: "PriorityBy option"
  task_origin :: RecordedOrigin
  task_change :: "TaskChange option"
  task_wait_for_build :: bool
  task_execution_class :: ExecutionClass
  task_worker :: Worker
  task_named_mode :: "WorkerMode option"
  task_status :: TaskStatus
  task_goal_id :: "GoalId option"
  task_context :: string
  task_created_at :: string
  task_updated_at :: string

definition task_require_positive :: "TaskId \<Rightarrow> unit result" where
  "task_require_positive i = require (task_id_as_i64 i > 0) (NonPositiveId ''task ID'')"

definition task_new :: "TaskId \<Rightarrow> NewTask \<Rightarrow> string \<Rightarrow> Task result" where
  "task_new i new created_at =
    and_then (NewTask_validate new) (\<lambda>_.
    and_then (task_require_positive i) (\<lambda>_.
    and_then (NewTask_worker new) (\<lambda>worker.
    (let (priority, priority_source) = base_priority (new_priority new) None in
    Inr \<lparr>task_id = i,
      task_title = new_title new,
      task_description = new_description new,
      task_acceptance = new_acceptance new,
      task_verification_commands = new_verification_commands new,
      task_required_evidence = NewTask_required_evidence new,
      task_paths = dedup_globs (new_paths new),
      task_priority = priority,
      task_priority_source = priority_source,
      task_priority_by = PriorityBy_effective (new_priority new) None None,
      task_own_priority = new_priority new,
      task_own_priority_by = None,
      task_goal_priority = None,
      task_goal_priority_by = None,
      task_origin = RecordedOrigin_UNKNOWN,
      task_change = new_change new,
      task_wait_for_build = new_wait_for_build new,
      task_execution_class = new_execution_class new,
      task_worker = worker,
      task_named_mode = new_worker_mode new,
      task_status = TaskStatus.Draft,
      task_goal_id = new_goal_id new,
      task_context = new_context new,
      task_created_at = created_at,
      task_updated_at = created_at\<rparr>))))"

definition task_restore :: "TaskRecord \<Rightarrow> Task result" where
  "task_restore r =
    and_then (task_require_positive (rec_id r)) (\<lambda>_.
    and_then (require (\<not> blank (rec_title r)) (Blank ''task title'')) (\<lambda>_.
    and_then (require (case_option True (\<lambda>i. goal_id_as_i64 i > 0) (rec_goal_id r))
      (NonPositiveId ''goal ID'')) (\<lambda>_.
    (let (priority, priority_source) = base_priority (rec_priority r) (rec_goal_priority r) in
    Inr \<lparr>task_id = rec_id r,
      task_title = rec_title r,
      task_description = rec_description r,
      task_acceptance = rec_acceptance r,
      task_verification_commands = rec_verification_commands r,
      task_required_evidence = rec_required_evidence r,
      task_paths = rec_paths r,
      task_priority = priority,
      task_priority_source = priority_source,
      task_priority_by = PriorityBy_effective (rec_priority r) None None,
      task_own_priority = rec_priority r,
      task_own_priority_by = None,
      task_goal_priority = rec_goal_priority r,
      task_goal_priority_by = None,
      task_origin = RecordedOrigin_UNKNOWN,
      task_change = rec_change r,
      task_wait_for_build = rec_wait_for_build r,
      task_execution_class = rec_execution_class r,
      task_worker = rec_worker r,
      task_named_mode = rec_named_mode r,
      task_status = rec_status r,
      task_goal_id = rec_goal_id r,
      task_context = rec_context r,
      task_created_at = rec_created_at r,
      task_updated_at = rec_updated_at r\<rparr>))))"

text \<open>\<open>Option::and\<close>: the second when the first is there.\<close>

definition option_and :: "'a option \<Rightarrow> 'b option \<Rightarrow> 'b option" where
  "option_and a b = (case a of Some _ \<Rightarrow> b | None \<Rightarrow> None)"

definition task_with_record ::
  "Task \<Rightarrow> PriorityBy option \<Rightarrow> PriorityBy option \<Rightarrow> RecordedOrigin \<Rightarrow> Task" where
  "task_with_record t own_priority_by goal_priority_by origin =
    t\<lparr>task_own_priority_by := option_and (task_own_priority t) own_priority_by,
      task_goal_priority_by := option_and (task_goal_priority t) goal_priority_by,
      task_priority_by := PriorityBy_effective (task_own_priority t) own_priority_by goal_priority_by,
      task_origin := origin\<rparr>"

text \<open>The accessor \<open>own_priority_by\<close>: an own priority nobody is recorded for is a person's.\<close>

definition task_shown_own_priority_by :: "Task \<Rightarrow> PriorityBy option" where
  "task_shown_own_priority_by t =
    map_option (\<lambda>_. case_option PriorityBy.Human id (task_own_priority_by t)) (task_own_priority t)"

definition task_stored_worker_mode :: "Task \<Rightarrow> WorkerMode option" where
  "task_stored_worker_mode t = (case worker_provider (task_worker t) of
     Provider.Claude \<Rightarrow> task_named_mode t
   | Provider.Codex \<Rightarrow> Some (worker_mode (task_worker t)))"

definition task_require_editable :: "Task \<Rightarrow> string \<Rightarrow> unit result" where
  "task_require_editable t what =
    require (TaskStatus_dependencies_editable (task_status t)) (TaskNotEditable what)"

section \<open>Commands\<close>

definition task_transition :: "Task \<Rightarrow> TaskAction \<Rightarrow> bool \<Rightarrow> Task result" where
  "task_transition t action unfinished_run =
    and_then (TaskStatus_transition (task_status t) action unfinished_run) (\<lambda>s.
    Inr (t\<lparr>task_status := s\<rparr>))"

definition task_claim :: "Task \<Rightarrow> Task result" where
  "task_claim t =
    and_then (require (task_status t = TaskStatus.Ready)
      (TaskNotClaimable (task_id t) (task_status t))) (\<lambda>_.
    Inr (t\<lparr>task_status := TaskStatus.InProgress\<rparr>))"

record Destination =
  dest_id :: GoalId
  dest_priority :: Priority
  dest_priority_by :: PriorityBy

datatype MovedBy = Person | Ai | AiJudgedOutOfScope

definition MovedBy_of :: "ActorRole \<Rightarrow> MovedBy" where
  "MovedBy_of role = (if changes_persons_priority role then Person else Ai)"

definition MovedBy_judged_out_of_scope :: "ActorRole \<Rightarrow> MovedBy" where
  "MovedBy_judged_out_of_scope role = (case MovedBy_of role of
     Person \<Rightarrow> Person | _ \<Rightarrow> AiJudgedOutOfScope)"

definition persons_priority_taken_from_goal :: "Task \<Rightarrow> Destination option \<Rightarrow> Priority option" where
  "persons_priority_taken_from_goal t to =
    (let inherits_the_same =
       task_own_priority t \<noteq> None
       \<or> task_priority_by t \<noteq> PriorityBy.Human
       \<or> (case to of None \<Rightarrow> False
           | Some goal \<Rightarrow> (dest_priority goal, dest_priority_by goal) = (task_priority t, PriorityBy.Human))
     in if \<not> inherits_the_same then Some (task_priority t) else None)"

definition priority_kept_on_move :: "Task \<Rightarrow> Destination option \<Rightarrow> MovedBy \<Rightarrow> Priority option" where
  "priority_kept_on_move t to by =
    (if by = Ai then persons_priority_taken_from_goal t to else None)"

definition persons_priority_dropped_on_move ::
  "Task \<Rightarrow> Destination option \<Rightarrow> MovedBy \<Rightarrow> Priority option" where
  "persons_priority_dropped_on_move t to by =
    (if by = AiJudgedOutOfScope then persons_priority_taken_from_goal t to else None)"

definition task_set_goal :: "Task \<Rightarrow> Destination option \<Rightarrow> MovedBy \<Rightarrow> Task result" where
  "task_set_goal t to by =
    and_then (task_require_editable t ''the goal'') (\<lambda>_.
    if task_goal_id t = map_option dest_id to then Inr t
    else
      (let t1 = (case priority_kept_on_move t to by of
            Some kept \<Rightarrow> t\<lparr>task_own_priority := Some kept, task_own_priority_by := Some PriorityBy.Human\<rparr>
          | None \<Rightarrow> t);
        t2 = t1\<lparr>task_goal_id := map_option dest_id to,
          task_goal_priority := map_option dest_priority to,
          task_goal_priority_by := map_option dest_priority_by to\<rparr>;
        (priority, source) = base_priority (task_own_priority t2) (task_goal_priority t2)
      in Inr (t2\<lparr>task_priority := priority, task_priority_source := source,
        task_priority_by := PriorityBy_effective (task_own_priority t2) (task_own_priority_by t2)
          (task_goal_priority_by t2)\<rparr>)))"

definition task_set_paths :: "Task \<Rightarrow> string list \<Rightarrow> Task result" where
  "task_set_paths t paths =
    and_then (validate_path_globs paths) (\<lambda>_.
    and_then (task_require_editable t ''the paths'') (\<lambda>_.
    Inr (t\<lparr>task_paths := dedup_globs paths\<rparr>)))"

definition task_set_priority :: "Task \<Rightarrow> Priority option \<Rightarrow> Task result" where
  "task_set_priority t priority =
    and_then (require (TaskStatus_priority_editable (task_status t))
      (TaskPriorityNotEditable (task_id t) (task_status t))) (\<lambda>_.
    (let (base, source) = base_priority priority (task_goal_priority t)
     in Inr (t\<lparr>task_own_priority := priority, task_priority := base,
          task_priority_source := source\<rparr>)))"

text \<open>The fields \<open>edit\<close> replaces, each kept when the edit has none.\<close>

definition task_edited_fields :: "Task \<Rightarrow> TaskEdit \<Rightarrow> Task" where
  "task_edited_fields t e =
    t\<lparr>task_title := case_option (task_title t) id (edit_title e),
      task_description := case_option (task_description t) id (edit_description e),
      task_acceptance := case_option (task_acceptance t) id (edit_acceptance e),
      task_verification_commands :=
        case_option (task_verification_commands t) id (edit_verification_commands e),
      task_required_evidence :=
        case_option (task_required_evidence t) each_once (edit_required_evidence e),
      task_paths := case_option (task_paths t) dedup_globs (edit_paths e),
      task_context := case_option (task_context t) id (edit_context e),
      task_change := (case edit_change e of Some c \<Rightarrow> Some c | None \<Rightarrow> task_change t),
      task_wait_for_build := case_option (task_wait_for_build t) id (edit_wait_for_build e),
      task_execution_class := case_option (task_execution_class t) id (edit_execution_class e)\<rparr>"

definition task_edit :: "Task \<Rightarrow> TaskEdit \<Rightarrow> Task result" where
  "task_edit t e =
    and_then (TaskEdit_validate e) (\<lambda>_.
    and_then (require (TaskStatus_content_editable (task_status t))
      (TaskContentNotEditable (task_id t) (task_status t))) (\<lambda>_.
    and_then (worker_with (task_worker t) (edit_provider e) (edit_worker_mode e)) (\<lambda>worker.
    Inr ((task_edited_fields t e)\<lparr>task_worker := worker,
      task_named_mode := (case (edit_provider e, edit_worker_mode e) of
          (_, Some mode) \<Rightarrow> Some mode
        | (Some _, None) \<Rightarrow> None
        | (None, None) \<Rightarrow> task_named_mode t)\<rparr>))))"

definition task_release_on :: "Task \<Rightarrow> Provider \<Rightarrow> Task result" where
  "task_release_on t provider =
    and_then (worker_with (task_worker t) (Some provider) None) (\<lambda>worker.
    Inr (t\<lparr>task_worker := worker, task_named_mode := None\<rparr>))"

text \<open>\<open>None\<close> is the panic of \<open>expect\<close>; \<open>edit_ended_verify_no_panic\<close> shows it is not reached.\<close>

definition task_edit_ended_verify :: "Task \<Rightarrow> TaskEdit \<Rightarrow> Task result option" where
  "task_edit_ended_verify t e =
    (case and_then (TaskEdit_validate e) (\<lambda>_.
        require (task_status t = TaskStatus.InProgress \<and> TaskEdit_verify_only e)
          (TaskContentNotEditable (task_id t) (task_status t))) of
       Inl err \<Rightarrow> Some (Inl err)
     | Inr _ \<Rightarrow> (case edit_verification_commands e of
           Some commands \<Rightarrow> Some (Inr (t\<lparr>task_verification_commands := commands\<rparr>))
         | None \<Rightarrow> None))"

section \<open>Checks\<close>

definition check_status_authorized :: "Task \<Rightarrow> TaskStatus \<Rightarrow> unit result" where
  "check_status_authorized t authorized =
    require (task_status t = authorized)
      (TaskStatusChangedSinceAuthorized (task_id t) authorized (task_status t))"

definition check_not_self :: "TaskId \<Rightarrow> TaskId \<Rightarrow> unit result" where
  "check_not_self i predecessor = require (i \<noteq> predecessor) SelfDependency"

definition duplicate_refusal ::
  "TaskId \<Rightarrow> TaskId \<Rightarrow> (TaskStatus \<times> TaskId option) option \<Rightarrow> string option" where
  "duplicate_refusal i duplicate_of target =
    (let show_id = (\<lambda>x. show_int (task_id_as_i64 x)) in
     if i = duplicate_of then
       Some (''task '' @ show_id i @ '' cannot be a duplicate of itself'')
     else (case target of
         None \<Rightarrow> Some (''task '' @ show_id duplicate_of @ '' does not exist'')
       | Some (TaskStatus.Canceled, Some original) \<Rightarrow>
           Some (''task '' @ show_id duplicate_of @ '' is canceled as a duplicate of task ''
             @ show_id original @ ''; pass --duplicate-of '' @ show_id original)
       | Some (TaskStatus.Canceled, None) \<Rightarrow>
           Some (''task '' @ show_id duplicate_of
             @ '' is canceled; a duplicate needs a task that is not'')
       | Some _ \<Rightarrow> None))"

definition check_dependencies_editable :: "Task \<Rightarrow> unit result" where
  "check_dependencies_editable t = task_require_editable t ''dependencies''"

definition check_acyclic :: "TaskId \<Rightarrow> TaskId \<Rightarrow> bool \<Rightarrow> unit result" where
  "check_acyclic i predecessor creates_cycle =
    require (\<not> creates_cycle) (DependencyCycle i predecessor)"

definition check_not_replaced :: "TaskId \<Rightarrow> TaskId \<Rightarrow> TaskStatus \<Rightarrow> unit result" where
  "check_not_replaced i predecessor s =
    require (s \<noteq> TaskStatus.Replaced) (ReplacedDependency i predecessor)"

definition check_not_own_goal :: "Task \<Rightarrow> GoalId \<Rightarrow> unit result" where
  "check_not_own_goal t goal = require (task_goal_id t \<noteq> Some goal) (OwnGoalDependency goal)"

definition check_goal_acyclic :: "TaskId \<Rightarrow> GoalId \<Rightarrow> bool \<Rightarrow> unit result" where
  "check_goal_acyclic i goal creates_cycle =
    require (\<not> creates_cycle) (GoalDependencyCycle i goal)"

definition check_membership_acyclic :: "Task \<Rightarrow> GoalId \<Rightarrow> bool \<Rightarrow> bool \<Rightarrow> unit result" where
  "check_membership_acyclic t goal depends_on_goal creates_cycle =
    and_then (require (\<not> depends_on_goal) (OwnGoalDependency goal)) (\<lambda>_.
    require (\<not> creates_cycle) (GoalMembershipCycle (task_id t) goal))"

section \<open>Between processes\<close>

record TaskWire =
  wire_id :: TaskId
  wire_title :: string
  wire_description :: string
  wire_acceptance :: string
  wire_verification_commands :: "string list"
  wire_required_evidence :: "EvidenceCheck list"
  wire_paths :: "string list"
  wire_priority :: Priority
  wire_priority_source :: PrioritySource
  wire_priority_by :: PriorityBy
  wire_own_priority :: "Priority option"
  wire_own_priority_by :: "PriorityBy option"
  wire_goal_priority :: "Priority option"
  wire_goal_priority_by :: "PriorityBy option"
  wire_origin :: RecordedOrigin
  wire_change :: "TaskChange option"
  wire_wait_for_build :: bool
  wire_execution_class :: ExecutionClass
  wire_worker :: Worker
  wire_named_mode :: "WorkerMode option"
  wire_status :: TaskStatus
  wire_goal_id :: "GoalId option"
  wire_context :: string
  wire_created_at :: string
  wire_updated_at :: string

definition task_to_wire :: "Task \<Rightarrow> TaskWire" where
  "task_to_wire t =
    \<lparr>wire_id = task_id t,
     wire_title = task_title t,
     wire_description = task_description t,
     wire_acceptance = task_acceptance t,
     wire_verification_commands = task_verification_commands t,
     wire_required_evidence = task_required_evidence t,
     wire_paths = task_paths t,
     wire_priority = task_priority t,
     wire_priority_source = task_priority_source t,
     wire_priority_by = task_priority_by t,
     wire_own_priority = task_own_priority t,
     wire_own_priority_by = task_own_priority_by t,
     wire_goal_priority = task_goal_priority t,
     wire_goal_priority_by = task_goal_priority_by t,
     wire_origin = task_origin t,
     wire_change = task_change t,
     wire_wait_for_build = task_wait_for_build t,
     wire_execution_class = task_execution_class t,
     wire_worker = task_worker t,
     wire_named_mode = task_named_mode t,
     wire_status = task_status t,
     wire_goal_id = task_goal_id t,
     wire_context = task_context t,
     wire_created_at = task_created_at t,
     wire_updated_at = task_updated_at t\<rparr>"

definition task_from_wire :: "TaskWire \<Rightarrow> Task" where
  "task_from_wire w =
    \<lparr>task_id = wire_id w,
     task_title = wire_title w,
     task_description = wire_description w,
     task_acceptance = wire_acceptance w,
     task_verification_commands = wire_verification_commands w,
     task_required_evidence = wire_required_evidence w,
     task_paths = wire_paths w,
     task_priority = wire_priority w,
     task_priority_source = wire_priority_source w,
     task_priority_by = wire_priority_by w,
     task_own_priority = wire_own_priority w,
     task_own_priority_by = wire_own_priority_by w,
     task_goal_priority = wire_goal_priority w,
     task_goal_priority_by = wire_goal_priority_by w,
     task_origin = wire_origin w,
     task_change = wire_change w,
     task_wait_for_build = wire_wait_for_build w,
     task_execution_class = wire_execution_class w,
     task_worker = wire_worker w,
     task_named_mode = wire_named_mode w,
     task_status = wire_status w,
     task_goal_id = wire_goal_id w,
     task_context = wire_context w,
     task_created_at = wire_created_at w,
     task_updated_at = wire_updated_at w\<rparr>"

section \<open>Any sequence of commands\<close>

datatype TaskCommand =
  Transition TaskAction bool
| Claim
| SetGoal "Destination option" MovedBy
| SetPaths "string list"
| SetPriority "Priority option"
| Edit TaskEdit
| ReleaseOn Provider
| EditEndedVerify TaskEdit
| WithRecord "PriorityBy option" "PriorityBy option" RecordedOrigin

text \<open>The result of one command; the outer \<open>None\<close> is a panic.\<close>

fun task_apply :: "TaskCommand \<Rightarrow> Task \<Rightarrow> Task result option" where
  "task_apply (Transition action unfinished_run) t = Some (task_transition t action unfinished_run)"
| "task_apply Claim t = Some (task_claim t)"
| "task_apply (SetGoal to by) t = Some (task_set_goal t to by)"
| "task_apply (SetPaths paths) t = Some (task_set_paths t paths)"
| "task_apply (SetPriority priority) t = Some (task_set_priority t priority)"
| "task_apply (Edit e) t = Some (task_edit t e)"
| "task_apply (ReleaseOn provider) t = Some (task_release_on t provider)"
| "task_apply (EditEndedVerify e) t = task_edit_ended_verify t e"
| "task_apply (WithRecord own_by goal_by origin) t = Some (Inr (task_with_record t own_by goal_by origin))"

text \<open>One accepted command, and the accepted commands of a task's life in their order.\<close>

inductive task_step :: "Task \<Rightarrow> TaskCommand \<Rightarrow> Task \<Rightarrow> bool" where
  accepted: "task_apply c t = Some (Inr t') \<Longrightarrow> task_step t c t'"

inductive task_runs :: "Task \<Rightarrow> TaskCommand list \<Rightarrow> Task \<Rightarrow> bool" where
  none: "task_runs t [] t"
| more: "task_runs t cs u \<Longrightarrow> task_step u c v \<Longrightarrow> task_runs t (cs @ [c]) v"

inductive_simps task_step_iff: "task_step t c t'"
inductive_cases task_runsE: "task_runs t cs t'"

lemmas task_command_defs =
  task_transition_def task_claim_def task_set_goal_def task_set_paths_def task_set_priority_def
  task_edit_def task_edited_fields_def task_release_on_def task_edit_ended_verify_def
  task_with_record_def task_require_editable_def

text \<open>An accepted command, command by command: the guard and the new task.\<close>

lemma transition_accepted:
  "task_step t (Transition a u) t' \<longleftrightarrow>
    (\<exists>s. TaskStatus_transition (task_status t) a u = Inr s \<and> t' = t\<lparr>task_status := s\<rparr>)"
  by (auto simp: task_step_iff task_transition_def and_then_eq_Inr)

lemma claim_accepted:
  "task_step t Claim t' \<longleftrightarrow>
    task_status t = TaskStatus.Ready \<and> t' = t\<lparr>task_status := TaskStatus.InProgress\<rparr>"
  by (auto simp: task_step_iff task_claim_def and_then_eq_Inr)

lemma set_paths_accepted:
  "task_step t (SetPaths ps) t' \<longleftrightarrow>
    validate_path_globs ps = Inr () \<and> TaskStatus_dependencies_editable (task_status t)
    \<and> t' = t\<lparr>task_paths := dedup_globs ps\<rparr>"
  by (auto simp: task_step_iff task_set_paths_def task_require_editable_def and_then_eq_Inr)

lemma set_priority_accepted:
  "task_step t (SetPriority p) t' \<longleftrightarrow>
    TaskStatus_priority_editable (task_status t)
    \<and> t' = t\<lparr>task_own_priority := p, task_priority := fst (base_priority p (task_goal_priority t)),
        task_priority_source := snd (base_priority p (task_goal_priority t))\<rparr>"
  by (auto simp: task_step_iff task_set_priority_def and_then_eq_Inr split: prod.splits)

lemma edit_accepted:
  "task_step t (Edit e) t' \<longleftrightarrow>
    TaskEdit_validate e = Inr () \<and> TaskStatus_content_editable (task_status t)
    \<and> (\<exists>w. worker_with (task_worker t) (edit_provider e) (edit_worker_mode e) = Inr w
        \<and> t' = (task_edited_fields t e)\<lparr>task_worker := w,
            task_named_mode := (case (edit_provider e, edit_worker_mode e) of
                (_, Some mode) \<Rightarrow> Some mode
              | (Some _, None) \<Rightarrow> None
              | (None, None) \<Rightarrow> task_named_mode t)\<rparr>)"
  by (auto simp: task_step_iff task_edit_def and_then_eq_Inr)

lemma release_on_accepted:
  "task_step t (ReleaseOn p) t' \<longleftrightarrow>
    t' = t\<lparr>task_worker := \<lparr>worker_provider = p, worker_mode = WorkerMode.Headless\<rparr>,
      task_named_mode := None\<rparr>"
  by (auto simp: task_step_iff task_release_on_def worker_with_provider)

lemma edit_ended_verify_accepted:
  "task_step t (EditEndedVerify e) t' \<longleftrightarrow>
    TaskEdit_validate e = Inr () \<and> task_status t = TaskStatus.InProgress \<and> TaskEdit_verify_only e
    \<and> (\<exists>cs. edit_verification_commands e = Some cs \<and> t' = t\<lparr>task_verification_commands := cs\<rparr>)"
  by (auto simp: task_step_iff task_edit_ended_verify_def and_then_eq_Inr and_then_eq_Inl
      split: sum.splits option.splits)

lemma with_record_accepted:
  "task_step t (WithRecord o_by g_by origin) t' \<longleftrightarrow> t' = task_with_record t o_by g_by origin"
  by (auto simp: task_step_iff)

text \<open>A move leaves every field alone but the goal and the priority with its record; the
  priority is again what the base rule gives.\<close>

lemma set_goal_accepted:
  assumes "task_step t (SetGoal to by) t'"
  shows "TaskStatus_dependencies_editable (task_status t)"
    and "task_goal_id t' = map_option dest_id to"
    and "t' = t \<or>
      (\<exists>own own_by. t' = t\<lparr>task_goal_id := map_option dest_id to,
        task_goal_priority := map_option dest_priority to,
        task_goal_priority_by := map_option dest_priority_by to,
        task_own_priority := own, task_own_priority_by := own_by,
        task_priority := fst (base_priority own (map_option dest_priority to)),
        task_priority_source := snd (base_priority own (map_option dest_priority to)),
        task_priority_by := PriorityBy_effective own own_by (map_option dest_priority_by to)\<rparr>
      \<and> (case priority_kept_on_move t to by of
           Some kept \<Rightarrow> own = Some kept \<and> own_by = Some PriorityBy.Human
         | None \<Rightarrow> own = task_own_priority t \<and> own_by = task_own_priority_by t))"
  using assms
  by (auto simp: task_step_iff task_set_goal_def task_require_editable_def and_then_eq_Inr Let_def
      split: if_splits option.splits prod.splits)

lemmas task_accepted = transition_accepted claim_accepted set_paths_accepted set_priority_accepted
  edit_accepted release_on_accepted edit_ended_verify_accepted with_record_accepted

section \<open>The invariant of a task\<close>

text \<open>What \<open>task_restore\<close> and the constructors of the fields promise of every task.\<close>

definition task_ok :: "Task \<Rightarrow> bool" where
  "task_ok t \<longleftrightarrow>
    task_id_as_i64 (task_id t) > 0
    \<and> \<not> blank (task_title t)
    \<and> case_option True (\<lambda>i. goal_id_as_i64 i > 0) (task_goal_id t)
    \<and> (task_priority t, task_priority_source t)
        = base_priority (task_own_priority t) (task_goal_priority t)
    \<and> worker_ok (task_worker t)"

text \<open>A goal the store offers as a destination exists, so its ID is positive.\<close>

fun command_ok :: "TaskCommand \<Rightarrow> bool" where
  "command_ok (SetGoal to by) = case_option True (\<lambda>d. goal_id_as_i64 (dest_id d) > 0) to"
| "command_ok _ = True"

lemma task_new_ok: "task_new i new at = Inr t \<Longrightarrow> task_ok t"
  by (auto simp: task_new_def task_ok_def NewTask_validate_def task_require_positive_def
      and_then_eq_Inr NewTask_worker_def worker_resolve_ok case_prod_unfold Let_def)

lemma task_restore_ok: "worker_ok (rec_worker r) \<Longrightarrow> task_restore r = Inr t \<Longrightarrow> task_ok t"
  by (auto simp: task_restore_def task_ok_def task_require_positive_def and_then_eq_Inr
      case_prod_unfold Let_def)

lemma edited_title_not_blank:
  assumes "TaskEdit_validate e = Inr ()" "edit_title e = Some title"
  shows "\<not> blank title"
  using assms by (simp add: TaskEdit_validate_def require_not_blank_def and_then_eq_Inr)

lemma task_step_ok:
  assumes "task_step t c t'" "task_ok t" "command_ok c"
  shows "task_ok t'"
proof (cases c)
  case (SetGoal to mv)
  with assms set_goal_accepted(3) [of t to mv t'] show ?thesis
    by (auto simp: task_ok_def option.case_eq_if)
next
  case (Edit e)
  with assms(1) obtain w m where v: "TaskEdit_validate e = Inr ()"
    and w: "worker_with (task_worker t) (edit_provider e) (edit_worker_mode e) = Inr w"
    and t': "t' = (task_edited_fields t e)\<lparr>task_worker := w, task_named_mode := m\<rparr>"
    using assms(1) edit_accepted [of t e t'] by blast
  from w assms(2) have "worker_ok w" by (auto simp: task_ok_def dest: worker_with_ok)
  with t' assms(2) edited_title_not_blank [OF v] show ?thesis
    by (simp add: task_ok_def task_edited_fields_def split: option.split)
next
  case (ReleaseOn p)
  with assms show ?thesis by (simp add: release_on_accepted task_ok_def worker_ok_def)
qed (use assms in \<open>auto simp: task_accepted task_with_record_def task_ok_def\<close>)

lemma task_runs_ok:
  assumes "task_runs t cs t'" "task_ok t" "list_all command_ok cs"
  shows "task_ok t'"
  using assms by (induction rule: task_runs.induct) (auto intro: task_step_ok)

section \<open>Statuses along a life\<close>

text \<open>Only \<open>transition\<close> and \<open>claim\<close> move the status.\<close>

definition moves_status :: "TaskCommand \<Rightarrow> bool" where
  "moves_status c \<longleftrightarrow> c = Claim \<or> (\<exists>a u. c = Transition a u)"

lemma status_kept: "task_step t c t' \<Longrightarrow> \<not> moves_status c \<Longrightarrow> task_status t' = task_status t"
proof (cases c)
  case (SetGoal to mv)
  assume "task_step t c t'"
  with SetGoal set_goal_accepted(3) [of t to mv t'] show ?thesis by auto
qed (auto simp: task_accepted task_edited_fields_def task_with_record_def moves_status_def)

lemma terminal_status_kept:
  assumes "task_step t c t'" "TaskStatus_is_terminal (task_status t)"
  shows "task_status t' = task_status t"
proof (cases "moves_status c")
  case True
  with assms show ?thesis
    by (auto simp: moves_status_def claim_accepted transition_accepted TaskStatus_is_terminal_def
        TaskStatus_transition_def split: if_splits)
qed (use assms status_kept in blast)

definition passes_review :: "TaskCommand \<Rightarrow> bool" where
  "passes_review c \<longleftrightarrow> (\<exists>u. c = Transition Approve u \<or> c = Transition BypassReview u)"

lemma unreviewed_step:
  assumes "task_step t c t'" "\<not> passes_review c"
    "task_status t \<noteq> TaskStatus.Ready" "task_status t \<noteq> TaskStatus.InProgress"
  shows "task_status t' \<noteq> TaskStatus.Ready \<and> task_status t' \<noteq> TaskStatus.InProgress"
proof (cases "moves_status c")
  case True
  with assms show ?thesis
    by (auto simp: moves_status_def passes_review_def claim_accepted transition_accepted
        TaskStatus_transition_def split: if_splits)
next
  case False
  with assms status_kept show ?thesis by metis
qed

lemma unreviewed_run:
  assumes "task_runs t cs t'" "\<forall>c \<in> set cs. \<not> passes_review c"
    "task_status t \<noteq> TaskStatus.Ready" "task_status t \<noteq> TaskStatus.InProgress"
  shows "task_status t' \<noteq> TaskStatus.Ready \<and> task_status t' \<noteq> TaskStatus.InProgress"
  using assms by (induction rule: task_runs.induct) (auto dest: unreviewed_step)

text \<open>The commands that send a ready or running task back to where its content may change.\<close>

definition sends_back :: "TaskCommand \<Rightarrow> bool" where
  "sends_back c \<longleftrightarrow> (\<exists>u. c = Transition TaskAction.Draft u \<or> c = Transition Reopen u)"

definition reviewed_content ::
  "Task \<Rightarrow> string \<times> string \<times> string \<times> EvidenceCheck list \<times> string \<times> TaskChange option
    \<times> bool \<times> ExecutionClass" where
  "reviewed_content t =
    (task_title t, task_description t, task_acceptance t, task_required_evidence t,
     task_context t, task_change t, task_wait_for_build t, task_execution_class t)"

lemma reviewed_content_step:
  assumes "task_step t c t'" "\<not> TaskStatus_content_editable (task_status t)"
  shows "reviewed_content t' = reviewed_content t"
proof (cases c)
  case (SetGoal to mv)
  with assms set_goal_accepted(3) [of t to mv t'] show ?thesis by (auto simp: reviewed_content_def)
qed (use assms in \<open>auto simp: task_accepted task_with_record_def reviewed_content_def\<close>)

lemma not_sent_back_step:
  assumes "task_step t c t'" "\<not> sends_back c" "\<not> TaskStatus_content_editable (task_status t)"
  shows "\<not> TaskStatus_content_editable (task_status t')"
proof (cases "moves_status c")
  case True
  with assms show ?thesis
    by (cases "task_status t"; cases c)
      (auto simp: moves_status_def sends_back_def claim_accepted transition_accepted
        TaskStatus_content_editable_def TaskStatus_transition_def split: if_splits)
next
  case False
  with assms status_kept show ?thesis by metis
qed

lemma reviewed_content_run:
  assumes "task_runs t cs t'" "\<forall>c \<in> set cs. \<not> sends_back c"
    "\<not> TaskStatus_content_editable (task_status t)"
  shows "\<not> TaskStatus_content_editable (task_status t') \<and> reviewed_content t' = reviewed_content t"
  using assms
  by (induction rule: task_runs.induct) (auto dest: not_sent_back_step reviewed_content_step)

text \<open>An ended task: the only commands accepted touch the worker and the priority's record.\<close>

definition same_but_worker_and_record :: "Task \<Rightarrow> Task \<Rightarrow> bool" where
  "same_but_worker_and_record t t' \<longleftrightarrow>
    (\<exists>worker mode own_by goal_by by origin.
      t' = t\<lparr>task_worker := worker, task_named_mode := mode, task_own_priority_by := own_by,
        task_goal_priority_by := goal_by, task_priority_by := by, task_origin := origin\<rparr>)"

lemma same_but_refl: "same_but_worker_and_record t t"
  unfolding same_but_worker_and_record_def
  by (intro exI [of _ "task_worker t"] exI [of _ "task_named_mode t"]
      exI [of _ "task_own_priority_by t"] exI [of _ "task_goal_priority_by t"]
      exI [of _ "task_priority_by t"] exI [of _ "task_origin t"]) simp

lemma same_but_trans:
  assumes "same_but_worker_and_record t u" "same_but_worker_and_record u v"
  shows "same_but_worker_and_record t v"
  using assms unfolding same_but_worker_and_record_def by fastforce

lemma terminal_refuses:
  assumes "TaskStatus_is_terminal (task_status t)"
  shows "\<not> TaskStatus_dependencies_editable (task_status t)"
    and "\<not> TaskStatus_priority_editable (task_status t)"
    and "\<not> TaskStatus_content_editable (task_status t)"
    and "task_status t \<noteq> TaskStatus.Ready" "task_status t \<noteq> TaskStatus.InProgress"
    and "TaskStatus_transition (task_status t) a u \<noteq> Inr s"
  using assms
  by (auto simp: TaskStatus_is_terminal_def TaskStatus_transition_def
      TaskStatus_dependencies_editable_def TaskStatus_priority_editable_def
      TaskStatus_content_editable_def split: if_splits)

lemma terminal_accepts:
  assumes "task_step t c t'" "TaskStatus_is_terminal (task_status t)"
  shows "(\<exists>p. c = ReleaseOn p) \<or> (\<exists>o_by g_by origin. c = WithRecord o_by g_by origin)"
  using assms(1) terminal_refuses [OF assms(2)]
  by (cases c) (auto simp: transition_accepted claim_accepted set_paths_accepted
      set_priority_accepted edit_accepted edit_ended_verify_accepted dest: set_goal_accepted(1))

lemma release_same_but: "task_step t (ReleaseOn p) t' \<Longrightarrow> same_but_worker_and_record t t'"
  unfolding release_on_accepted same_but_worker_and_record_def
  by (intro exI [of _ "task_worker t'"] exI [of _ "task_named_mode t'"]
      exI [of _ "task_own_priority_by t"] exI [of _ "task_goal_priority_by t"]
      exI [of _ "task_priority_by t"] exI [of _ "task_origin t"]) simp

lemma with_record_same_but:
  "task_step t (WithRecord o_by g_by origin) t' \<Longrightarrow> same_but_worker_and_record t t'"
  unfolding with_record_accepted same_but_worker_and_record_def task_with_record_def
  by (intro exI [of _ "task_worker t"] exI [of _ "task_named_mode t"]
      exI [of _ "task_own_priority_by t'"] exI [of _ "task_goal_priority_by t'"]
      exI [of _ "task_priority_by t'"] exI [of _ "task_origin t'"]) simp

lemma terminal_step:
  assumes "task_step t c t'" "TaskStatus_is_terminal (task_status t)"
  shows "same_but_worker_and_record t t'"
  using terminal_accepts [OF assms] assms(1) release_same_but with_record_same_but by blast

lemma terminal_run:
  assumes "task_runs t cs t'" "TaskStatus_is_terminal (task_status t)"
  shows "task_status t' = task_status t \<and> same_but_worker_and_record t t'"
  using assms
proof (induction rule: task_runs.induct)
  case (none t)
  then show ?case by (simp add: same_but_refl)
next
  case (more t cs u c v)
  then show ?case
    by (metis terminal_status_kept terminal_step same_but_trans)
qed

text \<open>The record of a priority agrees with it: what \<open>with_record\<close> and every move establish.\<close>

definition record_ok :: "Task \<Rightarrow> bool" where
  "record_ok t \<longleftrightarrow> task_priority_by t =
    PriorityBy_effective (task_own_priority t) (task_own_priority_by t) (task_goal_priority_by t)"

lemma with_record_ok: "record_ok (task_with_record t o_by g_by origin)
    \<longleftrightarrow> (task_own_priority t = None \<longrightarrow> task_goal_priority t = None \<longrightarrow> g_by \<noteq> Some PriorityBy.Human)"
  by (cases g_by rule: option.exhaust; cases "task_own_priority t"; cases "task_goal_priority t")
    (auto simp: record_ok_def task_with_record_def option_and_def PriorityBy_effective_def
      split: PriorityBy.splits, (metis PriorityBy.exhaust)+)

lemma set_goal_record_ok: "task_step t (SetGoal to by) t' \<Longrightarrow> record_ok t \<Longrightarrow> record_ok t'"
  using set_goal_accepted(3) [of t to "by" t'] by (auto simp: record_ok_def)

text \<open>Running a list of commands, for concrete lives.\<close>

fun task_run_all :: "TaskCommand list \<Rightarrow> Task \<Rightarrow> Task option" where
  "task_run_all [] t = Some t"
| "task_run_all (c # cs) t = (case task_apply c t of
     Some (Inr u) \<Rightarrow> task_run_all cs u
   | _ \<Rightarrow> None)"

lemma task_runs_first:
  "task_runs u cs v \<Longrightarrow> task_step t c u \<Longrightarrow> task_runs t (c # cs) v"
proof (induction rule: task_runs.induct)
  case (none t')
  then show ?case using task_runs.more [OF task_runs.none, of t c t'] by simp
next
  case (more u cs v d w)
  then show ?case using task_runs.more [of t "c # cs" v d w] by simp
qed

lemma task_run_all_runs: "task_run_all cs t = Some t' \<Longrightarrow> task_runs t cs t'"
proof (induction cs arbitrary: t)
  case Nil
  then show ?case by (simp add: task_runs.none)
next
  case (Cons c cs)
  then obtain u where u: "task_apply c t = Some (Inr u)" "task_run_all cs u = Some t'"
    by (auto split: option.splits sum.splits)
  then show ?case
    by (auto intro: task_runs_first Cons.IH accepted)
qed

lemma ai_move_values:
  assumes "task_ok t" "record_ok t" "task_priority_by t = PriorityBy.Human"
    and "case priority_kept_on_move t to Ai of
           Some kept \<Rightarrow> own = Some kept \<and> own_by = Some PriorityBy.Human
         | None \<Rightarrow> own = task_own_priority t \<and> own_by = task_own_priority_by t"
  shows "fst (base_priority own (map_option dest_priority to)) = task_priority t
    \<and> PriorityBy_effective own own_by (map_option dest_priority_by to) = PriorityBy.Human"
proof (cases "task_own_priority t")
  case None
  with assms(3,4) show ?thesis
    by (auto simp: priority_kept_on_move_def persons_priority_taken_from_goal_def Let_def
        base_priority_def PriorityBy_effective_def split: option.splits if_splits)
next
  case (Some p)
  with assms have "own = Some p" "own_by = task_own_priority_by t" "task_priority t = p"
    "PriorityBy_effective (Some p) (task_own_priority_by t) None = PriorityBy.Human"
    by (simp_all add: priority_kept_on_move_def persons_priority_taken_from_goal_def
        task_ok_def record_ok_def base_priority_def PriorityBy_effective_def)
  then show ?thesis by (simp add: base_priority_def PriorityBy_effective_def)
qed

section \<open>Properties\<close>

text \<open>A concrete task for the instances below.\<close>

definition example_new :: NewTask where
  "example_new = \<lparr>new_title = ''Add a flag'', new_description = ''d'', new_acceptance = ''a'',
    new_verification_commands = [''cargo test''], new_dependencies = [], new_goal_dependencies = [],
    new_goal_id = None, new_context = '''', new_required_evidence = [], new_paths = [''src/**''],
    new_priority = None, new_change = None, new_provider = None, new_worker_mode = None,
    new_wait_for_build = False, new_execution_class = Implementation\<rparr>"

definition example_task :: Task where
  "example_task = projr (task_new (TaskId 7) example_new ''t0'')"

definition example_urgent_goal :: Destination where
  "example_urgent_goal =
    \<lparr>dest_id = GoalId 3, dest_priority = Urgent, dest_priority_by = PriorityBy.Human\<rparr>"

definition example_low_goal :: Destination where
  "example_low_goal = \<lparr>dest_id = GoalId 4, dest_priority = Low, dest_priority_by = PriorityBy.Ai\<rparr>"

lemma example_task_new: "task_new (TaskId 7) example_new ''t0'' = Inr example_task"
  by code_simp



text \<open>C20. The plan-review gate: a created task is ready or in progress only when one of the
  commands since its creation was the approval of plan review or a person's bypass of it.\<close>

theorem ready_task_passed_review:
  assumes "task_new i new at = Inr t" and "task_runs t cs t'"
    and "task_status t' = TaskStatus.Ready \<or> task_status t' = TaskStatus.InProgress"
  shows "\<exists>c \<in> set cs. passes_review c"
proof (rule ccontr)
  assume "\<not> (\<exists>c \<in> set cs. passes_review c)"
  moreover have "task_status t = TaskStatus.Draft"
    using assms(1) by (auto simp: task_new_def and_then_eq_Inr case_prod_unfold Let_def)
  ultimately show False using unreviewed_run [OF assms(2)] assms(3) by simp
qed

theorem ready_task_passed_review_witness:
  "\<exists>c \<in> set [Transition Submit False, Transition Approve False]. passes_review c"
proof -
  let ?cs = "[Transition Submit False, Transition Approve False]"
  have "task_run_all ?cs example_task = Some (example_task\<lparr>task_status := TaskStatus.Ready\<rparr>)"
    by code_simp
  from ready_task_passed_review [OF example_task_new task_run_all_runs [OF this]]
  show ?thesis by simp
qed

text \<open>C21. What was reviewed is what runs: once a task is past the editable statuses, no
  command short of sending it back to draft or to review changes its title, description,
  acceptance, required evidence, context, change, build wait or execution class.\<close>

theorem reviewed_content_frozen:
  assumes "task_runs t cs t'" and "\<not> TaskStatus_content_editable (task_status t)"
    and "\<not> list_ex sends_back cs"
  shows "reviewed_content t' = reviewed_content t
    \<and> \<not> TaskStatus_content_editable (task_status t')"
  using reviewed_content_run [OF assms(1) _ assms(2)] assms(3) by (auto simp: list_ex_iff)

theorem reviewed_content_frozen_witness:
  "reviewed_content (the (task_run_all [SetPaths [''a''], Claim]
     (example_task\<lparr>task_status := TaskStatus.Ready\<rparr>)))
   = reviewed_content (example_task\<lparr>task_status := TaskStatus.Ready\<rparr>)"
proof -
  let ?t = "example_task\<lparr>task_status := TaskStatus.Ready\<rparr>"
  let ?cs = "[SetPaths [''a''], Claim]"
  have "task_run_all ?cs ?t = Some (the (task_run_all ?cs ?t))" by code_simp
  from reviewed_content_frozen [OF task_run_all_runs [OF this]] show ?thesis
    by (simp add: TaskStatus_content_editable_def sends_back_def del: task_run_all.simps)
qed

text \<open>A completed, canceled or replaced task never changes again, but for the worker a
  release names and the record of who set its priority: no transition, claim, move, edit or
  priority change is accepted.\<close>

theorem ended_task_is_fixed:
  assumes "TaskStatus_is_terminal (task_status t)" and "task_runs t cs t'"
  shows "task_status t' = task_status t \<and> same_but_worker_and_record t t'"
  using terminal_run [OF assms(2,1)] .

theorem ended_task_is_fixed_witness:
  "same_but_worker_and_record (example_task\<lparr>task_status := TaskStatus.Canceled\<rparr>)
    (the (task_run_all [ReleaseOn Provider.Codex] (example_task\<lparr>task_status := TaskStatus.Canceled\<rparr>)))"
proof -
  let ?t = "example_task\<lparr>task_status := TaskStatus.Canceled\<rparr>"
  let ?cs = "[ReleaseOn Provider.Codex]"
  have "task_run_all ?cs ?t = Some (the (task_run_all ?cs ?t))" by code_simp
  from ended_task_is_fixed [OF _ task_run_all_runs [OF this]] show ?thesis
    by (simp add: TaskStatus_is_terminal_def del: task_run_all.simps)
qed

text \<open>A move by the AI keeps a person's priority: where the task's priority counts as a
  person's, own or taken from the goal it leaves, the moved task has the same priority and it
  still counts as a person's.\<close>

theorem ai_move_keeps_persons_priority:
  assumes "task_ok t" and "record_ok t" and "task_priority_by t = PriorityBy.Human"
    and "task_set_goal t to Ai = Inr t'"
  shows "task_priority t' = task_priority t \<and> task_priority_by t' = PriorityBy.Human"
proof -
  have "task_step t (SetGoal to Ai) t'" using assms(4) by (simp add: task_step_iff)
  from set_goal_accepted(3) [OF this] show ?thesis
  proof (elim disjE exE conjE)
    fix own own_by
    assume t': "t' = t\<lparr>task_goal_id := map_option dest_id to,
        task_goal_priority := map_option dest_priority to,
        task_goal_priority_by := map_option dest_priority_by to,
        task_own_priority := own, task_own_priority_by := own_by,
        task_priority := fst (base_priority own (map_option dest_priority to)),
        task_priority_source := snd (base_priority own (map_option dest_priority to)),
        task_priority_by := PriorityBy_effective own own_by (map_option dest_priority_by to)\<rparr>"
      and "case priority_kept_on_move t to Ai of
           Some kept \<Rightarrow> own = Some kept \<and> own_by = Some PriorityBy.Human
         | None \<Rightarrow> own = task_own_priority t \<and> own_by = task_own_priority_by t"
    from ai_move_values [OF assms(1-3) this(2)] show ?thesis by (simp add: t')
  qed (use assms(3) in simp)
qed

theorem ai_move_keeps_persons_priority_witness:
  "task_priority (projr (task_set_goal
     (projr (task_set_goal example_task (Some example_urgent_goal) Person))
     (Some example_low_goal) Ai)) = Urgent"
proof -
  let ?t = "projr (task_set_goal example_task (Some example_urgent_goal) Person)"
  have "task_ok ?t" "record_ok ?t" by code_simp+
  moreover have "task_priority_by ?t = PriorityBy.Human" "task_priority ?t = Urgent" by code_simp+
  moreover have "task_set_goal ?t (Some example_low_goal) Ai
      = Inr (projr (task_set_goal ?t (Some example_low_goal) Ai))" by code_simp
  ultimately show ?thesis using ai_move_keeps_persons_priority by metis
qed

text \<open>The one \<open>expect\<close> of the aggregate is never reached: editing the verification
  commands of a running task always returns, with the task or with a rejection.\<close>

theorem edit_ended_verify_no_panic:
  "\<exists>r. task_edit_ended_verify t e = Some r"
  by (auto simp: task_edit_ended_verify_def TaskEdit_verify_only_def and_then_eq_Inr
      split: sum.split option.split)

end
