(* ===== verification/Lives.thy ===== *)
theory Lives
  imports Prelude
begin

text \<open>
  Sequences of commands on an aggregate. The modules of \<^verbatim>\<open>src/domain/\<close> share one contract: a
  command takes the aggregate and returns it changed or refuses, and the store saves what an
  accepted one returns. \<open>life\<close> is any sequence of accepted commands and \<open>live\<close> runs a given one.

  Two interfaces state what a component proves of one command and get for whole lives:
  \<open>preserves\<close> (an invariant every accepted command keeps) and \<open>settles\<close> (states no command
  leaves, with what they fix). Each is interpreted on the goal, the run and the proposal.
\<close>

inductive life :: "('c \<Rightarrow> 's \<Rightarrow> 'e + 's) \<Rightarrow> 's \<Rightarrow> 'c list \<Rightarrow> 's \<Rightarrow> bool"
  for execute :: "'c \<Rightarrow> 's \<Rightarrow> 'e + 's" where
  life_none: "life execute s [] s"
| life_more: "execute c s = Inr u \<Longrightarrow> life execute u cs v \<Longrightarrow> life execute s (c # cs) v"

inductive_simps life_Nil [simp]: "life execute s [] s'"
inductive_simps life_Cons: "life execute s (c # cs) s'"

fun live :: "('c \<Rightarrow> 's \<Rightarrow> 'e + 's) \<Rightarrow> 'c list \<Rightarrow> 's \<Rightarrow> 'e + 's" where
  "live execute [] s = Inr s"
| "live execute (c # cs) s = and_then (execute c s) (live execute cs)"

lemma life_iff_live: "life execute s cs s' \<longleftrightarrow> live execute cs s = Inr s'"
  by (induction cs arbitrary: s) (auto simp: life_Cons and_then_eq_Inr)

lemma life_append: "life execute s (cs @ ds) v \<longleftrightarrow> (\<exists>u. life execute s cs u \<and> life execute u ds v)"
  by (induction cs arbitrary: s) (auto simp: life_Cons)

lemma life_deterministic: "life execute s cs u \<Longrightarrow> life execute s cs v \<Longrightarrow> u = v"
  by (simp add: life_iff_live)

locale preserves =
  fixes execute :: "'c \<Rightarrow> 's \<Rightarrow> 'e + 's"
    and ok :: "'s \<Rightarrow> bool"
    and admissible :: "'c \<Rightarrow> bool"
  assumes step_ok: "execute c s = Inr s' \<Longrightarrow> ok s \<Longrightarrow> admissible c \<Longrightarrow> ok s'"
begin

lemma life_ok: "life execute s cs s' \<Longrightarrow> ok s \<Longrightarrow> list_all admissible cs \<Longrightarrow> ok s'"
  by (induction rule: life.induct) (auto intro: step_ok)

end

locale settles =
  fixes execute :: "'c \<Rightarrow> 's \<Rightarrow> 'e + 's"
    and settled :: "'s \<Rightarrow> bool"
    and view :: "'s \<Rightarrow> 'v"
  assumes step_settled: "execute c s = Inr s' \<Longrightarrow> settled s \<Longrightarrow> settled s'"
    and step_view: "execute c s = Inr s' \<Longrightarrow> settled s \<Longrightarrow> view s' = view s"

sublocale settles \<subseteq> preserves execute settled "\<lambda>_. True"
  by unfold_locales (rule step_settled)

context settles
begin

lemma life_settled: "life execute s cs s' \<Longrightarrow> settled s \<Longrightarrow> settled s' \<and> view s' = view s"
  by (induction rule: life.induct) (auto simp: step_view step_settled)

end

end
