(* ===== verification/Goal_Aggregate.thy ===== *)
theory Goal_Aggregate
  imports Task_Aggregate Lives
begin

text \<open>
  The goal aggregate: \<^verbatim>\<open>src/domain/goal.rs\<close>, its inputs of \<^verbatim>\<open>src/domain/input.rs\<close>, the tags
  of \<^verbatim>\<open>src/domain/goal_tag.rs\<close>, the counts and the list row of \<^verbatim>\<open>src/domain/views.rs\<close> and the
  follow-ups a close waits for, of \<^verbatim>\<open>src/domain/follow_up.rs\<close>.

  A goal is built by \<open>goal_new\<close> or \<open>goal_restore\<close> and changes through \<open>goal_edit\<close>,
  \<open>goal_ready\<close>, \<open>goal_reopen\<close>, \<open>goal_close\<close> and \<open>goal_with_record\<close>; \<open>goal_runs\<close> is any sequence
  of accepted ones. Shown: the invariant \<open>goal_ok\<close> (a close time exactly when there is a
  verdict), that an abandoned goal stays abandoned, exactly when a close is accepted in terms
  of the tasks the counts come from, and the order of \<open>goal_list\<close>.
  A \<open>usize\<close> count is a \<open>nat\<close>: it counts rows, far from \<open>2^64\<close>.
\<close>

section \<open>Labels\<close>

definition slug_bytes :: string where
  "slug_bytes = ''abcdefghijklmnopqrstuvwxyz0123456789-_''"

definition GoalTag_from_str :: "string \<Rightarrow> GoalTag result" where
  "GoalTag_from_str v =
    and_then (require (v \<noteq> [] \<and> length v \<le> 64 \<and> list_all (\<lambda>b. b \<in> set slug_bytes) v)
      (InvalidGoalTag v)) (\<lambda>_.
    Inr (GoalTag v))"

definition TaskChange_from_str :: "string \<Rightarrow> TaskChange result" where
  "TaskChange_from_str v =
    and_then (require (v \<noteq> [] \<and> length v \<le> 64 \<and> v \<noteq> ''unknown'' \<and> v \<noteq> ''all''
        \<and> list_all (\<lambda>b. b \<in> set slug_bytes) v)
      (InvalidTaskChange v)) (\<lambda>_.
    Inr (TaskChange v))"

text \<open>The loop over the tags with the ones before each.\<close>

fun check_distinct_from :: "GoalTag list \<Rightarrow> GoalTag list \<Rightarrow> unit result" where
  "check_distinct_from before [] = Inr ()"
| "check_distinct_from before (tag # tags) =
    and_then (require (tag \<notin> set before) (GoalTagRepeated (goal_tag_as_str tag))) (\<lambda>_.
    check_distinct_from (before @ [tag]) tags)"

definition check_distinct :: "GoalTag list \<Rightarrow> unit result" where
  "check_distinct tags = check_distinct_from [] tags"

text \<open>\<open>TagSet\<close>: the repository's tags; the message of a refused set is its text.\<close>

fun tag_given_twice :: "GoalTag list \<Rightarrow> GoalTag list \<Rightarrow> GoalTag option" where
  "tag_given_twice before [] = None"
| "tag_given_twice before (tag # tags) =
    (if tag \<in> set before then Some tag else tag_given_twice (before @ [tag]) tags)"

definition TagSet_new :: "GoalTag list \<Rightarrow> string + GoalTag list" where
  "TagSet_new tags =
    (if tags = [] then Inl ''names no tag''
     else (case tag_given_twice [] tags of
         Some tag \<Rightarrow> Inl (''names '' @ goal_tag_as_str tag @ '' twice'')
       | None \<Rightarrow> Inr tags))"

definition TagSet_check :: "GoalTag list \<Rightarrow> GoalTag list \<Rightarrow> unit result" where
  "TagSet_check tag_set tags =
    check_each (\<lambda>tag. require (tag \<in> set tag_set)
      (GoalTagNotInSet (goal_tag_as_str tag) (map goal_tag_as_str tag_set))) tags"

definition TagSet_check_declared :: "GoalTag list \<Rightarrow> GoalId \<Rightarrow> GoalTag list \<Rightarrow> unit result" where
  "TagSet_check_declared tag_set goal_id tags =
    and_then (require (tags \<noteq> []) (GoalTagMissing goal_id (map goal_tag_as_str tag_set))) (\<lambda>_.
    TagSet_check tag_set tags)"

section \<open>Counts\<close>

record TaskStatusCounts =
  count_total :: nat
  count_draft :: nat
  count_submitted :: nat
  count_ready :: nat
  count_in_progress :: nat
  count_completed :: nat
  count_canceled :: nat
  count_replaced :: nat

definition TaskStatusCounts_default :: TaskStatusCounts where
  "TaskStatusCounts_default = \<lparr>count_total = 0, count_draft = 0, count_submitted = 0,
    count_ready = 0, count_in_progress = 0, count_completed = 0, count_canceled = 0,
    count_replaced = 0\<rparr>"

definition TaskStatusCounts_count ::
  "TaskStatusCounts \<Rightarrow> TaskStatus \<Rightarrow> nat \<Rightarrow> TaskStatusCounts" where
  "TaskStatusCounts_count c status n =
    (let c = c\<lparr>count_total := count_total c + n\<rparr> in
     case status of
       TaskStatus.Draft \<Rightarrow> c\<lparr>count_draft := count_draft c + n\<rparr>
     | TaskStatus.Submitted \<Rightarrow> c\<lparr>count_submitted := count_submitted c + n\<rparr>
     | TaskStatus.Ready \<Rightarrow> c\<lparr>count_ready := count_ready c + n\<rparr>
     | TaskStatus.InProgress \<Rightarrow> c\<lparr>count_in_progress := count_in_progress c + n\<rparr>
     | TaskStatus.Completed \<Rightarrow> c\<lparr>count_completed := count_completed c + n\<rparr>
     | TaskStatus.Canceled \<Rightarrow> c\<lparr>count_canceled := count_canceled c + n\<rparr>
     | TaskStatus.Replaced \<Rightarrow> c\<lparr>count_replaced := count_replaced c + n\<rparr>)"

text \<open>The store's \<open>task_counts\<close>: one row per status of the goal's tasks, in any order.\<close>

definition task_counts :: "(TaskStatus \<times> nat) list \<Rightarrow> TaskStatusCounts" where
  "task_counts rows =
    foldl (\<lambda>c (status, n). TaskStatusCounts_count c status n) TaskStatusCounts_default rows"

record GoalSummary =
  summary_id :: GoalId
  summary_title :: string
  summary_status :: GoalStatus
  summary_priority :: Priority
  summary_tags :: "GoalTag list"
  summary_closed :: bool
  summary_verdict :: "GoalVerdict option"
  summary_tasks :: TaskStatusCounts

section \<open>Follow-ups of a goal\<close>

primrec UnsettledReason_explain :: "UnsettledReason \<Rightarrow> string" where
  "UnsettledReason_explain UnsettledReason.Unjudged = ''not judged''"
| "UnsettledReason_explain UnsettledReason.Undecided = ''undecided''"
| "UnsettledReason_explain UnsettledReason.NeedsRecheck = ''judged before the acceptance changed''"
| "UnsettledReason_explain UnsettledReason.RequiredOutside = ''required but outside the goal''"

record SourceFollowUp =
  follow_task :: TaskId
  follow_status :: TaskStatus
  follow_in_goal :: bool
  follow_judgement :: "(int \<times> MembershipClassification \<times> bool) option"

definition unsettled_reason :: "SourceFollowUp \<Rightarrow> UnsettledReason option" where
  "unsettled_reason f =
    (if follow_status f = TaskStatus.Completed \<or> follow_status f = TaskStatus.Canceled then None
     else (case follow_judgement f of
         None \<Rightarrow> Some UnsettledReason.Unjudged
       | Some (_, class, recheck) \<Rightarrow>
           if class = MembershipClassification.Undecided then Some UnsettledReason.Undecided
           else if recheck then Some UnsettledReason.NeedsRecheck
           else if class = MembershipClassification.Required \<and> \<not> follow_in_goal f
           then Some UnsettledReason.RequiredOutside
           else None))"

definition unsettled :: "SourceFollowUp \<Rightarrow> string option" where
  "unsettled f = map_option UnsettledReason_explain (unsettled_reason f)"

definition SourceFollowUp_fingerprint :: "SourceFollowUp \<Rightarrow> string" where
  "SourceFollowUp_fingerprint f =
    show_int (task_id_as_i64 (follow_task f)) @ '':'' @
    (case follow_judgement f of
       None \<Rightarrow> ''-''
     | Some (i, class, _) \<Rightarrow> show_int i @ ''-'' @ MembershipClassification_as_str class)"

definition unsettled_follow_ups :: "SourceFollowUp list \<Rightarrow> (TaskId \<times> string) list" where
  "unsettled_follow_ups follow_ups =
    sort_key fst (List.map_filter (\<lambda>f. map_option (\<lambda>why. (follow_task f, why)) (unsettled f)) follow_ups)"

section \<open>Inputs\<close>

record NewGoal =
  newg_title :: string
  newg_description :: string
  newg_acceptance :: string
  newg_constraints :: string
  newg_doc :: "string option"
  newg_draft :: bool
  newg_priority :: "Priority option"
  newg_tags :: "GoalTag list"

definition NewGoal_validate :: "NewGoal \<Rightarrow> unit result" where
  "NewGoal_validate n =
    and_then (require (\<not> blank (newg_title n)) (Blank ''goal title'')) (\<lambda>_.
    check_distinct (newg_tags n))"

record GoalEdit =
  gedit_title :: "string option"
  gedit_description :: "string option"
  gedit_acceptance :: "string option"
  gedit_constraints :: "string option"
  gedit_doc :: "string option"
  gedit_priority :: "Priority option"
  gedit_tags :: "GoalTag list option"

definition GoalEdit_is_empty :: "GoalEdit \<Rightarrow> bool" where
  "GoalEdit_is_empty e \<longleftrightarrow>
    gedit_priority e = None \<and> gedit_tags e = None \<and> gedit_title e = None
    \<and> gedit_description e = None \<and> gedit_acceptance e = None \<and> gedit_constraints e = None
    \<and> gedit_doc e = None"

record GoalRecord =
  grec_id :: GoalId
  grec_title :: string
  grec_description :: string
  grec_acceptance :: string
  grec_constraints :: string
  grec_doc :: "string option"
  grec_priority :: Priority
  grec_tags :: "GoalTag list"
  grec_status :: GoalStatus
  grec_closed_at :: "string option"
  grec_verdict :: "GoalVerdict option"
  grec_created_at :: string
  grec_updated_at :: string

section \<open>The goal\<close>

definition GoalVerdict_allows :: "GoalVerdict \<Rightarrow> TaskStatus \<Rightarrow> bool" where
  "GoalVerdict_allows v task = (case v of
     GoalVerdict.Achieved \<Rightarrow> TaskStatus_is_terminal task
   | GoalVerdict.Abandoned \<Rightarrow> task \<noteq> TaskStatus.InProgress)"

record Goal =
  goal_id :: GoalId
  goal_title :: string
  goal_description :: string
  goal_acceptance :: string
  goal_constraints :: string
  goal_doc :: "string option"
  goal_priority :: Priority
  goal_priority_by :: PriorityBy
  goal_origin :: RecordedOrigin
  goal_tags :: "GoalTag list"
  goal_status :: GoalStatus
  goal_closed_at :: "string option"
  goal_verdict :: "GoalVerdict option"
  goal_created_at :: string
  goal_updated_at :: string

text \<open>\<open>doc.filter(|d| !d.trim().is_empty())\<close>.\<close>

definition not_blank_doc :: "string option \<Rightarrow> string option" where
  "not_blank_doc doc = (case doc of Some d \<Rightarrow> if blank d then None else Some d | None \<Rightarrow> None)"

definition goal_require_positive :: "GoalId \<Rightarrow> unit result" where
  "goal_require_positive i = require (goal_id_as_i64 i > 0) (NonPositiveId ''goal ID'')"

definition goal_new :: "GoalId \<Rightarrow> NewGoal \<Rightarrow> string \<Rightarrow> Goal result" where
  "goal_new i new created_at =
    and_then (NewGoal_validate new) (\<lambda>_.
    and_then (goal_require_positive i) (\<lambda>_.
    Inr \<lparr>goal_id = i,
      goal_title = newg_title new,
      goal_description = newg_description new,
      goal_acceptance = newg_acceptance new,
      goal_constraints = newg_constraints new,
      goal_doc = not_blank_doc (newg_doc new),
      goal_priority = case_option Normal id (newg_priority new),
      goal_priority_by = PriorityBy.Ai,
      goal_origin = RecordedOrigin_UNKNOWN,
      goal_tags = newg_tags new,
      goal_status = (if newg_draft new then GoalStatus.Draft else GoalStatus.Open),
      goal_closed_at = None,
      goal_verdict = None,
      goal_created_at = created_at,
      goal_updated_at = created_at\<rparr>))"

definition goal_restore :: "GoalRecord \<Rightarrow> Goal result" where
  "goal_restore r =
    and_then (goal_require_positive (grec_id r)) (\<lambda>_.
    and_then (require (\<not> blank (grec_title r)) (Blank ''goal title'')) (\<lambda>_.
    and_then (check_distinct (grec_tags r)) (\<lambda>_.
    and_then (require ((grec_closed_at r \<noteq> None) = (grec_verdict r \<noteq> None))
      (GoalCloseInconsistent (grec_id r))) (\<lambda>_.
    Inr \<lparr>goal_id = grec_id r,
      goal_title = grec_title r,
      goal_description = grec_description r,
      goal_acceptance = grec_acceptance r,
      goal_constraints = grec_constraints r,
      goal_doc = grec_doc r,
      goal_priority = grec_priority r,
      goal_priority_by = PriorityBy.Human,
      goal_origin = RecordedOrigin_UNKNOWN,
      goal_tags = grec_tags r,
      goal_status = grec_status r,
      goal_closed_at = grec_closed_at r,
      goal_verdict = grec_verdict r,
      goal_created_at = grec_created_at r,
      goal_updated_at = grec_updated_at r\<rparr>))))"

definition goal_with_record :: "Goal \<Rightarrow> PriorityBy \<Rightarrow> RecordedOrigin \<Rightarrow> Goal" where
  "goal_with_record g priority_by origin = g\<lparr>goal_priority_by := priority_by, goal_origin := origin\<rparr>"

definition goal_is_closed :: "Goal \<Rightarrow> bool" where
  "goal_is_closed g \<longleftrightarrow> goal_closed_at g \<noteq> None"

definition goal_is_draft :: "Goal \<Rightarrow> bool" where
  "goal_is_draft g \<longleftrightarrow> goal_status g = GoalStatus.Draft \<and> \<not> goal_is_closed g"

definition goal_require_open :: "Goal \<Rightarrow> unit result" where
  "goal_require_open g =
    require (\<not> goal_is_closed g) (GoalAlreadyClosed (goal_id g) (goal_verdict g))"

definition check_accepts_tasks :: "Goal \<Rightarrow> unit result" where
  "check_accepts_tasks g = require (\<not> goal_is_closed g) (GoalClosed (goal_id g) (goal_verdict g))"

definition check_accepts_dependents :: "Goal \<Rightarrow> unit result" where
  "check_accepts_dependents g =
    require (goal_verdict g \<noteq> Some GoalVerdict.Abandoned) (AbandonedGoalDependency (goal_id g))"

section \<open>Commands\<close>

definition goal_edit :: "Goal \<Rightarrow> GoalEdit \<Rightarrow> Goal result" where
  "goal_edit g e =
    and_then (case gedit_priority e of
        Some priority \<Rightarrow> and_then (check_accepts_tasks g) (\<lambda>_. Inr (g\<lparr>goal_priority := priority\<rparr>))
      | None \<Rightarrow> Inr g) (\<lambda>g.
    and_then (case gedit_tags e of
        Some tags \<Rightarrow> and_then (check_distinct tags) (\<lambda>_. Inr (g\<lparr>goal_tags := tags\<rparr>))
      | None \<Rightarrow> Inr g) (\<lambda>g.
    and_then (case gedit_title e of
        Some title \<Rightarrow> and_then (require (\<not> blank title) (Blank ''goal title'')) (\<lambda>_.
          Inr (g\<lparr>goal_title := title\<rparr>))
      | None \<Rightarrow> Inr g) (\<lambda>g.
    Inr (g\<lparr>goal_description := case_option (goal_description g) id (gedit_description e),
      goal_acceptance := case_option (goal_acceptance g) id (gedit_acceptance e),
      goal_constraints := case_option (goal_constraints g) id (gedit_constraints e),
      goal_doc := (case gedit_doc e of Some doc \<Rightarrow> not_blank_doc (Some doc) | None \<Rightarrow> goal_doc g)\<rparr>))))"

definition goal_list :: "GoalSummary list \<Rightarrow> GoalTag list \<Rightarrow> GoalSummary list" where
  "goal_list goals tags =
    (let goals = (if tags \<noteq> [] then filter (\<lambda>g. list_ex (\<lambda>t. t \<in> set tags) (summary_tags g)) goals
       else goals)
     in sort_key (\<lambda>g. (summary_closed g, Reverse (summary_priority g), summary_id g)) goals)"

definition goal_ready :: "Goal \<Rightarrow> Goal result" where
  "goal_ready g =
    and_then (goal_require_open g) (\<lambda>_.
    and_then (require (goal_status g = GoalStatus.Draft) (GoalNotDraft (goal_id g))) (\<lambda>_.
    Inr (g\<lparr>goal_status := GoalStatus.Open\<rparr>)))"

definition goal_reopen :: "Goal \<Rightarrow> string \<Rightarrow> Goal result" where
  "goal_reopen g reopened_at =
    and_then (require (goal_verdict g = Some GoalVerdict.Achieved)
      (GoalNotReopenable (goal_id g) (goal_verdict g))) (\<lambda>_.
    Inr (g\<lparr>goal_status := GoalStatus.Open, goal_verdict := None, goal_closed_at := None,
      goal_updated_at := reopened_at\<rparr>))"

definition check_follow_ups :: "GoalId \<Rightarrow> GoalVerdict \<Rightarrow> SourceFollowUp list \<Rightarrow> unit result" where
  "check_follow_ups goal verdict follow_ups =
    (if verdict \<noteq> GoalVerdict.Achieved then Inr ()
     else (let unsettled = unsettled_follow_ups follow_ups
       in require (unsettled = []) (GoalFollowUpsUnsettled goal unsettled)))"

definition check_replacements ::
  "GoalId \<Rightarrow> GoalVerdict \<Rightarrow> UnresolvedReplacement list \<Rightarrow> unit result" where
  "check_replacements goal verdict unresolved =
    (if verdict \<noteq> GoalVerdict.Achieved then Inr ()
     else require (unresolved = []) (GoalReplacementsUnresolved goal unresolved))"

definition close_blocking ::
  "GoalVerdict \<Rightarrow> TaskStatusCounts \<Rightarrow> (TaskStatus \<times> nat) list" where
  "close_blocking verdict held =
    filter (\<lambda>(status, n). n > 0 \<and> \<not> GoalVerdict_allows verdict status)
      [(TaskStatus.Draft, count_draft held), (TaskStatus.Submitted, count_submitted held),
       (TaskStatus.Ready, count_ready held), (TaskStatus.InProgress, count_in_progress held)]"

definition goal_close ::
  "Goal \<Rightarrow> GoalVerdict \<Rightarrow> TaskStatusCounts \<Rightarrow> (TaskId \<times> TaskStatus) list \<Rightarrow> string \<Rightarrow> Goal result"
where
  "goal_close g verdict counts replacing closed_at =
    and_then (goal_require_open g) (\<lambda>_.
    (let held = foldl (\<lambda>held (_, status). TaskStatusCounts_count held status 1) counts replacing;
         blocking = close_blocking verdict held
     in and_then (require (blocking = []) (GoalCloseBlocked (goal_id g) verdict blocking)) (\<lambda>_.
        Inr (g\<lparr>goal_verdict := Some verdict, goal_updated_at := closed_at,
          goal_closed_at := Some closed_at\<rparr>))))"

text \<open>The store's \<open>close_goal_in\<close> up to its write: the three checks of a close in their order,
  over what the transaction read.\<close>

definition close_goal_in ::
  "Goal \<Rightarrow> GoalVerdict \<Rightarrow> (TaskStatus \<times> nat) list \<Rightarrow> (TaskId \<times> TaskStatus) list
    \<Rightarrow> SourceFollowUp list \<Rightarrow> UnresolvedReplacement list \<Rightarrow> string \<Rightarrow> Goal result" where
  "close_goal_in g verdict rows replacing follow_ups unresolved now =
    and_then (goal_close g verdict (task_counts rows) replacing now) (\<lambda>closed.
    and_then (check_follow_ups (goal_id g) verdict follow_ups) (\<lambda>_.
    and_then (check_replacements (goal_id g) verdict unresolved) (\<lambda>_.
    Inr closed)))"

record StrandedDependency =
  stranded_task :: TaskId
  stranded_goal :: GoalId
  stranded_verdict :: GoalVerdict
  stranded_waiting :: "TaskId list"

definition StrandedDependency_summary :: "StrandedDependency \<Rightarrow> string" where
  "StrandedDependency_summary d =
    (let show_task = (\<lambda>i. show_int (task_id_as_i64 i)) in
     ''task '' @ show_task (stranded_task d) @ '' of goal ''
     @ show_int (goal_id_as_i64 (stranded_goal d))
     @ '' (closed '' @ GoalVerdict_as_str (stranded_verdict d) @ '') will not complete; tasks ''
     @ join '', '' (map show_task (stranded_waiting d)) @ '' wait on it'')"

section \<open>Between processes\<close>

record GoalWire =
  gwire_id :: GoalId
  gwire_title :: string
  gwire_description :: string
  gwire_acceptance :: string
  gwire_constraints :: string
  gwire_doc :: "string option"
  gwire_priority :: Priority
  gwire_priority_by :: PriorityBy
  gwire_origin :: RecordedOrigin
  gwire_tags :: "GoalTag list"
  gwire_status :: GoalStatus
  gwire_closed_at :: "string option"
  gwire_verdict :: "GoalVerdict option"
  gwire_created_at :: string
  gwire_updated_at :: string

definition goal_to_wire :: "Goal \<Rightarrow> GoalWire" where
  "goal_to_wire g =
    \<lparr>gwire_id = goal_id g,
     gwire_title = goal_title g,
     gwire_description = goal_description g,
     gwire_acceptance = goal_acceptance g,
     gwire_constraints = goal_constraints g,
     gwire_doc = goal_doc g,
     gwire_priority = goal_priority g,
     gwire_priority_by = goal_priority_by g,
     gwire_origin = goal_origin g,
     gwire_tags = goal_tags g,
     gwire_status = goal_status g,
     gwire_closed_at = goal_closed_at g,
     gwire_verdict = goal_verdict g,
     gwire_created_at = goal_created_at g,
     gwire_updated_at = goal_updated_at g\<rparr>"

definition goal_from_wire :: "GoalWire \<Rightarrow> Goal" where
  "goal_from_wire w =
    \<lparr>goal_id = gwire_id w,
     goal_title = gwire_title w,
     goal_description = gwire_description w,
     goal_acceptance = gwire_acceptance w,
     goal_constraints = gwire_constraints w,
     goal_doc = gwire_doc w,
     goal_priority = gwire_priority w,
     goal_priority_by = gwire_priority_by w,
     goal_origin = gwire_origin w,
     goal_tags = gwire_tags w,
     goal_status = gwire_status w,
     goal_closed_at = gwire_closed_at w,
     goal_verdict = gwire_verdict w,
     goal_created_at = gwire_created_at w,
     goal_updated_at = gwire_updated_at w\<rparr>"

section \<open>Any sequence of commands\<close>

datatype GoalCommand =
  GoalEdits GoalEdit
| GoalReady
| GoalReopen string
| GoalClose GoalVerdict TaskStatusCounts "(TaskId \<times> TaskStatus) list" string
| GoalRecordSet PriorityBy RecordedOrigin

fun goal_apply :: "GoalCommand \<Rightarrow> Goal \<Rightarrow> Goal result" where
  "goal_apply (GoalEdits e) g = goal_edit g e"
| "goal_apply GoalReady g = goal_ready g"
| "goal_apply (GoalReopen at) g = goal_reopen g at"
| "goal_apply (GoalClose verdict counts replacing at) g = goal_close g verdict counts replacing at"
| "goal_apply (GoalRecordSet by origin) g = Inr (goal_with_record g by origin)"

abbreviation goal_runs :: "Goal \<Rightarrow> GoalCommand list \<Rightarrow> Goal \<Rightarrow> bool" where
  "goal_runs \<equiv> life goal_apply"

section \<open>Lemmas\<close>

lemma check_distinct_from_Inr:
  "distinct before \<Longrightarrow> check_distinct_from before tags = Inr u \<longleftrightarrow> distinct (before @ tags)"
  by (induction before tags rule: check_distinct_from.induct) (auto simp: and_then_eq_Inr)

lemma check_distinct_Inr [simp]: "check_distinct tags = Inr u \<longleftrightarrow> distinct tags"
  by (simp add: check_distinct_def check_distinct_from_Inr)

lemma tag_given_twice_None:
  "distinct before \<Longrightarrow> tag_given_twice before tags = None \<longleftrightarrow> distinct (before @ tags)"
  by (induction before tags rule: tag_given_twice.induct) auto

lemma TagSet_new_Inr: "TagSet_new tags = Inr s \<longleftrightarrow> s = tags \<and> tags \<noteq> [] \<and> distinct tags"
  by (auto simp: TagSet_new_def tag_given_twice_None [of "[]", simplified, symmetric]
      split: option.splits)

lemma goal_wire_round_trip: "goal_from_wire (goal_to_wire g) = g"
  by (simp add: goal_from_wire_def goal_to_wire_def)

text \<open>The count of one status.\<close>

primrec count_of :: "TaskStatus \<Rightarrow> TaskStatusCounts \<Rightarrow> nat" where
  "count_of TaskStatus.Draft c = count_draft c"
| "count_of TaskStatus.Submitted c = count_submitted c"
| "count_of TaskStatus.Ready c = count_ready c"
| "count_of TaskStatus.InProgress c = count_in_progress c"
| "count_of TaskStatus.Completed c = count_completed c"
| "count_of TaskStatus.Canceled c = count_canceled c"
| "count_of TaskStatus.Replaced c = count_replaced c"

lemma count_of_count:
  "count_of s (TaskStatusCounts_count c s' n) = count_of s c + (if s = s' then n else 0)"
  by (cases s; cases s') (simp_all add: TaskStatusCounts_count_def Let_def)

lemma total_count: "count_total (TaskStatusCounts_count c s n) = count_total c + n"
  by (cases s) (simp_all add: TaskStatusCounts_count_def Let_def)

lemma count_of_foldl:
  "count_of s (foldl (\<lambda>c x. TaskStatusCounts_count c (f x) (m x)) c xs)
    = count_of s c + (\<Sum>x \<leftarrow> xs. if f x = s then m x else 0)"
  by (induction xs arbitrary: c) (auto simp: count_of_count)

lemma count_of_task_counts: "count_of s (task_counts rows) = (\<Sum>(s', n) \<leftarrow> rows. if s' = s then n else 0)"
  using count_of_foldl [of s fst snd TaskStatusCounts_default rows]
  by (cases s) (simp_all add: task_counts_def case_prod_unfold TaskStatusCounts_default_def)

lemma total_task_counts: "count_total (task_counts rows) = (\<Sum>(s', n) \<leftarrow> rows. n)"
proof -
  have "count_total (foldl (\<lambda>c (s, n). TaskStatusCounts_count c s n) c rows)
      = count_total c + (\<Sum>(s', n) \<leftarrow> rows. n)" for c
    by (induction rows arbitrary: c) (auto simp: total_count)
  then show ?thesis by (simp add: task_counts_def TaskStatusCounts_default_def)
qed

lemma verdict_allows_terminal: "TaskStatus_is_terminal s \<Longrightarrow> GoalVerdict_allows v s"
  by (auto simp: GoalVerdict_allows_def TaskStatus_is_terminal_def split: GoalVerdict.split)

lemma close_blocking_Nil:
  "close_blocking v held = [] \<longleftrightarrow> (\<forall>s. count_of s held > 0 \<longrightarrow> GoalVerdict_allows v s)"
    (is "?l = ?r")
proof
  assume l: ?l
  show ?r
  proof (intro allI impI)
    fix s assume "count_of s held > 0"
    with l show "GoalVerdict_allows v s"
      by (cases s) (auto simp: close_blocking_def verdict_allows_terminal
          TaskStatus_is_terminal_def split: if_splits)
  qed
next
  assume ?r
  then have "\<forall>s \<in> {TaskStatus.Draft, TaskStatus.Submitted, TaskStatus.Ready, TaskStatus.InProgress}.
      count_of s held > 0 \<longrightarrow> GoalVerdict_allows v s" by blast
  then show ?l by (auto simp: close_blocking_def)
qed

lemma sum_list_indicator_pos:
  "0 < (\<Sum>x \<leftarrow> xs. if f x = s then m x else (0::nat)) \<longleftrightarrow> (\<exists>x \<in> set xs. f x = s \<and> m x > 0)"
  by (induction xs) auto

lemma held_pos:
  "0 < count_of s (foldl (\<lambda>held (_, status). TaskStatusCounts_count held status 1)
      (task_counts rows) replacing)
    \<longleftrightarrow> (\<exists>n > 0. (s, n) \<in> set rows) \<or> (\<exists>t. (t, s) \<in> set replacing)"
proof -
  have "(foldl (\<lambda>held (_, status). TaskStatusCounts_count held status 1) c replacing)
      = foldl (\<lambda>held x. TaskStatusCounts_count held (snd x) 1) c replacing" for c
    by (simp add: case_prod_unfold)
  moreover have "(\<Sum>(s', n) \<leftarrow> rows. if s' = s then n else 0)
      = (\<Sum>x \<leftarrow> rows. if fst x = s then snd x else 0)"
    by (simp add: case_prod_unfold)
  ultimately have "0 < count_of s (foldl (\<lambda>held (_, status). TaskStatusCounts_count held status 1)
      (task_counts rows) replacing)
    \<longleftrightarrow> (\<exists>x \<in> set rows. fst x = s \<and> snd x > 0) \<or> (\<exists>x \<in> set replacing. snd x = s \<and> (1::nat) > 0)"
    by (simp only: count_of_foldl count_of_task_counts add_gr_0 sum_list_indicator_pos)
  then show ?thesis by force
qed

lemma unsettled_follow_ups_Nil:
  "unsettled_follow_ups fs = [] \<longleftrightarrow> (\<forall>f \<in> set fs. unsettled_reason f = None)"
proof -
  have "unsettled_follow_ups fs = [] \<longleftrightarrow> set (unsettled_follow_ups fs) = {}" by simp
  also have "\<dots> \<longleftrightarrow> (\<forall>f \<in> set fs. unsettled_reason f = None)"
    unfolding unsettled_follow_ups_def set_sort
    by (induction fs) (auto simp: map_filter_simps unsettled_def split: option.splits)
  finally show ?thesis .
qed

section \<open>The invariant of a goal\<close>

definition goal_ok :: "Goal \<Rightarrow> bool" where
  "goal_ok g \<longleftrightarrow>
    goal_id_as_i64 (goal_id g) > 0
    \<and> \<not> blank (goal_title g)
    \<and> distinct (goal_tags g)
    \<and> (goal_closed_at g \<noteq> None) = (goal_verdict g \<noteq> None)"

lemma goal_new_ok: "goal_new i new at = Inr g \<Longrightarrow> goal_ok g"
  by (auto simp: goal_new_def goal_ok_def NewGoal_validate_def goal_require_positive_def
      and_then_eq_Inr)

lemma goal_restore_ok: "goal_restore r = Inr g \<Longrightarrow> goal_ok g"
  by (auto simp: goal_restore_def goal_ok_def goal_require_positive_def and_then_eq_Inr)

text \<open>An accepted edit, its fields in the order the code sets them.\<close>

lemma goal_edit_effect:
  assumes "goal_edit g e = Inr g'"
  obtains p tags title d a c doc where
    "g' = g\<lparr>goal_priority := p, goal_tags := tags, goal_title := title, goal_description := d,
        goal_acceptance := a, goal_constraints := c, goal_doc := doc\<rparr>"
    and "p = goal_priority g \<or> \<not> goal_is_closed g"
    and "tags = goal_tags g \<or> distinct tags"
    and "title = goal_title g \<or> \<not> blank title"
proof -
  let ?p = "case_option (goal_priority g) id (gedit_priority e)"
  let ?tags = "case_option (goal_tags g) id (gedit_tags e)"
  let ?title = "case_option (goal_title g) id (gedit_title e)"
  have "(gedit_priority e = None \<or> \<not> goal_is_closed g)
    \<and> (gedit_tags e = None \<or> distinct (the (gedit_tags e)))
    \<and> (gedit_title e = None \<or> \<not> blank (the (gedit_title e)))
    \<and> g' = g\<lparr>goal_priority := ?p, goal_tags := ?tags, goal_title := ?title,
        goal_description := case_option (goal_description g) id (gedit_description e),
        goal_acceptance := case_option (goal_acceptance g) id (gedit_acceptance e),
        goal_constraints := case_option (goal_constraints g) id (gedit_constraints e),
        goal_doc := (case gedit_doc e of Some doc \<Rightarrow> not_blank_doc (Some doc) | None \<Rightarrow> goal_doc g)\<rparr>"
    using assms
    by (cases "gedit_priority e"; cases "gedit_tags e"; cases "gedit_title e")
      (auto simp: goal_edit_def and_then_eq_Inr check_accepts_tasks_def cong: option.case_cong)
  then show thesis
    by (elim conjE) (rule that, assumption, auto split: option.splits)
qed

lemma goal_edit_accepted:
  assumes "goal_edit g e = Inr g'"
  shows "goal_id g' = goal_id g" and "goal_status g' = goal_status g"
    and "goal_closed_at g' = goal_closed_at g" and "goal_verdict g' = goal_verdict g"
    and "goal_ok g \<Longrightarrow> goal_ok g'"
    and "goal_is_closed g \<Longrightarrow> goal_priority g' = goal_priority g"
  by (rule goal_edit_effect [OF assms], force simp: goal_ok_def)+

lemma goal_close_accepted:
  assumes "goal_close g v counts replacing at = Inr g'"
  shows "\<not> goal_is_closed g"
    and "g' = g\<lparr>goal_verdict := Some v, goal_updated_at := at, goal_closed_at := Some at\<rparr>"
  using assms by (auto simp: goal_close_def goal_require_open_def and_then_eq_Inr Let_def)

lemma goal_apply_ok:
  assumes "goal_apply c g = Inr g'" "goal_ok g"
  shows "goal_ok g'"
proof (cases c)
  case (GoalEdits e)
  with assms goal_edit_accepted(5) show ?thesis by auto
next
  case (GoalClose v counts replacing at)
  with assms goal_close_accepted(2) [of g v counts replacing at g'] show ?thesis
    by (simp add: goal_ok_def)
qed (use assms in \<open>auto simp: goal_ready_def goal_reopen_def goal_with_record_def goal_ok_def
    and_then_eq_Inr\<close>)

interpretation goal_life: preserves goal_apply goal_ok "\<lambda>_. True"
  by unfold_locales (rule goal_apply_ok)

text \<open>An abandoned goal, and what abandoning fixes.\<close>

definition goal_abandoned :: "Goal \<Rightarrow> bool" where
  "goal_abandoned g \<longleftrightarrow> goal_ok g \<and> goal_verdict g = Some GoalVerdict.Abandoned"

definition goal_closing :: "Goal \<Rightarrow> GoalVerdict option \<times> string option \<times> GoalStatus \<times> Priority" where
  "goal_closing g = (goal_verdict g, goal_closed_at g, goal_status g, goal_priority g)"

lemma abandoned_step:
  assumes "goal_apply c g = Inr g'" "goal_ok g" "goal_verdict g = Some GoalVerdict.Abandoned"
  shows "goal_verdict g' = goal_verdict g \<and> goal_closed_at g' = goal_closed_at g
    \<and> goal_status g' = goal_status g \<and> goal_priority g' = goal_priority g"
proof (cases c)
  case (GoalEdits e)
  with assms show ?thesis
    using goal_edit_accepted [of g e g'] by (auto simp: goal_ok_def goal_is_closed_def)
next
  case (GoalClose v counts replacing at)
  with assms goal_close_accepted(1) [of g v counts replacing at g'] show ?thesis
    by (auto simp: goal_ok_def goal_is_closed_def)
qed (use assms in \<open>auto simp: goal_ready_def goal_require_open_def goal_reopen_def
    goal_with_record_def goal_ok_def goal_is_closed_def and_then_eq_Inr\<close>)

interpretation goal_end: settles goal_apply goal_abandoned goal_closing
proof unfold_locales
  fix c g g'
  assume step: "goal_apply c g = Inr g'" and "goal_abandoned g"
  then have g: "goal_ok g" "goal_verdict g = Some GoalVerdict.Abandoned"
    by (auto simp: goal_abandoned_def)
  from abandoned_step [OF step g] goal_apply_ok [OF step g(1)]
  show "goal_abandoned g'" "goal_closing g' = goal_closing g"
    using g(2) by (auto simp: goal_abandoned_def goal_closing_def)
qed

section \<open>Properties\<close>

definition example_goal :: Goal where
  "example_goal = projr (goal_new (GoalId 3) \<lparr>newg_title = ''Faster claims'',
    newg_description = '''', newg_acceptance = '''', newg_constraints = '''', newg_doc = Some '' '',
    newg_draft = True, newg_priority = Some High, newg_tags = [GoalTag ''throughput'']\<rparr> ''t0'')"

definition example_abandoned :: Goal where
  "example_abandoned = example_goal\<lparr>goal_verdict := Some GoalVerdict.Abandoned,
    goal_closed_at := Some ''t1''\<rparr>"

text \<open>C27. Every goal the constructors build, after any sequence of accepted commands, has a
  positive ID, a title that is not blank, each tag once, and a close time exactly when it has
  a verdict.\<close>

theorem goal_life_ok:
  assumes "(\<exists>i new at. goal_new i new at = Inr g) \<or> (\<exists>r. goal_restore r = Inr g)"
    and "goal_runs g cs g'"
  shows "goal_ok g'"
  using assms goal_new_ok goal_restore_ok goal_life.life_ok [OF assms(2)] by (auto simp: list_all_iff)

theorem goal_life_ok_witness: "goal_ok (example_goal\<lparr>goal_status := GoalStatus.Open\<rparr>)"
proof -
  have "goal_new (GoalId 3) \<lparr>newg_title = ''Faster claims'',
      newg_description = '''', newg_acceptance = '''', newg_constraints = '''', newg_doc = Some '' '',
      newg_draft = True, newg_priority = Some High, newg_tags = [GoalTag ''throughput'']\<rparr> ''t0''
    = Inr example_goal"
    by code_simp
  moreover have "goal_apply GoalReady example_goal = Inr (example_goal\<lparr>goal_status := GoalStatus.Open\<rparr>)"
    by code_simp
  then have "goal_runs example_goal [GoalReady] (example_goal\<lparr>goal_status := GoalStatus.Open\<rparr>)"
    by (simp add: life_iff_live)
  ultimately show ?thesis using goal_life_ok by blast
qed



text \<open>C26. Exactly when the store's close of a goal is accepted: the goal is open, every one of
  its tasks and of the tasks its replaced ones reach is in a status the verdict allows (ended
  for achieved, not in progress for abandoned), and an achieved goal has no unsettled follow-up
  and no broken replacement record.\<close>

theorem close_goal_accepted_iff:
  "(\<exists>closed. close_goal_in g v rows replacing follow_ups unresolved now = Inr closed) \<longleftrightarrow>
    \<not> goal_is_closed g
    \<and> (\<forall>(s, n) \<in> set rows. n > 0 \<longrightarrow> GoalVerdict_allows v s)
    \<and> (\<forall>(t, s) \<in> set replacing. GoalVerdict_allows v s)
    \<and> (v = GoalVerdict.Achieved \<longrightarrow>
        (\<forall>f \<in> set follow_ups. unsettled_reason f = None) \<and> unresolved = [])"
proof -
  have held: "close_blocking v (foldl (\<lambda>held (_, status). TaskStatusCounts_count held status 1)
        (task_counts rows) replacing) = []
      \<longleftrightarrow> (\<forall>(s, n) \<in> set rows. n > 0 \<longrightarrow> GoalVerdict_allows v s)
        \<and> (\<forall>(t, s) \<in> set replacing. GoalVerdict_allows v s)"
    unfolding close_blocking_Nil held_pos by (auto simp: Ball_def)
  show ?thesis
    unfolding close_goal_in_def goal_close_def check_follow_ups_def check_replacements_def Let_def
    by (simp add: and_then_eq_Inr goal_require_open_def unsettled_follow_ups_Nil held
        del: One_nat_def)
qed

theorem close_goal_accepted_iff_witness:
  "\<exists>closed. close_goal_in example_goal GoalVerdict.Achieved
     [(TaskStatus.Completed, 2), (TaskStatus.Replaced, 1)] [(TaskId 9, TaskStatus.Canceled)]
     [\<lparr>follow_task = TaskId 5, follow_status = TaskStatus.Draft, follow_in_goal = False,
       follow_judgement = Some (1, MembershipClassification.OutOfScope, False)\<rparr>] [] ''t2'' = Inr closed"
  unfolding close_goal_accepted_iff by code_simp

text \<open>\<open>goal list\<close> shows exactly the goals that carry one of the tags asked for (all of them
  when none is), each as often as given, the unclosed before the closed, each part from the
  highest priority down and then by ID.\<close>

theorem goal_list_order:
  "mset (goal_list goals tags)
      = mset (filter (\<lambda>g. tags = [] \<or> (\<exists>t. t \<in> set tags \<and> t \<in> set (summary_tags g))) goals)
    \<and> sorted_wrt (\<lambda>a b. summary_closed a < summary_closed b
        \<or> summary_closed a = summary_closed b
          \<and> (summary_priority b < summary_priority a
             \<or> summary_priority a = summary_priority b \<and> summary_id a \<le> summary_id b))
      (goal_list goals tags)"
proof
  have "filter (\<lambda>g. list_ex (\<lambda>t. t \<in> set tags) (summary_tags g)) goals
      = filter (\<lambda>g. \<exists>t. t \<in> set tags \<and> t \<in> set (summary_tags g)) goals"
    by (rule filter_cong) (auto simp: list_ex_iff)
  then show "mset (goal_list goals tags)
      = mset (filter (\<lambda>g. tags = [] \<or> (\<exists>t. t \<in> set tags \<and> t \<in> set (summary_tags g))) goals)"
    by (simp add: goal_list_def)
next
  let ?key = "\<lambda>g. (summary_closed g, Reverse (summary_priority g), summary_id g)"
  have "sorted (map ?key (goal_list goals tags))"
    by (simp add: goal_list_def)
  then show "sorted_wrt (\<lambda>a b. summary_closed a < summary_closed b
        \<or> summary_closed a = summary_closed b
          \<and> (summary_priority b < summary_priority a
             \<or> summary_priority a = summary_priority b \<and> summary_id a \<le> summary_id b))
      (goal_list goals tags)"
    unfolding sorted_map by (rule sorted_wrt_mono_rel [rotated]) (auto simp: less_eq_prod_simp)
qed

end
