(* ===== verification/Run_Aggregate.thy ===== *)
theory Run_Aggregate
  imports Task_Aggregate Lives
begin

text \<open>
  The run aggregate: \<^verbatim>\<open>src/domain/run.rs\<close>, one attempt at a task from its claim to its landing,
  with its inputs \<open>RunRecord\<close> and \<open>RunPlan\<close> of \<^verbatim>\<open>src/domain/input.rs\<close> and \<open>CommitSha::parse\<close> of
  \<^verbatim>\<open>src/domain/ids.rs\<close>.

  Each command takes the run and returns it changed, or refuses with the status it found and
  the operation. \<open>RunCommand\<close> names every command and \<open>run_runs\<close> is any sequence of accepted
  ones. Shown: the invariant \<open>run_ok\<close> of every reachable run, the exact edges of the state
  diagram (\<open>run_edge\<close>), that a landed, satisfied or replaced run never moves again, what the
  landing records, that every run at rest can still come to an end, and the replay of the
  workspaces a run opened.
\<close>

section \<open>Commits\<close>

definition hex_digits :: string where
  "hex_digits = ''0123456789abcdefABCDEF''"

definition CommitSha_parse :: "string \<Rightarrow> string \<Rightarrow> CommitSha result" where
  "CommitSha_parse commit field =
    (if (length commit = 40 \<or> length commit = 64) \<and> list_all (\<lambda>c. c \<in> set hex_digits) commit
     then Inr (CommitSha commit)
     else Inl (InvalidCommit field))"

text \<open>\<open>str::to_ascii_lowercase\<close>, byte by byte.\<close>

definition to_ascii_lowercase :: "string \<Rightarrow> string" where
  "to_ascii_lowercase s =
    map (\<lambda>c. if 65 \<le> (of_char c :: nat) \<and> (of_char c :: nat) \<le> 90
      then char_of ((of_char c :: nat) + 32) else c) s"

section \<open>The run\<close>

record RunRecord =
  rrec_id :: RunId
  rrec_task_id :: TaskId
  rrec_status :: RunStatus
  rrec_requested_provider :: Provider
  rrec_actual_provider :: Provider
  rrec_worker_mode :: WorkerMode
  rrec_base_commit :: CommitSha
  rrec_branch :: "string option"
  rrec_worktree_path :: "string option"
  rrec_workspace_id :: "string option"
  rrec_receipt_path :: "string option"
  rrec_log_path :: "string option"
  rrec_result_commit :: "CommitSha option"
  rrec_repo_path :: "string option"
  rrec_run_dir :: "string option"
  rrec_last_error :: "string option"
  rrec_workspace_closed_at :: "int option"
  rrec_created_at :: string

record RunPlan =
  plan_repo_path :: string
  plan_run_dir :: string
  plan_branch :: string
  plan_worktree_path :: string
  plan_receipt_path :: string
  plan_log_path :: string

record TaskRun =
  run_id :: RunId
  run_task_id :: TaskId
  run_status :: RunStatus
  run_requested_provider :: Provider
  run_actual_provider :: Provider
  run_worker_mode :: WorkerMode
  run_base_commit :: CommitSha
  run_branch :: "string option"
  run_worktree_path :: "string option"
  run_workspace_id :: "string option"
  run_receipt_path :: "string option"
  run_log_path :: "string option"
  run_result_commit :: "CommitSha option"
  run_repo_path :: "string option"
  run_run_dir :: "string option"
  run_last_error :: "string option"
  run_workspace_closed_at :: "int option"
  run_created_at :: string

definition run_new :: "RunId \<Rightarrow> Task \<Rightarrow> CommitSha \<Rightarrow> string \<Rightarrow> TaskRun result" where
  "run_new i t base_commit claimed_at =
    and_then (require (task_status t = TaskStatus.InProgress)
      (RunOfUnclaimedTask (task_id t) (task_status t))) (\<lambda>_.
    and_then (CommitSha_parse (to_ascii_lowercase (commit_as_str base_commit)) ''base commit'') (\<lambda>base.
    Inr \<lparr>run_id = i,
      run_task_id = task_id t,
      run_status = RunStatus.Claimed,
      run_requested_provider = worker_provider (task_worker t),
      run_actual_provider = worker_provider (task_worker t),
      run_worker_mode = worker_mode (task_worker t),
      run_base_commit = base,
      run_branch = None,
      run_worktree_path = None,
      run_workspace_id = None,
      run_receipt_path = None,
      run_log_path = None,
      run_result_commit = None,
      run_repo_path = None,
      run_run_dir = None,
      run_last_error = None,
      run_workspace_closed_at = None,
      run_created_at = claimed_at\<rparr>))"

definition run_restore :: "RunRecord \<Rightarrow> TaskRun result" where
  "run_restore r =
    and_then (require (rrec_status r \<noteq> RunStatus.Integrated \<or> rrec_result_commit r \<noteq> None)
      (RunInconsistent (rrec_id r) ''is integrated without a result commit'')) (\<lambda>_.
    Inr \<lparr>run_id = rrec_id r,
      run_task_id = rrec_task_id r,
      run_status = rrec_status r,
      run_requested_provider = rrec_requested_provider r,
      run_actual_provider = rrec_actual_provider r,
      run_worker_mode = rrec_worker_mode r,
      run_base_commit = rrec_base_commit r,
      run_branch = rrec_branch r,
      run_worktree_path = rrec_worktree_path r,
      run_workspace_id = rrec_workspace_id r,
      run_receipt_path = rrec_receipt_path r,
      run_log_path = rrec_log_path r,
      run_result_commit = rrec_result_commit r,
      run_repo_path = rrec_repo_path r,
      run_run_dir = rrec_run_dir r,
      run_last_error = rrec_last_error r,
      run_workspace_closed_at = rrec_workspace_closed_at r,
      run_created_at = rrec_created_at r\<rparr>)"

definition run_requesting :: "TaskRun \<Rightarrow> Worker \<Rightarrow> TaskRun" where
  "run_requesting r w = r\<lparr>run_requested_provider := worker_provider w,
    run_actual_provider := worker_provider w, run_worker_mode := worker_mode w\<rparr>"

definition run_running_on :: "TaskRun \<Rightarrow> Worker \<Rightarrow> TaskRun" where
  "run_running_on r w = r\<lparr>run_actual_provider := worker_provider w, run_worker_mode := worker_mode w\<rparr>"

definition require_status :: "TaskRun \<Rightarrow> RunStatus list \<Rightarrow> string \<Rightarrow> unit result" where
  "require_status r allowed operation =
    require (run_status r \<in> set allowed) (RunTransitionNotAllowed (run_status r) operation)"

definition UNFINISHED :: "RunStatus list" where
  "UNFINISHED = [RunStatus.Claimed, RunStatus.Starting, RunStatus.Running, RunStatus.Validating,
    RunStatus.Integrating]"

section \<open>Commands: provisioning and session\<close>

definition run_start_provisioning :: "TaskRun \<Rightarrow> RunPlan \<Rightarrow> TaskRun result" where
  "run_start_provisioning r plan =
    and_then (require_status r [RunStatus.Claimed] ''provision'') (\<lambda>_.
    Inr (r\<lparr>run_status := RunStatus.Starting,
      run_repo_path := Some (plan_repo_path plan),
      run_run_dir := Some (plan_run_dir plan),
      run_branch := Some (plan_branch plan),
      run_worktree_path := Some (plan_worktree_path plan),
      run_receipt_path := Some (plan_receipt_path plan),
      run_log_path := Some (plan_log_path plan)\<rparr>))"

definition run_attach_workspace :: "TaskRun \<Rightarrow> string \<Rightarrow> TaskRun result" where
  "run_attach_workspace r workspace =
    and_then (require_status r [RunStatus.Starting] ''attach a workspace to'') (\<lambda>_.
    and_then (require (run_workspace_id r = None)
      (RunTransitionNotAllowed (run_status r) ''attach a second workspace to'')) (\<lambda>_.
    Inr (r\<lparr>run_workspace_id := Some workspace\<rparr>)))"

definition run_check_reopenable :: "TaskRun \<Rightarrow> unit result" where
  "run_check_reopenable r = require_status r [RunStatus.Running] ''reopen the session of''"

definition run_reopen_workspace :: "TaskRun \<Rightarrow> string \<Rightarrow> TaskRun result" where
  "run_reopen_workspace r workspace =
    and_then (run_check_reopenable r) (\<lambda>_.
    Inr (r\<lparr>run_workspace_id := Some workspace, run_workspace_closed_at := None\<rparr>))"

definition run_check_ready_for_wrapper :: "TaskRun \<Rightarrow> unit result" where
  "run_check_ready_for_wrapper r =
    and_then (require_status r [RunStatus.Starting] ''start the wrapper of'') (\<lambda>_.
    require (run_workspace_id r \<noteq> None)
      (RunTransitionNotAllowed (run_status r) ''start the wrapper without a workspace of''))"

definition run_mark_running :: "TaskRun \<Rightarrow> TaskRun result" where
  "run_mark_running r =
    and_then (require_status r [RunStatus.Starting] ''mark running'') (\<lambda>_.
    Inr (r\<lparr>run_status := RunStatus.Running\<rparr>))"

definition session_end_status :: "int option \<Rightarrow> bool \<Rightarrow> RunStatus" where
  "session_end_status exit_code receipt = (case exit_code of
     Some code \<Rightarrow> if code \<noteq> 0 \<and> \<not> receipt then RunStatus.Failed else RunStatus.Validating
   | None \<Rightarrow> RunStatus.Validating)"

definition run_finish_session :: "TaskRun \<Rightarrow> int option \<Rightarrow> bool \<Rightarrow> TaskRun result" where
  "run_finish_session r exit_code receipt =
    and_then (require_status r [RunStatus.Starting, RunStatus.Running] ''finish the session of'') (\<lambda>_.
    (let r = r\<lparr>run_status := session_end_status exit_code receipt\<rparr>
     in Inr (case (run_status r, exit_code) of
         (RunStatus.Failed, Some code) \<Rightarrow>
           r\<lparr>run_last_error := Some (''session exited with code '' @ show_int code)\<rparr>
       | _ \<Rightarrow> r)))"

section \<open>Commands: validation\<close>

definition run_accept :: "TaskRun \<Rightarrow> CommitSha \<Rightarrow> TaskRun result" where
  "run_accept r result_commit =
    and_then (require_status r [RunStatus.Validating] ''accept'') (\<lambda>_.
    Inr (r\<lparr>run_status := RunStatus.AwaitingIntegration, run_result_commit := Some result_commit\<rparr>))"

definition run_reject ::
  "TaskRun \<Rightarrow> CommitSha option \<Rightarrow> string option \<Rightarrow> bool \<Rightarrow> TaskRun result" where
  "run_reject r result_commit reason resumable =
    and_then (require_status r [RunStatus.Validating] ''reject'') (\<lambda>_.
    Inr (r\<lparr>run_status := (if resumable then RunStatus.NeedsSession else RunStatus.Failed),
      run_result_commit := result_commit,
      run_last_error := (if reason \<noteq> None then reason else run_last_error r)\<rparr>))"

definition run_close_satisfied :: "TaskRun \<Rightarrow> TaskRun result" where
  "run_close_satisfied r =
    and_then (require_status r [RunStatus.Validating] ''close as already satisfied'') (\<lambda>_.
    Inr (r\<lparr>run_status := RunStatus.Succeeded, run_result_commit := None\<rparr>))"

definition run_decide_satisfied :: "TaskRun \<Rightarrow> string \<Rightarrow> TaskRun result" where
  "run_decide_satisfied r reason =
    and_then (require_status r [RunStatus.Validating] ''decide the already_satisfied claim of'') (\<lambda>_.
    Inr (r\<lparr>run_status := RunStatus.Failed, run_last_error := Some reason\<rparr>))"

definition run_restart_validation :: "TaskRun \<Rightarrow> TaskRun result" where
  "run_restart_validation r =
    and_then (require_status r [RunStatus.AwaitingIntegration] ''validate again'') (\<lambda>_.
    Inr (r\<lparr>run_status := RunStatus.Validating\<rparr>))"

section \<open>Commands: parking\<close>

definition run_decide_landing :: "TaskRun \<Rightarrow> RunStatus \<Rightarrow> string \<Rightarrow> TaskRun result" where
  "run_decide_landing r to reason =
    and_then (require_status r [RunStatus.AwaitingIntegration] ''decide the landing of'') (\<lambda>_.
    and_then (require (to = RunStatus.NeedsSession \<or> to = RunStatus.Failed)
      (RunTransitionNotAllowed (run_status r)
        ''decide a landing other than a send-back or a cancel for'')) (\<lambda>_.
    Inr (r\<lparr>run_status := to, run_last_error := Some reason\<rparr>)))"

definition run_park_after_recheck :: "TaskRun \<Rightarrow> string \<Rightarrow> TaskRun result" where
  "run_park_after_recheck r reason =
    and_then (require_status r [RunStatus.AwaitingIntegration] ''park after a landing recheck'') (\<lambda>_.
    Inr (r\<lparr>run_status := RunStatus.NeedsSession, run_last_error := Some reason\<rparr>))"

definition run_park_after_e2e :: "TaskRun \<Rightarrow> string \<Rightarrow> TaskRun result" where
  "run_park_after_e2e r reason =
    and_then (require_status r [RunStatus.AwaitingIntegration] ''park after a failed e2e'') (\<lambda>_.
    Inr (r\<lparr>run_status := RunStatus.NeedsSession, run_last_error := Some reason\<rparr>))"

definition run_park_live :: "TaskRun \<Rightarrow> string \<Rightarrow> TaskRun result" where
  "run_park_live r reason =
    and_then (require_status r [RunStatus.Running] ''park a live session'') (\<lambda>_.
    Inr (r\<lparr>run_status := RunStatus.NeedsSession, run_last_error := Some reason\<rparr>))"

definition run_park_for_replan :: "TaskRun \<Rightarrow> string \<Rightarrow> TaskRun result" where
  "run_park_for_replan r reason =
    and_then (require_status r [RunStatus.Claimed, RunStatus.Starting, RunStatus.Running,
        RunStatus.Validating, RunStatus.AwaitingIntegration, RunStatus.NeedsSession,
        RunStatus.Failed, RunStatus.Interrupted] ''park for a replanning'') (\<lambda>_.
    Inr (r\<lparr>run_status := RunStatus.NeedsSession, run_last_error := Some reason\<rparr>))"

definition run_park_for_hold :: "TaskRun \<Rightarrow> string \<Rightarrow> TaskRun result" where
  "run_park_for_hold r reason =
    and_then (require_status r [RunStatus.Claimed, RunStatus.Starting, RunStatus.Running,
        RunStatus.Validating, RunStatus.AwaitingIntegration, RunStatus.NeedsSession]
        ''park for a hold'') (\<lambda>_.
    Inr (r\<lparr>run_status := RunStatus.NeedsSession, run_last_error := Some reason\<rparr>))"

definition run_end_for_replacement :: "TaskRun \<Rightarrow> TaskRun result" where
  "run_end_for_replacement r =
    and_then (require_status r [RunStatus.NeedsSession] ''end for a replacement'') (\<lambda>_.
    Inr (r\<lparr>run_status := RunStatus.Replaced\<rparr>))"

definition run_end_for_release :: "TaskRun \<Rightarrow> string \<Rightarrow> TaskRun result" where
  "run_end_for_release r reason =
    and_then (require_status r [RunStatus.Validating, RunStatus.AwaitingIntegration,
        RunStatus.NeedsSession, RunStatus.Failed, RunStatus.Interrupted] ''end for a release'') (\<lambda>_.
    Inr (r\<lparr>run_status := RunStatus.Failed, run_last_error := Some reason\<rparr>))"

definition run_abandon :: "TaskRun \<Rightarrow> string \<Rightarrow> TaskRun result" where
  "run_abandon r message = Inr (r\<lparr>run_last_error := Some message\<rparr>)"

definition run_interrupt :: "TaskRun \<Rightarrow> TaskRun result" where
  "run_interrupt r =
    (if run_status r = RunStatus.AwaitingIntegration then Inr r
     else and_then (require_status r UNFINISHED ''recover'') (\<lambda>_.
       Inr (r\<lparr>run_status := (if run_status r = RunStatus.Integrating
         then RunStatus.AwaitingIntegration else RunStatus.Interrupted)\<rparr>)))"

section \<open>Commands: integration\<close>

definition run_begin_integration :: "TaskRun \<Rightarrow> TaskRun result" where
  "run_begin_integration r =
    and_then (require_status r [RunStatus.AwaitingIntegration, RunStatus.NeedsSession]
      ''integrate'') (\<lambda>_.
    Inr (r\<lparr>run_status := RunStatus.Integrating\<rparr>))"

definition run_leave_integration ::
  "TaskRun \<Rightarrow> RunStatus \<Rightarrow> string \<Rightarrow> string \<Rightarrow> TaskRun result" where
  "run_leave_integration r to reason operation =
    and_then (require_status r [RunStatus.Integrating] operation) (\<lambda>_.
    Inr (r\<lparr>run_status := to, run_last_error := Some reason\<rparr>))"

definition run_defer_integration :: "TaskRun \<Rightarrow> string \<Rightarrow> TaskRun result" where
  "run_defer_integration r reason =
    run_leave_integration r RunStatus.NeedsSession reason ''defer the integration of''"

definition run_hold_integration :: "TaskRun \<Rightarrow> string \<Rightarrow> TaskRun result" where
  "run_hold_integration r reason =
    run_leave_integration r RunStatus.AwaitingIntegration reason ''hold the integration of''"

definition run_fail_integration :: "TaskRun \<Rightarrow> string \<Rightarrow> TaskRun result" where
  "run_fail_integration r reason =
    run_leave_integration r RunStatus.Failed reason ''fail the integration of''"

definition run_abort_integration :: "TaskRun \<Rightarrow> RunStatus \<Rightarrow> string \<Rightarrow> TaskRun result" where
  "run_abort_integration r revert_to message =
    and_then (require (revert_to = RunStatus.AwaitingIntegration \<or> revert_to = RunStatus.NeedsSession)
      (RunTransitionNotAllowed (run_status r)
        ''return to a status it could not have integrated from'')) (\<lambda>_.
    run_leave_integration r revert_to message ''abort the integration of'')"

definition run_hand_over_integration :: "TaskRun \<Rightarrow> RunStatus \<Rightarrow> TaskRun result" where
  "run_hand_over_integration r revert_to =
    and_then (require (revert_to = RunStatus.AwaitingIntegration \<or> revert_to = RunStatus.NeedsSession)
      (RunTransitionNotAllowed (run_status r)
        ''return to a status it could not have integrated from'')) (\<lambda>_.
    and_then (require_status r [RunStatus.Integrating] ''hand over the landing of'') (\<lambda>_.
    Inr (r\<lparr>run_status := revert_to\<rparr>)))"

definition run_finish_integration :: "TaskRun \<Rightarrow> CommitSha \<Rightarrow> TaskRun result" where
  "run_finish_integration r commit =
    and_then (require_status r [RunStatus.Integrating] ''finish the integration of'') (\<lambda>_.
    Inr (r\<lparr>run_status := RunStatus.Integrated, run_result_commit := Some commit,
      run_last_error := None\<rparr>))"

section \<open>Commands: resumes and triage\<close>

definition run_check_resumable :: "TaskRun \<Rightarrow> unit result" where
  "run_check_resumable r = require_status r [RunStatus.NeedsSession] ''resume''"

definition run_resolve_approved_resume :: "TaskRun \<Rightarrow> CommitSha \<Rightarrow> TaskRun result" where
  "run_resolve_approved_resume r head =
    and_then (require_status r [RunStatus.NeedsSession] ''resolve the resume of'') (\<lambda>_.
    Inr (r\<lparr>run_result_commit := Some head\<rparr>))"

definition run_skip_resume :: "TaskRun \<Rightarrow> CommitSha \<Rightarrow> bool \<Rightarrow> TaskRun result" where
  "run_skip_resume r head approved =
    and_then (run_check_resumable r) (\<lambda>_.
    if approved then run_resolve_approved_resume r head
    else Inr (r\<lparr>run_status := RunStatus.Validating\<rparr>))"

definition run_finish_resume :: "TaskRun \<Rightarrow> RunStatus \<Rightarrow> string option \<Rightarrow> TaskRun result" where
  "run_finish_resume r to reason =
    and_then (require_status r [RunStatus.NeedsSession] ''finish the resume of'') (\<lambda>_.
    and_then (require (to = RunStatus.Validating \<or> to = RunStatus.AwaitingIntegration
        \<or> to = RunStatus.Failed)
      (RunTransitionNotAllowed (run_status r)
        ''end a resume in a status a session cannot reach for'')) (\<lambda>_.
    Inr (r\<lparr>run_status := to,
      run_last_error := (if reason \<noteq> None then reason else run_last_error r)\<rparr>)))"

definition run_exhaust_resumes :: "TaskRun \<Rightarrow> string \<Rightarrow> TaskRun result" where
  "run_exhaust_resumes r reason =
    and_then (run_check_resumable r) (\<lambda>_.
    Inr (r\<lparr>run_status := RunStatus.Failed, run_last_error := Some reason\<rparr>))"

definition run_check_triageable :: "TaskRun \<Rightarrow> unit result" where
  "run_check_triageable r = require_status r [RunStatus.Failed, RunStatus.Interrupted] ''triage''"

definition run_resume_after_triage :: "TaskRun \<Rightarrow> string \<Rightarrow> TaskRun result" where
  "run_resume_after_triage r instruction =
    and_then (run_check_triageable r) (\<lambda>_.
    Inr (r\<lparr>run_status := RunStatus.NeedsSession, run_last_error := Some instruction\<rparr>))"

definition run_hand_off_after_triage :: "TaskRun \<Rightarrow> TaskRun result" where
  "run_hand_off_after_triage r =
    and_then (require_status r [RunStatus.Failed] ''hand off'') (\<lambda>_.
    Inr (r\<lparr>run_status := RunStatus.Validating, run_result_commit := None,
      run_last_error := None\<rparr>))"

section \<open>Commands: workspaces\<close>

definition require_open_workspace_at_rest :: "TaskRun \<Rightarrow> string \<Rightarrow> unit result" where
  "require_open_workspace_at_rest r operation =
    and_then (require_status r [RunStatus.AwaitingIntegration, RunStatus.NeedsSession,
      RunStatus.Validating] operation) (\<lambda>_.
    require (run_workspace_closed_at r = None) (RunTransitionNotAllowed (run_status r) operation))"

definition run_workspace_closed :: "TaskRun \<Rightarrow> int \<Rightarrow> TaskRun result" where
  "run_workspace_closed r closed_at =
    and_then (require_open_workspace_at_rest r ''close the workspace of'') (\<lambda>_.
    and_then (require (run_workspace_id r \<noteq> None)
      (RunTransitionNotAllowed (run_status r) ''close the workspace it never had of'')) (\<lambda>_.
    Inr (r\<lparr>run_workspace_closed_at := Some closed_at\<rparr>)))"

definition run_record_closed_workspace :: "TaskRun \<Rightarrow> string \<Rightarrow> int \<Rightarrow> TaskRun result" where
  "run_record_closed_workspace r workspace closed_at =
    Inr (if run_workspace_id r = Some workspace \<and> run_workspace_closed_at r = None
      then r\<lparr>run_workspace_closed_at := Some closed_at\<rparr> else r)"

definition run_record_close_failure :: "TaskRun \<Rightarrow> string \<Rightarrow> TaskRun result" where
  "run_record_close_failure r message =
    and_then (require_open_workspace_at_rest r ''record a failed close of the workspace of'') (\<lambda>_.
    Inr (r\<lparr>run_last_error := Some message\<rparr>))"

definition run_record_cleanup_failure :: "TaskRun \<Rightarrow> string \<Rightarrow> TaskRun result" where
  "run_record_cleanup_failure r message = Inr (r\<lparr>run_last_error := Some message\<rparr>)"

section \<open>The workspaces a run opened\<close>

record RunWorkspace =
  rw_workspace_id :: string
  rw_resume_attempt :: "nat option"
  rw_closed :: bool

text \<open>What the replay reads of a run event: its kind, and of its payload the text at
  \<open>workspace_id\<close>, whether \<open>workspace_closed\<close> is true, and the numbers at \<open>resume_attempt\<close> and
  \<open>attempt\<close> (\<open>Some None\<close> for a value there that is no number).\<close>

datatype WorkspaceEventKind = WorkspaceCreated | ResumeFinished | WorkspaceClosed | OtherEvent

record WorkspaceEvent =
  wev_kind :: WorkspaceEventKind
  wev_workspace_id :: "string option"
  wev_workspace_closed :: bool
  wev_resume_attempt :: "nat option option"
  wev_attempt :: "nat option option"

definition wev_number :: "WorkspaceEvent \<Rightarrow> nat option" where
  "wev_number e = (case wev_resume_attempt e of
     Some n \<Rightarrow> n
   | None \<Rightarrow> (case wev_attempt e of Some n \<Rightarrow> n | None \<Rightarrow> None))"

definition replay_workspace :: "RunWorkspace list \<Rightarrow> WorkspaceEvent \<Rightarrow> RunWorkspace list" where
  "replay_workspace ws e = (case wev_workspace_id e of
     None \<Rightarrow> ws
   | Some w \<Rightarrow>
       (let known = position (\<lambda>x. rw_workspace_id x = w) ws in
        if wev_kind e = WorkspaceCreated \<or> wev_kind e = ResumeFinished then
          (let closed = (wev_kind e = ResumeFinished \<and> wev_workspace_closed e) in
           case known of
             Some index \<Rightarrow> ws[index := (ws ! index)\<lparr>rw_closed := rw_closed (ws ! index) \<or> closed\<rparr>]
           | None \<Rightarrow> ws @ [\<lparr>rw_workspace_id = w, rw_resume_attempt = wev_number e, rw_closed = closed\<rparr>])
        else if wev_kind e = WorkspaceClosed then
          (case known of
             Some index \<Rightarrow> ws[index := (ws ! index)\<lparr>rw_closed := True\<rparr>]
           | None \<Rightarrow> ws)
        else ws))"

definition run_workspaces :: "TaskRun \<Rightarrow> WorkspaceEvent list \<Rightarrow> RunWorkspace list" where
  "run_workspaces r events =
    foldl replay_workspace
      (case run_workspace_id r of
         Some w \<Rightarrow> [\<lparr>rw_workspace_id = w, rw_resume_attempt = None,
           rw_closed = (run_workspace_closed_at r \<noteq> None)\<rparr>]
       | None \<Rightarrow> [])
      events"

section \<open>Any sequence of commands\<close>

datatype RunCommand =
  Requesting Worker
| RunningOn Worker
| StartProvisioning RunPlan
| AttachWorkspace string
| ReopenWorkspace string
| MarkRunning
| FinishSession "int option" bool
| Accept CommitSha
| Reject "CommitSha option" "string option" bool
| CloseSatisfied
| DecideSatisfied string
| RestartValidation
| DecideLanding RunStatus string
| ParkAfterRecheck string
| ParkAfterE2e string
| ParkLive string
| ParkForReplan string
| ParkForHold string
| EndForReplacement
| EndForRelease string
| Abandon string
| InterruptRun
| BeginIntegration
| DeferIntegration string
| HoldIntegration string
| FailIntegration string
| AbortIntegration RunStatus string
| HandOverIntegration RunStatus
| FinishIntegration CommitSha
| SkipResume CommitSha bool
| ResolveApprovedResume CommitSha
| FinishResume RunStatus "string option"
| ExhaustResumes string
| ResumeAfterTriage string
| HandOffAfterTriage
| CloseWorkspace int
| RecordClosedWorkspace string int
| RecordCloseFailure string
| RecordCleanupFailure string

primrec run_apply :: "RunCommand \<Rightarrow> TaskRun \<Rightarrow> TaskRun result" where
  "run_apply (Requesting w) r = Inr (run_requesting r w)"
| "run_apply (RunningOn w) r = Inr (run_running_on r w)"
| "run_apply (StartProvisioning plan) r = run_start_provisioning r plan"
| "run_apply (AttachWorkspace w) r = run_attach_workspace r w"
| "run_apply (ReopenWorkspace w) r = run_reopen_workspace r w"
| "run_apply MarkRunning r = run_mark_running r"
| "run_apply (FinishSession code receipt) r = run_finish_session r code receipt"
| "run_apply (Accept commit) r = run_accept r commit"
| "run_apply (Reject commit reason resumable) r = run_reject r commit reason resumable"
| "run_apply CloseSatisfied r = run_close_satisfied r"
| "run_apply (DecideSatisfied reason) r = run_decide_satisfied r reason"
| "run_apply RestartValidation r = run_restart_validation r"
| "run_apply (DecideLanding to reason) r = run_decide_landing r to reason"
| "run_apply (ParkAfterRecheck reason) r = run_park_after_recheck r reason"
| "run_apply (ParkAfterE2e reason) r = run_park_after_e2e r reason"
| "run_apply (ParkLive reason) r = run_park_live r reason"
| "run_apply (ParkForReplan reason) r = run_park_for_replan r reason"
| "run_apply (ParkForHold reason) r = run_park_for_hold r reason"
| "run_apply EndForReplacement r = run_end_for_replacement r"
| "run_apply (EndForRelease reason) r = run_end_for_release r reason"
| "run_apply (Abandon message) r = run_abandon r message"
| "run_apply InterruptRun r = run_interrupt r"
| "run_apply BeginIntegration r = run_begin_integration r"
| "run_apply (DeferIntegration reason) r = run_defer_integration r reason"
| "run_apply (HoldIntegration reason) r = run_hold_integration r reason"
| "run_apply (FailIntegration reason) r = run_fail_integration r reason"
| "run_apply (AbortIntegration to message) r = run_abort_integration r to message"
| "run_apply (HandOverIntegration to) r = run_hand_over_integration r to"
| "run_apply (FinishIntegration commit) r = run_finish_integration r commit"
| "run_apply (SkipResume head approved) r = run_skip_resume r head approved"
| "run_apply (ResolveApprovedResume head) r = run_resolve_approved_resume r head"
| "run_apply (FinishResume to reason) r = run_finish_resume r to reason"
| "run_apply (ExhaustResumes reason) r = run_exhaust_resumes r reason"
| "run_apply (ResumeAfterTriage instruction) r = run_resume_after_triage r instruction"
| "run_apply HandOffAfterTriage r = run_hand_off_after_triage r"
| "run_apply (CloseWorkspace closed_at) r = run_workspace_closed r closed_at"
| "run_apply (RecordClosedWorkspace w closed_at) r = run_record_closed_workspace r w closed_at"
| "run_apply (RecordCloseFailure message) r = run_record_close_failure r message"
| "run_apply (RecordCleanupFailure message) r = run_record_cleanup_failure r message"

abbreviation run_runs :: "TaskRun \<Rightarrow> RunCommand list \<Rightarrow> TaskRun \<Rightarrow> bool" where
  "run_runs \<equiv> life run_apply"

section \<open>The state diagram\<close>

text \<open>The edges of the diagram of \<^verbatim>\<open>docs/design/domain-model.md\<close>, as the commands draw them.\<close>

primrec run_next :: "RunStatus \<Rightarrow> RunStatus set" where
  "run_next RunStatus.Claimed = {RunStatus.Starting, RunStatus.NeedsSession, RunStatus.Interrupted}"
| "run_next RunStatus.Starting = {RunStatus.Running, RunStatus.Validating, RunStatus.Failed,
    RunStatus.NeedsSession, RunStatus.Interrupted}"
| "run_next RunStatus.Running = {RunStatus.Validating, RunStatus.Failed, RunStatus.NeedsSession,
    RunStatus.Interrupted}"
| "run_next RunStatus.Validating = {RunStatus.AwaitingIntegration, RunStatus.NeedsSession,
    RunStatus.Failed, RunStatus.Succeeded, RunStatus.Interrupted}"
| "run_next RunStatus.AwaitingIntegration = {RunStatus.Validating, RunStatus.NeedsSession,
    RunStatus.Failed, RunStatus.Integrating}"
| "run_next RunStatus.Integrating = {RunStatus.Integrated, RunStatus.NeedsSession,
    RunStatus.AwaitingIntegration, RunStatus.Failed}"
| "run_next RunStatus.NeedsSession = {RunStatus.Integrating, RunStatus.Validating,
    RunStatus.AwaitingIntegration, RunStatus.Failed, RunStatus.Replaced}"
| "run_next RunStatus.Integrated = {}"
| "run_next RunStatus.Succeeded = {}"
| "run_next RunStatus.Failed = {RunStatus.NeedsSession, RunStatus.Validating}"
| "run_next RunStatus.Interrupted = {RunStatus.NeedsSession, RunStatus.Failed}"
| "run_next RunStatus.Replaced = {}"

lemma finish_session_accepted:
  "run_finish_session r code receipt = Inr r' \<longleftrightarrow>
    run_status r \<in> {RunStatus.Starting, RunStatus.Running}
    \<and> r' = r\<lparr>run_status := session_end_status code receipt,
        run_last_error := (if session_end_status code receipt = RunStatus.Failed
          then Some (''session exited with code '' @ show_int (the code)) else run_last_error r)\<rparr>"
  by (cases code)
    (auto simp: run_finish_session_def require_status_def session_end_status_def and_then_eq_Inr)

lemma session_end_status_cases:
  "session_end_status code receipt = RunStatus.Validating
    \<or> session_end_status code receipt = RunStatus.Failed"
  by (simp add: session_end_status_def split: option.split)

lemma session_end_status_not [simp]:
  "session_end_status code receipt \<noteq> RunStatus.Integrated"
  "session_end_status code receipt \<noteq> RunStatus.Succeeded"
  "session_end_status code receipt \<noteq> RunStatus.Starting"
  "session_end_status code receipt \<noteq> RunStatus.Running"
  "session_end_status code receipt \<noteq> RunStatus.Integrating"
  using session_end_status_cases [of code receipt] by auto

lemmas run_command_defs =
  run_requesting_def run_running_on_def run_start_provisioning_def run_attach_workspace_def
  run_check_reopenable_def run_reopen_workspace_def run_mark_running_def
  run_accept_def run_reject_def run_close_satisfied_def run_decide_satisfied_def
  run_restart_validation_def run_decide_landing_def run_park_after_recheck_def
  run_park_after_e2e_def run_park_live_def run_park_for_replan_def run_park_for_hold_def
  run_end_for_replacement_def run_end_for_release_def run_abandon_def run_interrupt_def
  run_begin_integration_def run_leave_integration_def run_defer_integration_def
  run_hold_integration_def run_fail_integration_def run_abort_integration_def
  run_hand_over_integration_def run_finish_integration_def run_check_resumable_def
  run_resolve_approved_resume_def run_skip_resume_def run_finish_resume_def
  run_exhaust_resumes_def run_check_triageable_def run_resume_after_triage_def
  run_hand_off_after_triage_def require_open_workspace_at_rest_def run_workspace_closed_def
  run_record_closed_workspace_def run_record_close_failure_def run_record_cleanup_failure_def
  require_status_def UNFINISHED_def finish_session_accepted

lemma run_apply_edge:
  assumes "run_apply c r = Inr r'"
  shows "run_status r' = run_status r \<or> run_status r' \<in> run_next (run_status r)"
  using assms session_end_status_cases
  by (cases c; fastforce simp: run_command_defs and_then_eq_Inr split: if_splits)

text \<open>The identity of a run never changes.\<close>

definition run_identity :: "TaskRun \<Rightarrow> RunId \<times> TaskId \<times> CommitSha \<times> string" where
  "run_identity r = (run_id r, run_task_id r, run_base_commit r, run_created_at r)"

lemma run_apply_identity: "run_apply c r = Inr r' \<Longrightarrow> run_identity r' = run_identity r"
  by (cases c; auto simp: run_command_defs run_identity_def and_then_eq_Inr split: if_splits)

section \<open>The invariant of a run\<close>

text \<open>An integrated run names its landed commit, a satisfied one none, a run with a session or
  its files planned, a stopped session is one the run had, and the worker is one the runtime
  can run.\<close>

definition run_planned :: "TaskRun \<Rightarrow> bool" where
  "run_planned r \<longleftrightarrow> run_repo_path r \<noteq> None \<and> run_run_dir r \<noteq> None \<and> run_branch r \<noteq> None
    \<and> run_worktree_path r \<noteq> None \<and> run_receipt_path r \<noteq> None \<and> run_log_path r \<noteq> None"

definition run_commit_ok :: "TaskRun \<Rightarrow> bool" where
  "run_commit_ok r \<longleftrightarrow>
    (run_status r = RunStatus.Integrated \<longrightarrow> run_result_commit r \<noteq> None)
    \<and> (run_status r = RunStatus.Succeeded \<longrightarrow> run_result_commit r = None)"

definition run_session_ok :: "TaskRun \<Rightarrow> bool" where
  "run_session_ok r \<longleftrightarrow>
    (run_status r = RunStatus.Starting \<or> run_status r = RunStatus.Running \<or> run_workspace_id r \<noteq> None
      \<longrightarrow> run_planned r)
    \<and> (run_workspace_closed_at r \<noteq> None \<longrightarrow> run_workspace_id r \<noteq> None)"

definition run_worker_ok :: "TaskRun \<Rightarrow> bool" where
  "run_worker_ok r \<longleftrightarrow>
    worker_ok \<lparr>worker_provider = run_actual_provider r, worker_mode = run_worker_mode r\<rparr>"

definition run_ok :: "TaskRun \<Rightarrow> bool" where
  "run_ok r \<longleftrightarrow> run_commit_ok r \<and> run_session_ok r \<and> run_worker_ok r"

text \<open>A claim moves a run only to a worker the runtime can run.\<close>

definition run_command_ok :: "RunCommand \<Rightarrow> bool" where
  "run_command_ok c = (case c of Requesting w \<Rightarrow> worker_ok w | RunningOn w \<Rightarrow> worker_ok w | _ \<Rightarrow> True)"

lemma run_apply_commit_ok: "run_apply c r = Inr r' \<Longrightarrow> run_commit_ok r \<Longrightarrow> run_commit_ok r'"
  by (cases c; auto simp: run_command_defs run_commit_ok_def and_then_eq_Inr split: if_splits)

lemma run_apply_planned: "run_apply c r = Inr r' \<Longrightarrow> run_planned r \<Longrightarrow> run_planned r'"
  by (cases c; auto simp: run_command_defs run_planned_def and_then_eq_Inr split: if_splits)

lemma run_planned_plan [simp]:
  "run_planned (r\<lparr>run_status := s, run_repo_path := Some a, run_run_dir := Some b, run_branch := Some c,
    run_worktree_path := Some d, run_receipt_path := Some e, run_log_path := Some f\<rparr>)"
  by (simp add: run_planned_def)

lemma run_apply_session_ok: "run_apply c r = Inr r' \<Longrightarrow> run_session_ok r \<Longrightarrow> run_session_ok r'"
  using run_apply_planned [of c r r']
  by (cases c; auto simp: run_command_defs run_session_ok_def and_then_eq_Inr split: if_splits)

lemma run_apply_worker_ok:
  "run_apply c r = Inr r' \<Longrightarrow> run_worker_ok r \<Longrightarrow> run_command_ok c \<Longrightarrow> run_worker_ok r'"
  by (cases c; auto simp: run_command_defs run_worker_ok_def run_command_ok_def worker_ok_def
      and_then_eq_Inr split: if_splits)

section \<open>Lives\<close>

lemma run_apply_ok: "run_apply c r = Inr r' \<Longrightarrow> run_ok r \<Longrightarrow> run_command_ok c \<Longrightarrow> run_ok r'"
  by (simp add: run_ok_def run_apply_commit_ok run_apply_session_ok run_apply_worker_ok)

interpretation run_life: preserves run_apply run_ok run_command_ok
  by unfold_locales (rule run_apply_ok)

interpretation run_same: settles run_apply "\<lambda>_. True" run_identity
  by unfold_locales (simp_all add: run_apply_identity)

lemma to_ascii_lowercase_hex:
  "list_all (\<lambda>c. c \<in> set hex_digits) s \<Longrightarrow> list_all (\<lambda>c. c \<in> set hex_digits) (to_ascii_lowercase s)"
proof (induction s)
  case (Cons c s)
  have "\<forall>c \<in> set hex_digits. hd (to_ascii_lowercase [c]) \<in> set hex_digits" by code_simp
  with Cons show ?case by (simp add: to_ascii_lowercase_def)
qed (simp add: to_ascii_lowercase_def)

lemma CommitSha_parse_lowercase:
  assumes "CommitSha_parse s field = Inr c"
  shows "CommitSha_parse (to_ascii_lowercase (commit_as_str c)) field'
    = Inr (CommitSha (to_ascii_lowercase (commit_as_str c)))"
proof -
  have "length (to_ascii_lowercase x) = length x" for x by (simp add: to_ascii_lowercase_def)
  with assms to_ascii_lowercase_hex [of s] show ?thesis
    by (auto simp: CommitSha_parse_def split: if_splits)
qed

lemma run_new_ok: "run_new i t base at = Inr r \<Longrightarrow> worker_ok (task_worker t) \<Longrightarrow> run_ok r"
  by (auto simp: run_new_def run_ok_def run_commit_ok_def run_session_ok_def run_worker_ok_def
      worker_ok_def and_then_eq_Inr)

text \<open>The statuses nothing leaves.\<close>

definition run_final :: "RunStatus \<Rightarrow> bool" where
  "run_final s \<longleftrightarrow> run_next s = {}"

lemma run_final_iff: "run_final s \<longleftrightarrow> s = RunStatus.Integrated \<or> s = RunStatus.Succeeded \<or> s = RunStatus.Replaced"
  by (cases s) (simp_all add: run_final_def)

lemma final_apply:
  assumes "run_apply c r = Inr r'" "run_final (run_status r)"
  shows "run_status r' = run_status r \<and> run_result_commit r' = run_result_commit r"
proof
  show "run_status r' = run_status r"
    using run_apply_edge [OF assms(1)] assms(2) by (auto simp: run_final_def)
  show "run_result_commit r' = run_result_commit r"
    using assms unfolding run_final_iff
    by (cases c; auto simp: run_command_defs and_then_eq_Inr split: if_splits)
qed

interpretation run_end: settles run_apply "\<lambda>r. run_final (run_status r)"
    "\<lambda>r. (run_status r, run_result_commit r)"
  by unfold_locales (simp_all add: final_apply)

lemma final_runs:
  assumes "run_runs r cs r'" "run_final (run_status r)"
  shows "run_status r' = run_status r \<and> run_result_commit r' = run_result_commit r"
  using run_end.life_settled [OF assms] by simp

lemma integrated_by:
  assumes "run_apply c r = Inr r'" "run_status r' = RunStatus.Integrated"
    "run_status r \<noteq> RunStatus.Integrated"
  shows "\<exists>k. c = FinishIntegration k \<and> run_result_commit r' = Some k
    \<and> run_status r = RunStatus.Integrating"
  using assms by (cases c; auto simp: run_command_defs and_then_eq_Inr split: if_splits)

lemma integrating_by:
  assumes "run_apply c r = Inr r'" "run_status r' = RunStatus.Integrating"
    "run_status r \<noteq> RunStatus.Integrating"
  shows "c = BeginIntegration"
  using assms
  by (cases c; auto simp: run_command_defs and_then_eq_Inr split: if_splits)

lemma integrated_runs:
  assumes "run_runs r cs r'" "run_status r' = RunStatus.Integrated"
    "run_status r \<noteq> RunStatus.Integrated"
  shows "\<exists>before k after. cs = before @ FinishIntegration k # after \<and> run_result_commit r' = Some k
    \<and> (run_status r \<noteq> RunStatus.Integrating \<longrightarrow> BeginIntegration \<in> set before)"
  using assms
proof (induction rule: life.induct)
  case (life_more c r u cs v)
  show ?case
  proof (cases "run_status u = RunStatus.Integrated")
    case True
    with life_more.hyps life_more.prems obtain k where k: "c = FinishIntegration k"
      "run_result_commit u = Some k" "run_status r = RunStatus.Integrating"
      using integrated_by by blast
    moreover have "run_result_commit v = run_result_commit u"
      using final_runs [OF life_more.hyps(2)] True by (simp add: run_final_iff)
    ultimately show ?thesis
      by (intro exI [of _ "[]"] exI [of _ k] exI [of _ cs]) simp
  next
    case False
    then obtain before k after where ih: "cs = before @ FinishIntegration k # after"
      "run_result_commit v = Some k"
      "run_status u \<noteq> RunStatus.Integrating \<longrightarrow> BeginIntegration \<in> set before"
      using life_more by blast
    then have "run_status r \<noteq> RunStatus.Integrating \<longrightarrow> BeginIntegration \<in> set (c # before)"
      using integrating_by [OF life_more.hyps(1)] by auto
    with ih(1,2) show ?thesis
      by (intro exI [of _ "c # before"] exI [of _ k] exI [of _ after]) simp
  qed
qed simp

text \<open>A command that draws each edge.\<close>

lemma run_edge_drawn:
  assumes "s' \<in> run_next (run_status r)"
  shows "\<exists>c r'. run_apply c r = Inr r' \<and> run_status r' = s'"
proof -
  define ok where "ok c \<longleftrightarrow> (\<exists>r'. run_apply c r = Inr r' \<and> run_status r' = s')" for c
  have "\<exists>c \<in> {StartProvisioning p, MarkRunning, FinishSession None False, FinishSession (Some 1) False,
      Accept k, Reject None None True, Reject None None False, CloseSatisfied, RestartValidation,
      DecideLanding RunStatus.NeedsSession [], DecideLanding RunStatus.Failed [],
      ParkForReplan [], EndForReplacement, EndForRelease [], InterruptRun, BeginIntegration,
      DeferIntegration [], HoldIntegration [], FailIntegration [], FinishIntegration k,
      FinishResume RunStatus.Validating None, FinishResume RunStatus.AwaitingIntegration None,
      ExhaustResumes [], ResumeAfterTriage [], HandOffAfterTriage}. ok c" for p k
    using assms unfolding ok_def
    by (cases "run_status r"; simp; elim disjE; simp add: run_command_defs session_end_status_def and_then_eq_Inr)
  then show ?thesis unfolding ok_def by blast
qed

lemma ends_from_integrating:
  "run_status r = RunStatus.Integrating \<Longrightarrow>
    \<exists>cs r'. run_runs r cs r' \<and> run_status r' = RunStatus.Integrated"
  by (intro exI [of _ "[FinishIntegration k]" for k] exI)
    (auto simp: life_iff_live run_command_defs and_then_eq_Inr)

lemma ends_step:
  assumes "run_apply c r = Inr u" "\<exists>cs r'. run_runs u cs r' \<and> run_status r' = s"
  shows "\<exists>cs r'. run_runs r cs r' \<and> run_status r' = s"
  using assms life_more [of run_apply] by blast

lemma ends_from_needs_session:
  assumes "run_status r = RunStatus.NeedsSession"
  shows "\<exists>cs r'. run_runs r cs r' \<and> run_status r' = RunStatus.Integrated"
  by (rule ends_step [of BeginIntegration r "r\<lparr>run_status := RunStatus.Integrating\<rparr>"])
    (use assms in \<open>simp_all add: run_command_defs ends_from_integrating\<close>)

lemma ends_from_any:
  assumes "\<not> run_final (run_status r)"
  shows "\<exists>cs r'. run_runs r cs r' \<and> run_status r' = RunStatus.Integrated"
proof (cases "run_status r = RunStatus.Integrating")
  case False
  let ?u = "r\<lparr>run_status := RunStatus.NeedsSession, run_last_error := Some []\<rparr>"
  have "run_apply (ParkForReplan []) r = Inr ?u"
    using assms False by (cases "run_status r") (simp_all add: run_final_iff run_command_defs)
  then show ?thesis by (rule ends_step) (simp add: ends_from_needs_session)
qed (rule ends_from_integrating)

section \<open>The replay of the workspaces\<close>

definition workspace_ids :: "RunWorkspace list \<Rightarrow> string list" where
  "workspace_ids ws = map rw_workspace_id ws"

definition opens_workspace :: "string \<Rightarrow> WorkspaceEvent \<Rightarrow> bool" where
  "opens_workspace w e \<longleftrightarrow> wev_workspace_id e = Some w
    \<and> (wev_kind e = WorkspaceCreated \<or> wev_kind e = ResumeFinished)"

definition closes_workspace :: "string \<Rightarrow> WorkspaceEvent \<Rightarrow> bool" where
  "closes_workspace w e \<longleftrightarrow> wev_workspace_id e = Some w
    \<and> (wev_kind e = WorkspaceClosed \<or> wev_kind e = ResumeFinished \<and> wev_workspace_closed e)"

definition closed_in :: "RunWorkspace list \<Rightarrow> string \<Rightarrow> bool" where
  "closed_in ws w \<longleftrightarrow> (\<exists>x \<in> set ws. rw_workspace_id x = w \<and> rw_closed x)"

lemma position_workspace:
  assumes "position (\<lambda>x. rw_workspace_id x = w) ws = Some i"
  shows "i < length ws" "rw_workspace_id (ws ! i) = w"
  using assms by (simp_all add: position_Some)

lemma position_unknown:
  "position (\<lambda>x. rw_workspace_id x = w) ws = None \<longleftrightarrow> w \<notin> set (workspace_ids ws)"
  by (auto simp: workspace_ids_def)

lemma workspace_ids_update:
  "rw_workspace_id y = rw_workspace_id (ws ! i) \<Longrightarrow> workspace_ids (ws[i := y]) = workspace_ids ws"
  by (cases "i < length ws")
    (simp_all add: workspace_ids_def map_update list_update_same_conv list_update_beyond)

lemma workspace_ids_replay:
  "workspace_ids (replay_workspace ws e) =
    (case wev_workspace_id e of
       Some w \<Rightarrow> if opens_workspace w e \<and> w \<notin> set (workspace_ids ws) then workspace_ids ws @ [w]
         else workspace_ids ws
     | None \<Rightarrow> workspace_ids ws)"
proof (cases "wev_workspace_id e")
  case (Some w)
  show ?thesis
  proof (cases "position (\<lambda>x. rw_workspace_id x = w) ws")
    case None
    then have "w \<notin> set (workspace_ids ws)" using position_unknown [of w ws] by blast
    with Some None show ?thesis
      by (simp add: replay_workspace_def opens_workspace_def workspace_ids_def Let_def
          del: position_None)
  next
    case pos: (Some i)
    then have "w \<in> set (workspace_ids ws)"
      using position_unknown [of w ws] by (metis option.distinct(1))
    with pos Some show ?thesis
      by (simp add: replay_workspace_def opens_workspace_def Let_def workspace_ids_update)
  qed
qed (simp add: replay_workspace_def)

lemma closed_in_update:
  assumes "i < length ws" "rw_workspace_id (ws ! i) = w" "distinct (workspace_ids ws)"
  shows "closed_in (ws[i := (ws ! i)\<lparr>rw_closed := b\<rparr>]) v \<longleftrightarrow> (if v = w then b else closed_in ws v)"
proof -
  have "distinct ws" and inj: "inj_on rw_workspace_id (set ws)"
    using assms(3) by (auto simp: workspace_ids_def distinct_map)
  then have set: "set (ws[i := (ws ! i)\<lparr>rw_closed := b\<rparr>])
      = insert ((ws ! i)\<lparr>rw_closed := b\<rparr>) (set ws - {ws ! i})"
    using assms(1) by (simp add: set_update_distinct)
  have "x = ws ! i" if "x \<in> set ws" "rw_workspace_id x = w" for x
    using inj that assms(1,2) by (auto dest: inj_onD)
  then show ?thesis unfolding closed_in_def set using assms(1,2) by auto
qed

lemma closed_in_replay:
  assumes "distinct (workspace_ids ws)"
  shows "closed_in (replay_workspace ws e) v \<longleftrightarrow>
    closed_in ws v \<or> closes_workspace v e \<and> v \<in> set (workspace_ids (replay_workspace ws e))"
proof (cases "wev_workspace_id e")
  case None
  then show ?thesis by (simp add: replay_workspace_def closes_workspace_def)
next
  case (Some w)
  show ?thesis
  proof (cases "position (\<lambda>x. rw_workspace_id x = w) ws")
    case None
    then have w: "w \<notin> set (workspace_ids ws)" using position_unknown [of w ws] by blast
    then have "\<not> closed_in ws w" by (auto simp: closed_in_def workspace_ids_def)
    with None Some w show ?thesis unfolding workspace_ids_replay
      by (auto simp: replay_workspace_def closes_workspace_def opens_workspace_def closed_in_def Let_def
          simp del: position_None)
  next
    case pos: (Some i)
    then have w: "w \<in> set (workspace_ids ws)"
      using position_unknown [of w ws] by (metis option.distinct(1))
    have own: "rw_closed (ws ! i) \<longleftrightarrow> closed_in ws w"
      using position_workspace [OF pos] closed_in_update [OF _ _ assms, of i w "rw_closed (ws ! i)" w]
      by simp
    show ?thesis
      using pos Some w own position_workspace [OF pos]
      by (auto simp: workspace_ids_replay workspace_ids_update replay_workspace_def closes_workspace_def
          closed_in_update [OF _ _ assms] Let_def)
  qed
qed

lemma distinct_replay: "distinct (workspace_ids ws) \<Longrightarrow> distinct (workspace_ids (replay_workspace ws e))"
  by (auto simp: workspace_ids_replay split: option.split)

lemma replay_all:
  assumes "distinct (workspace_ids ws)"
  shows "distinct (workspace_ids (foldl replay_workspace ws es))"
    and "set (workspace_ids (foldl replay_workspace ws es))
      = set (workspace_ids ws) \<union> {w. \<exists>e \<in> set es. opens_workspace w e}"
  using assms
  by (induction es arbitrary: ws)
    (auto simp: distinct_replay workspace_ids_replay opens_workspace_def split: option.splits)

lemma closed_replay_all:
  assumes "distinct (workspace_ids ws)" "closed_in ws v \<or> v \<in> set (workspace_ids ws)"
  shows "closed_in (foldl replay_workspace ws es) v
    \<longleftrightarrow> closed_in ws v \<or> (\<exists>e \<in> set es. closes_workspace v e)"
  using assms
proof (induction es arbitrary: ws)
  case (Cons e es)
  have "v \<in> set (workspace_ids (replay_workspace ws e))" if "v \<in> set (workspace_ids ws)"
    using that by (auto simp: workspace_ids_replay split: option.split)
  moreover have "v \<in> set (workspace_ids ws)"
    using Cons.prems(2) by (auto simp: closed_in_def workspace_ids_def)
  ultimately show ?case
    using Cons.IH [OF distinct_replay [OF Cons.prems(1)], of e] closed_in_replay [OF Cons.prems(1), of e v]
    by auto
qed simp

section \<open>Properties\<close>

definition example_claimed_task :: Task where
  "example_claimed_task = example_task\<lparr>task_status := TaskStatus.InProgress\<rparr>"

definition example_commit :: CommitSha where
  "example_commit = CommitSha ''ABCDEF0123456789abcdef0123456789abcdef01''"

definition example_run :: TaskRun where
  "example_run = projr (run_new (RunId ''r1'') example_claimed_task example_commit ''t1'')"

definition example_plan :: RunPlan where
  "example_plan = \<lparr>plan_repo_path = ''/r'', plan_run_dir = ''/q/runs/r1'', plan_branch = ''dagq/r1'',
    plan_worktree_path = ''/q/wt/r1'', plan_receipt_path = ''/q/runs/r1/receipt.json'',
    plan_log_path = ''/q/runs/r1/log''\<rparr>"



text \<open>C22. The state diagram of a run, exactly: from a run, some command leads to a status if
  and only if it is the run's own status or the diagram has that edge.\<close>

theorem run_status_diagram:
  "(\<exists>c r'. run_apply c r = Inr r' \<and> run_status r' = s) \<longleftrightarrow> s = run_status r \<or> s \<in> run_next (run_status r)"
proof
  assume "s = run_status r \<or> s \<in> run_next (run_status r)"
  moreover have "\<exists>c r'. run_apply c r = Inr r' \<and> run_status r' = run_status r"
    by (rule exI [of _ "Abandon []"]) (simp add: run_command_defs)
  ultimately show "\<exists>c r'. run_apply c r = Inr r' \<and> run_status r' = s"
    using run_edge_drawn by blast
qed (use run_apply_edge in blast)

text \<open>C24. A landed, a satisfied and a replaced run are over: no command moves the status or
  changes the commit it landed.\<close>

theorem run_final_absorbing:
  assumes "run_status r \<in> {RunStatus.Integrated, RunStatus.Succeeded, RunStatus.Replaced}"
    and "run_runs r cs r'"
  shows "run_status r' = run_status r \<and> run_result_commit r' = run_result_commit r"
  using final_runs [OF assms(2)] assms(1) by (auto simp: run_final_iff)

theorem run_final_absorbing_witness:
  "run_result_commit ((example_run\<lparr>run_status := RunStatus.Integrated,
     run_result_commit := Some example_commit\<rparr>)\<lparr>run_last_error := Some ''x''\<rparr>) = Some example_commit"
proof -
  let ?r = "example_run\<lparr>run_status := RunStatus.Integrated, run_result_commit := Some example_commit\<rparr>"
  have "run_runs ?r [RecordCleanupFailure ''x''] (?r\<lparr>run_last_error := Some ''x''\<rparr>)"
    by (simp add: life_iff_live run_command_defs)
  from run_final_absorbing [OF _ this] show ?thesis by simp
qed

text \<open>C25. A claimed run that landed took the integration slot first and landed by finishing the
  integration, and the commit it names is the one that landing gave.\<close>

theorem integrated_run_landed:
  assumes "run_new i t base at = Inr r" and "run_runs r cs r'"
    and "run_status r' = RunStatus.Integrated"
  shows "\<exists>before k after. cs = before @ FinishIntegration k # after
    \<and> BeginIntegration \<in> set before \<and> run_result_commit r' = Some k"
proof -
  have "run_status r = RunStatus.Claimed" using assms(1) by (auto simp: run_new_def and_then_eq_Inr)
  then show ?thesis using integrated_runs [OF assms(2,3)] by auto
qed

theorem integrated_run_landed_witness:
  "\<exists>before k after. [ParkForHold [], BeginIntegration, FinishIntegration example_commit]
     = before @ FinishIntegration k # after
    \<and> BeginIntegration \<in> set before \<and> Some example_commit = Some k"
proof -
  have new: "run_new (RunId ''r1'') example_claimed_task example_commit ''t1'' = Inr example_run"
    by code_simp
  have "run_status example_run = RunStatus.Claimed" by code_simp
  then have "\<exists>r'. run_runs example_run [ParkForHold [], BeginIntegration, FinishIntegration example_commit] r'
      \<and> run_status r' = RunStatus.Integrated \<and> run_result_commit r' = Some example_commit"
    by (simp add: life_iff_live run_command_defs)
  then show ?thesis using integrated_run_landed [OF new] by metis
qed

text \<open>No run is stuck: from every status that is not over there are commands that land it.\<close>

theorem run_can_land:
  "(\<exists>cs r'. run_runs r cs r' \<and> run_status r' = RunStatus.Integrated)
    \<longleftrightarrow> run_status r \<notin> {RunStatus.Succeeded, RunStatus.Replaced}"
proof (cases "run_final (run_status r)")
  case True
  show ?thesis
  proof
    assume "\<exists>cs r'. run_runs r cs r' \<and> run_status r' = RunStatus.Integrated"
    then show "run_status r \<notin> {RunStatus.Succeeded, RunStatus.Replaced}"
      using final_runs [OF _ True] by fastforce
  next
    assume "run_status r \<notin> {RunStatus.Succeeded, RunStatus.Replaced}"
    with True show "\<exists>cs r'. run_runs r cs r' \<and> run_status r' = RunStatus.Integrated"
      by (intro exI [of _ "[]"]) (simp add: run_final_iff)
  qed
next
  case False
  then show ?thesis using ends_from_any by (auto simp: run_final_iff)
qed

text \<open>A run is claimed for a task in progress and for no other; the base commit is kept in
  lowercase and that never fails.\<close>

theorem run_new_result:
  assumes "CommitSha_parse text field = Inr base"
  shows "(run_new i t base at = Inl e \<longleftrightarrow>
      task_status t \<noteq> TaskStatus.InProgress \<and> e = RunOfUnclaimedTask (task_id t) (task_status t))
    \<and> (\<forall>r. run_new i t base at = Inr r \<longrightarrow>
      run_base_commit r = CommitSha (to_ascii_lowercase (commit_as_str base)))"
  using CommitSha_parse_lowercase [OF assms, of "''base commit''"]
  by (auto simp: run_new_def and_then_eq_Inl and_then_eq_Inr)

text \<open>The workspaces replayed from a run's record and events: each once, exactly the run's own
  and those its events say were created or resumed, and the run's own counts as closed exactly
  when its close is recorded, on the run or by an event that names it.\<close>

lemma run_workspaces_replay:
  "distinct (workspace_ids (run_workspaces r events))
    \<and> set (workspace_ids (run_workspaces r events))
        = set_option (run_workspace_id r) \<union> {w. \<exists>e \<in> set events. opens_workspace w e}
    \<and> (case run_workspace_id r of
         Some w \<Rightarrow> closed_in (run_workspaces r events) w
           \<longleftrightarrow> (\<exists>at. run_workspace_closed_at r = Some at) \<or> (\<exists>e \<in> set events. closes_workspace w e)
       | None \<Rightarrow> True)"
proof (cases "run_workspace_id r")
  case None
  then show ?thesis
    using replay_all [of "[]" events] by (simp add: run_workspaces_def workspace_ids_def)
next
  case (Some w)
  let ?own = "[\<lparr>rw_workspace_id = w, rw_resume_attempt = None,
    rw_closed = (run_workspace_closed_at r \<noteq> None)\<rparr>]"
  from Some show ?thesis
    using replay_all [of ?own events] closed_replay_all [of ?own w events]
    by (simp add: run_workspaces_def workspace_ids_def closed_in_def)
qed

end
