(* ===== verification/Proposal_Aggregate.thy ===== *)
theory Proposal_Aggregate
  imports Vocabulary Lives
begin

text \<open>
  The proposal aggregate: \<^verbatim>\<open>src/domain/proposal.rs\<close>, the goals and tasks plan review checks as
  one unit. A proposal is built by \<open>proposal_submit\<close>, \<open>proposal_reopen\<close> or \<open>proposal_restore\<close> and
  changes through the commands of \<open>ProposalCommand\<close>. Shown: the invariant \<open>proposal_ok\<close>, that an
  accepted or canceled proposal is over, and that the count of revisions is the number of times
  plan review sent it back.
  The \<open>u32\<close> count of revisions is a \<open>nat\<close>: each one is a plan review of its own.
\<close>

record PlannerOwner =
  owner_origin :: PlannerOrigin
  owner_workspace_id :: "string option"

record Submission =
  submission_tasks :: "TaskId list"
  submission_goals :: "GoalId list"
  submission_proposal :: "ProposalId option"
  submission_owner :: PlannerOwner

definition Submission_validate :: "Submission \<Rightarrow> unit result" where
  "Submission_validate s =
    and_then (require (list_all (\<lambda>i. task_id_as_i64 i > 0) (submission_tasks s))
      (NonPositiveId ''task ID'')) (\<lambda>_.
    and_then (require (list_all (\<lambda>i. goal_id_as_i64 i > 0) (submission_goals s))
      (NonPositiveId ''goal ID'')) (\<lambda>_.
    and_then (require (case_option True (\<lambda>i. proposal_id_as_i64 i > 0) (submission_proposal s))
      (NonPositiveId ''proposal ID'')) (\<lambda>_.
    require (case_option True (\<lambda>w. \<not> blank w) (owner_workspace_id (submission_owner s)))
      (Blank ''planner workspace ID''))))"

record ProposalRecord =
  prec_id :: ProposalId
  prec_status :: ProposalStatus
  prec_owner :: PlannerOwner
  prec_submitted_at :: string
  prec_revise_count :: nat
  prec_task_ids :: "TaskId list"
  prec_goal_ids :: "GoalId list"
  prec_created_at :: string
  prec_updated_at :: string

record Proposal =
  proposal_id :: ProposalId
  proposal_status :: ProposalStatus
  proposal_owner :: PlannerOwner
  proposal_submitted_at :: string
  proposal_revise_count :: nat
  proposal_task_ids :: "TaskId list"
  proposal_goal_ids :: "GoalId list"
  proposal_created_at :: string
  proposal_updated_at :: string

definition ProposalStatus_is_active :: "ProposalStatus \<Rightarrow> bool" where
  "ProposalStatus_is_active s \<longleftrightarrow> s = ProposalStatus.Submitted \<or> s = ProposalStatus.Revising"

text \<open>\<open>sort\<close>, then \<open>dedup\<close>.\<close>

definition sorted_ids :: "'a::linorder list \<Rightarrow> 'a list" where
  "sorted_ids ids = remdups_adj (sort ids)"

definition proposal_require_tasks :: "TaskId list \<Rightarrow> unit result" where
  "proposal_require_tasks task_ids = require (task_ids \<noteq> []) EmptyProposal"

definition proposal_require_status :: "Proposal \<Rightarrow> ProposalStatus \<Rightarrow> unit result" where
  "proposal_require_status p expected =
    require (proposal_status p = expected)
      (ProposalNotInStatus (proposal_id p) (proposal_status p) expected)"

definition proposal_submit ::
  "ProposalId \<Rightarrow> PlannerOwner \<Rightarrow> TaskId list \<Rightarrow> GoalId list \<Rightarrow> string \<Rightarrow> Proposal result" where
  "proposal_submit i owner task_ids goal_ids now =
    and_then (require (proposal_id_as_i64 i > 0) (NonPositiveId ''proposal ID'')) (\<lambda>_.
    and_then (proposal_require_tasks task_ids) (\<lambda>_.
    Inr \<lparr>proposal_id = i,
      proposal_status = ProposalStatus.Submitted,
      proposal_owner = owner,
      proposal_submitted_at = now,
      proposal_revise_count = 0,
      proposal_task_ids = sorted_ids task_ids,
      proposal_goal_ids = sorted_ids goal_ids,
      proposal_created_at = now,
      proposal_updated_at = now\<rparr>))"

definition proposal_restore :: "ProposalRecord \<Rightarrow> Proposal result" where
  "proposal_restore r =
    and_then (require (proposal_id_as_i64 (prec_id r) > 0) (NonPositiveId ''proposal ID'')) (\<lambda>_.
    Inr \<lparr>proposal_id = prec_id r,
      proposal_status = prec_status r,
      proposal_owner = prec_owner r,
      proposal_submitted_at = prec_submitted_at r,
      proposal_revise_count = prec_revise_count r,
      proposal_task_ids = sorted_ids (prec_task_ids r),
      proposal_goal_ids = sorted_ids (prec_goal_ids r),
      proposal_created_at = prec_created_at r,
      proposal_updated_at = prec_updated_at r\<rparr>)"

definition proposal_resubmit ::
  "Proposal \<Rightarrow> PlannerOwner \<Rightarrow> TaskId list \<Rightarrow> GoalId list \<Rightarrow> string \<Rightarrow> Proposal result" where
  "proposal_resubmit p owner task_ids goal_ids now =
    and_then (proposal_require_status p ProposalStatus.Revising) (\<lambda>_.
    and_then (proposal_require_tasks task_ids) (\<lambda>_.
    Inr (p\<lparr>proposal_status := ProposalStatus.Submitted,
      proposal_owner := owner,
      proposal_task_ids := sorted_ids task_ids,
      proposal_goal_ids := sorted_ids goal_ids,
      proposal_submitted_at := now,
      proposal_updated_at := now\<rparr>)))"

definition proposal_accept :: "Proposal \<Rightarrow> string \<Rightarrow> Proposal result" where
  "proposal_accept p now =
    and_then (proposal_require_status p ProposalStatus.Submitted) (\<lambda>_.
    Inr (p\<lparr>proposal_status := ProposalStatus.Accepted, proposal_updated_at := now\<rparr>))"

definition proposal_retry :: "Proposal \<Rightarrow> string \<Rightarrow> Proposal result" where
  "proposal_retry p now =
    and_then (proposal_require_status p ProposalStatus.Submitted) (\<lambda>_.
    Inr (p\<lparr>proposal_submitted_at := now, proposal_updated_at := now\<rparr>))"

definition proposal_cancel :: "Proposal \<Rightarrow> string \<Rightarrow> Proposal result" where
  "proposal_cancel p now =
    and_then (proposal_require_status p ProposalStatus.Submitted) (\<lambda>_.
    Inr (p\<lparr>proposal_status := ProposalStatus.Canceled, proposal_updated_at := now\<rparr>))"

definition proposal_withdraw :: "Proposal \<Rightarrow> string \<Rightarrow> Proposal result" where
  "proposal_withdraw p now =
    and_then (require (ProposalStatus_is_active (proposal_status p))
      (ProposalNotActive (proposal_id p) (proposal_status p))) (\<lambda>_.
    Inr (p\<lparr>proposal_status := ProposalStatus.Canceled, proposal_updated_at := now\<rparr>))"

definition proposal_reopen :: "ProposalId \<Rightarrow> TaskId list \<Rightarrow> string \<Rightarrow> Proposal result" where
  "proposal_reopen i task_ids now =
    and_then (proposal_submit i
      \<lparr>owner_origin = PlannerOrigin.Runtime, owner_workspace_id = None\<rparr> task_ids [] now) (\<lambda>p.
    Inr (p\<lparr>proposal_status := ProposalStatus.Revising\<rparr>))"

definition proposal_send_back :: "Proposal \<Rightarrow> string \<Rightarrow> Proposal result" where
  "proposal_send_back p now =
    and_then (proposal_require_status p ProposalStatus.Submitted) (\<lambda>_.
    Inr (p\<lparr>proposal_status := ProposalStatus.Revising,
      proposal_revise_count := proposal_revise_count p + 1,
      proposal_updated_at := now\<rparr>))"

definition check_task_joins ::
  "TaskId \<Rightarrow> (ProposalId \<times> ProposalStatus) option \<Rightarrow> ProposalId option \<Rightarrow> unit result" where
  "check_task_joins task current target = (case current of
     Some (proposal, status) \<Rightarrow>
       if ProposalStatus_is_active status \<and> Some proposal \<noteq> target
       then Inl (TaskInOtherProposal task proposal) else Inr ()
   | None \<Rightarrow> Inr ())"

definition check_goal_joins ::
  "GoalId \<Rightarrow> (ProposalId \<times> ProposalStatus) option \<Rightarrow> ProposalId option \<Rightarrow> unit result" where
  "check_goal_joins goal current target = (case current of
     Some (proposal, status) \<Rightarrow>
       if ProposalStatus_is_active status \<and> Some proposal \<noteq> target
       then Inl (GoalInOtherProposal goal proposal) else Inr ()
   | None \<Rightarrow> Inr ())"

section \<open>Any sequence of commands\<close>

datatype ProposalCommand =
  Resubmit PlannerOwner "TaskId list" "GoalId list" string
| AcceptPlan string
| RetryPlan string
| CancelPlan string
| Withdraw string
| SendBack string

fun proposal_apply :: "ProposalCommand \<Rightarrow> Proposal \<Rightarrow> Proposal result" where
  "proposal_apply (Resubmit owner tasks goals now) p = proposal_resubmit p owner tasks goals now"
| "proposal_apply (AcceptPlan now) p = proposal_accept p now"
| "proposal_apply (RetryPlan now) p = proposal_retry p now"
| "proposal_apply (CancelPlan now) p = proposal_cancel p now"
| "proposal_apply (Withdraw now) p = proposal_withdraw p now"
| "proposal_apply (SendBack now) p = proposal_send_back p now"

lemmas proposal_command_defs =
  proposal_resubmit_def proposal_accept_def proposal_retry_def proposal_cancel_def
  proposal_withdraw_def proposal_send_back_def proposal_require_status_def
  proposal_require_tasks_def

definition proposal_ok :: "Proposal \<Rightarrow> bool" where
  "proposal_ok p \<longleftrightarrow>
    proposal_id_as_i64 (proposal_id p) > 0
    \<and> proposal_task_ids p \<noteq> []
    \<and> sorted_wrt (<) (proposal_task_ids p)
    \<and> sorted_wrt (<) (proposal_goal_ids p)"

lemma set_sorted_ids [simp]: "set (sorted_ids ids) = set ids"
  by (simp add: sorted_ids_def)

lemma sorted_ids_Nil [simp]: "sorted_ids ids = [] \<longleftrightarrow> ids = []"
  using set_sorted_ids [of ids] by (metis set_empty)

lemma remdups_adj_strict: "sorted xs \<Longrightarrow> sorted_wrt (<) (remdups_adj xs)"
  by (induction xs rule: remdups_adj.induct) (auto simp: less_le)

lemma sorted_ids_strict [simp]: "sorted_wrt (<) (sorted_ids ids)"
  by (simp add: sorted_ids_def remdups_adj_strict)

lemma proposal_submit_ok: "proposal_submit i owner ts gs now = Inr p \<Longrightarrow> proposal_ok p"
  by (auto simp: proposal_submit_def proposal_ok_def proposal_require_tasks_def and_then_eq_Inr)

lemma proposal_apply_ok: "proposal_apply c p = Inr p' \<Longrightarrow> proposal_ok p \<Longrightarrow> proposal_ok p'"
  by (cases c; auto simp: proposal_command_defs proposal_ok_def and_then_eq_Inr)

interpretation proposal_life: preserves proposal_apply proposal_ok "\<lambda>_. True"
  by unfold_locales (rule proposal_apply_ok)

interpretation proposal_end: settles proposal_apply
    "\<lambda>p. \<not> ProposalStatus_is_active (proposal_status p)" id
  by unfold_locales
    (case_tac c; auto simp: proposal_command_defs ProposalStatus_is_active_def and_then_eq_Inr)+

text \<open>How often plan review sent the proposal back.\<close>

primrec is_send_back :: "ProposalCommand \<Rightarrow> bool" where
  "is_send_back (Resubmit owner tasks goals now) \<longleftrightarrow> False"
| "is_send_back (AcceptPlan now) \<longleftrightarrow> False"
| "is_send_back (RetryPlan now) \<longleftrightarrow> False"
| "is_send_back (CancelPlan now) \<longleftrightarrow> False"
| "is_send_back (Withdraw now) \<longleftrightarrow> False"
| "is_send_back (SendBack now) \<longleftrightarrow> True"

lemma revise_count_step:
  "proposal_apply c p = Inr p' \<Longrightarrow>
    proposal_revise_count p' = proposal_revise_count p + (if is_send_back c then 1 else 0)"
  by (cases c; auto simp: proposal_command_defs and_then_eq_Inr)

lemma revise_count_life:
  "life proposal_apply p cs p' \<Longrightarrow>
    proposal_revise_count p' = proposal_revise_count p + length (filter is_send_back cs)"
  by (induction rule: life.induct) (auto dest: revise_count_step)

text \<open>A proposal sent back changes its members only by its next submission.\<close>

lemma members_step:
  "proposal_apply c p = Inr p' \<Longrightarrow> proposal_status p = ProposalStatus.Submitted \<Longrightarrow>
    proposal_task_ids p' = proposal_task_ids p \<and> proposal_goal_ids p' = proposal_goal_ids p"
  by (cases c; auto simp: proposal_command_defs and_then_eq_Inr)

section \<open>Properties\<close>

definition example_proposal :: Proposal where
  "example_proposal = projr (proposal_submit (ProposalId 1)
    \<lparr>owner_origin = PlannerOrigin.Person, owner_workspace_id = None\<rparr>
    [TaskId 5, TaskId 3, TaskId 5] [GoalId 2] ''t0'')"

lemma example_proposal_new: "proposal_submit (ProposalId 1)
    \<lparr>owner_origin = PlannerOrigin.Person, owner_workspace_id = None\<rparr>
    [TaskId 5, TaskId 3, TaskId 5] [GoalId 2] ''t0'' = Inr example_proposal"
  by code_simp

text \<open>C38. A submitted proposal, after any accepted commands, has a positive ID, at least one task,
  its tasks and its goals each once in ascending order, and counts exactly the times plan review
  sent it back.\<close>

theorem proposal_life_ok:
  assumes "proposal_submit i owner tasks goals now = Inr p" and "life proposal_apply p cs p'"
  shows "proposal_ok p' \<and> proposal_revise_count p' = length (filter is_send_back cs)"
proof -
  have "proposal_revise_count p = 0"
    using assms(1) by (auto simp: proposal_submit_def and_then_eq_Inr)
  then show ?thesis
    using proposal_life.life_ok [OF assms(2) proposal_submit_ok [OF assms(1)]]
      revise_count_life [OF assms(2)]
    by (simp add: list_all_iff)
qed

theorem proposal_life_ok_witness:
  "proposal_revise_count (projr (live proposal_apply [SendBack ''t1'',
     Resubmit (proposal_owner example_proposal) [TaskId 3] [] ''t2'', SendBack ''t3''] example_proposal)) = 2"
proof -
  let ?cs = "[SendBack ''t1'', Resubmit (proposal_owner example_proposal) [TaskId 3] [] ''t2'',
    SendBack ''t3'']"
  have "live proposal_apply ?cs example_proposal = Inr (projr (live proposal_apply ?cs example_proposal))"
    by code_simp
  then have "life proposal_apply example_proposal ?cs (projr (live proposal_apply ?cs example_proposal))"
    by (simp only: life_iff_live)
  from proposal_life_ok [OF example_proposal_new this] show ?thesis by simp
qed

text \<open>An accepted or canceled proposal is over: no command is accepted on it any more.\<close>

theorem ended_proposal_refuses:
  assumes "\<not> ProposalStatus_is_active (proposal_status p)"
  shows "\<exists>e. proposal_apply c p = Inl e"
proof (cases "proposal_apply c p")
  case (Inr p')
  with assms show ?thesis
    by (cases c; auto simp: proposal_command_defs ProposalStatus_is_active_def and_then_eq_Inr)
qed simp

theorem ended_proposal_refuses_witness:
  "\<exists>e. proposal_apply (Withdraw ''t9'') (example_proposal\<lparr>proposal_status := ProposalStatus.Accepted\<rparr>)
    = Inl e"
  by (rule ended_proposal_refuses) (simp add: ProposalStatus_is_active_def)

end
