(* ===== verification/Claim_Order.thy ===== *)
theory Claim_Order
  imports Vocabulary
begin

text \<open>
  The claim order across the execution classes, \<^verbatim>\<open>src/domain/claim_order.rs\<close>: the candidates a
  class limit leaves out and the aging that lets one class go first within one effective
  priority (\<open>arrange\<close>), and what a pass makes of an order's deferral (\<open>class_deferral_step\<close>). Then
  the line for the free slots, \<^verbatim>\<open>src/domain/slot_order.rs\<close>.

  Times are \<open>int\<close>s with the saturation of \<open>i64\<close> written out; the set of excluded tasks is a
  \<open>set\<close>. The loop over the tiers is \<open>arrange_tiers\<close>, which ends because every tier holds at
  least the candidate it starts with. Shown: \<open>arrange\<close> loses and invents no candidate, moves none
  out of its priority, keeps the rule's order within a class and of every interrupt, and puts the
  class first that waited longest past the threshold.
\<close>

section \<open>Limits\<close>

definition i64_MAX :: int where "i64_MAX = 9223372036854775807"
definition i64_MIN :: int where "i64_MIN = - 9223372036854775808"

text \<open>The saturating operations of \<open>i64\<close>, on the exact result.\<close>

definition saturating :: "int \<Rightarrow> int" where
  "saturating x = (if x > i64_MAX then i64_MAX else if x < i64_MIN then i64_MIN else x)"

definition SPIKE_LIMIT :: string where "SPIKE_LIMIT = ''spike_limit''"
definition INVESTIGATION_LIMIT :: string where "INVESTIGATION_LIMIT = ''investigation_limit''"
definition LIGHT_ROOM :: string where "LIGHT_ROOM = ''light_room''"
definition LIGHT_ROOM_KEPT_SECS :: int where "LIGHT_ROOM_KEPT_SECS = 300"

record Candidate =
  cand_id :: TaskId
  cand_class :: ExecutionClass
  cand_priority :: Priority
  cand_ready_at_ms :: "int option"

record ClassLimits =
  max_spikes :: "nat option"
  running_spikes :: nat

definition class_limit :: "ClassLimits \<Rightarrow> ExecutionClass \<Rightarrow> string option" where
  "class_limit l class = (case class of
     Spike \<Rightarrow> (case max_spikes l of
         Some m \<Rightarrow> if running_spikes l \<ge> m then Some SPIKE_LIMIT else None
       | None \<Rightarrow> None)
   | Implementation \<Rightarrow> None)"

definition class_limits_held :: "ClassLimits \<Rightarrow> ExecutionClass list" where
  "class_limits_held l = filter (\<lambda>c. class_limit l c \<noteq> None) [Implementation, Spike]"

section \<open>The order\<close>

record Arranged =
  arr_order :: "TaskId list"
  arr_aged :: "TaskId list"
  arr_limited :: "(TaskId \<times> string) list"

definition overdue :: "int \<Rightarrow> nat \<Rightarrow> bool" where
  "overdue waited_ms aging_secs =
    (let threshold_ms =
       saturating ((if int aging_secs \<le> i64_MAX then int aging_secs else i64_MAX) * 1000)
     in waited_ms > threshold_ms)"

definition candidate_wait :: "int \<Rightarrow> nat \<Rightarrow> Candidate \<Rightarrow> int option" where
  "candidate_wait now_ms aging_secs c = (case cand_ready_at_ms c of
     Some at \<Rightarrow> (let waited = saturating (now_ms - at)
       in if overdue waited aging_secs then Some waited else None)
   | None \<Rightarrow> None)"

text \<open>\<open>Iterator::max\<close>.\<close>

fun max_of :: "int list \<Rightarrow> int option" where
  "max_of [] = None"
| "max_of (x # xs) = Some (fold max xs x)"

definition class_wait :: "int \<Rightarrow> nat \<Rightarrow> Candidate list \<Rightarrow> ExecutionClass \<Rightarrow> int option" where
  "class_wait now_ms aging_secs tier class =
    max_of (List.map_filter (candidate_wait now_ms aging_secs) (filter (\<lambda>c. cand_class c = class) tier))"

definition first_class :: "int \<Rightarrow> nat \<Rightarrow> Candidate list \<Rightarrow> ExecutionClass option" where
  "first_class now_ms aging_secs tier =
    (case (class_wait now_ms aging_secs tier Implementation, class_wait now_ms aging_secs tier Spike) of
       (Some implementation, Some spike) \<Rightarrow>
         if implementation > spike then Some Implementation
         else if spike > implementation then Some Spike else None
     | (Some _, None) \<Rightarrow> Some Implementation
     | (None, Some _) \<Rightarrow> Some Spike
     | (None, None) \<Rightarrow> None)"

text \<open>One tier in its order, with the IDs of the candidates that moved ahead.\<close>

definition arrange_tier ::
  "int \<Rightarrow> nat \<Rightarrow> Priority \<Rightarrow> Candidate list \<Rightarrow> Candidate list \<times> TaskId list" where
  "arrange_tier now_ms aging_secs priority tier =
    (case if priority \<noteq> Interrupt then first_class now_ms aging_secs tier else None of
       Some class \<Rightarrow>
         (let arranged = filter (\<lambda>c. cand_class c = class) tier @ filter (\<lambda>c. cand_class c \<noteq> class) tier
          in (arranged,
              List.map_filter (\<lambda>(index, c). case position (\<lambda>x. cand_id x = cand_id c) tier of
                  Some was \<Rightarrow> if index < was then Some (cand_id c) else None
                | None \<Rightarrow> None) (enumerate 0 arranged)))
     | None \<Rightarrow> (tier, []))"

definition tier_end :: "Priority \<Rightarrow> Candidate list \<Rightarrow> nat" where
  "tier_end priority kept =
    (case position (\<lambda>c. cand_priority c \<noteq> priority) kept of Some n \<Rightarrow> n | None \<Rightarrow> length kept)"

lemma tier_end_pos: "kept \<noteq> [] \<Longrightarrow> tier_end (cand_priority (hd kept)) kept > 0"
  by (cases kept) (auto simp: tier_end_def split: option.split)

function arrange_tiers :: "int \<Rightarrow> nat \<Rightarrow> Candidate list \<Rightarrow> Candidate list \<times> TaskId list" where
  "arrange_tiers now_ms aging_secs kept =
    (if kept = [] then ([], [])
     else (let priority = cand_priority (hd kept);
               n = tier_end priority kept;
               (tier, aged) = arrange_tier now_ms aging_secs priority (take n kept);
               (rest, rest_aged) = arrange_tiers now_ms aging_secs (drop n kept)
           in (tier @ rest, aged @ rest_aged)))"
  by pat_completeness auto
termination
  by (relation "measure (\<lambda>(now_ms, aging_secs, kept). length kept)")
    (auto intro!: diff_less tier_end_pos)

declare arrange_tiers.simps [simp del]

definition arrange ::
  "Candidate list \<Rightarrow> TaskId set \<Rightarrow> ClassLimits \<Rightarrow> int \<Rightarrow> nat \<Rightarrow> Arranged" where
  "arrange candidates excluded limits now_ms aging_secs =
    (let there = filter (\<lambda>c. cand_id c \<notin> excluded) candidates;
         limited = List.map_filter (\<lambda>c. map_option (\<lambda>reason. (cand_id c, reason))
           (class_limit limits (cand_class c))) there;
         kept = filter (\<lambda>c. class_limit limits (cand_class c) = None) there;
         (order, aged) = arrange_tiers now_ms aging_secs kept
     in \<lparr>arr_order = map cand_id order, arr_aged = aged, arr_limited = limited\<rparr>)"

section \<open>Deferrals\<close>

datatype ClassDeferralStep = Open | Superseded | Ended string

definition class_deferral_step ::
  "string \<Rightarrow> string option \<Rightarrow> bool \<Rightarrow> bool \<Rightarrow> int option \<Rightarrow> ClassDeferralStep" where
  "class_deferral_step why now candidate passed normal_secs =
    (let kept = (why = LIGHT_ROOM \<and> now = None
        \<and> (case normal_secs of Some secs \<Rightarrow> secs < LIGHT_ROOM_KEPT_SECS | None \<Rightarrow> False))
     in if now = Some why \<or> (candidate \<and> passed \<and> kept) then Open
        else if candidate \<and> \<not> passed then Superseded
        else if candidate then Ended ''cleared''
        else Ended ''not_candidate'')"

section \<open>The line for the slots\<close>

datatype SlotKind = SlotResume | SlotRecovery | SlotClaim

instantiation SlotKind :: linorder
begin

primrec slot_rank :: "SlotKind \<Rightarrow> nat" where
  "slot_rank SlotResume = 0"
| "slot_rank SlotRecovery = 1"
| "slot_rank SlotClaim = 2"

definition less_eq_SlotKind :: "SlotKind \<Rightarrow> SlotKind \<Rightarrow> bool" where
  "less_eq_SlotKind a b \<longleftrightarrow> slot_rank a \<le> slot_rank b"

definition less_SlotKind :: "SlotKind \<Rightarrow> SlotKind \<Rightarrow> bool" where
  "less_SlotKind a b \<longleftrightarrow> slot_rank a < slot_rank b"

instance
proof
  fix a b :: SlotKind
  show "a \<le> b \<Longrightarrow> b \<le> a \<Longrightarrow> a = b"
    by (cases a; cases b; simp add: less_eq_SlotKind_def)
qed (auto simp: less_eq_SlotKind_def less_SlotKind_def)

end

record 'a SlotCandidate =
  slot_kind :: SlotKind
  slot_priority :: Priority
  slot_item :: 'a

definition slot_claims :: "TaskId list \<Rightarrow> (TaskId \<rightharpoonup> Priority) \<Rightarrow> TaskId SlotCandidate list" where
  "slot_claims order effective =
    List.map_filter (\<lambda>i. map_option (\<lambda>p. \<lparr>slot_kind = SlotClaim, slot_priority = p, slot_item = i\<rparr>)
      (effective i)) order"

definition slot_order :: "'a SlotCandidate list \<Rightarrow> 'a SlotCandidate list" where
  "slot_order candidates = sort_key (\<lambda>c. (Reverse (slot_priority c), slot_kind c)) candidates"

section \<open>Lemmas\<close>

lemma tier_end_takeWhile: "tier_end p kept = length (takeWhile (\<lambda>c. cand_priority c = p) kept)"
  by (induction kept) (auto simp: tier_end_def simp del: position_None split: option.splits)

lemma tier_end_split:
  "take (tier_end p kept) kept = takeWhile (\<lambda>c. cand_priority c = p) kept"
  "drop (tier_end p kept) kept = dropWhile (\<lambda>c. cand_priority c = p) kept"
  unfolding tier_end_takeWhile
  by (metis takeWhile_eq_take) (metis dropWhile_eq_drop)

lemma arrange_tier_cases:
  "fst (arrange_tier now aging p tier) = tier
    \<or> (\<exists>k. p \<noteq> Interrupt \<and> first_class now aging tier = Some k
        \<and> fst (arrange_tier now aging p tier)
          = filter (\<lambda>c. cand_class c = k) tier @ filter (\<lambda>c. cand_class c \<noteq> k) tier)"
  by (auto simp: arrange_tier_def Let_def split: option.split)

lemma mset_arrange_tier: "mset (fst (arrange_tier now aging p tier)) = mset tier"
  using arrange_tier_cases [of now aging p tier] multiset_partition [of "mset tier"]
  by (auto simp: mset_filter)

lemma filter_arrange_tier:
  assumes "\<And>c. P c \<Longrightarrow> cand_class c = k"
  shows "filter P (fst (arrange_tier now aging p tier)) = filter P tier"
proof -
  have "filter P (filter (\<lambda>c. cand_class c = j) tier) @ filter P (filter (\<lambda>c. cand_class c \<noteq> j) tier)
      = filter P tier" for j
  proof (cases "j = k")
    case True
    then have "filter P (filter (\<lambda>c. cand_class c \<noteq> j) tier) = []"
      "filter P (filter (\<lambda>c. cand_class c = j) tier) = filter P tier"
      using assms by (auto simp: filter_empty_conv intro!: filter_cong)
    then show ?thesis by simp
  next
    case False
    then have "filter P (filter (\<lambda>c. cand_class c = j) tier) = []"
      "filter P (filter (\<lambda>c. cand_class c \<noteq> j) tier) = filter P tier"
      using assms by (auto simp: filter_empty_conv intro!: filter_cong)
    then show ?thesis by simp
  qed
  then show ?thesis using arrange_tier_cases [of now aging p tier] by auto
qed

lemma arrange_tier_interrupt: "fst (arrange_tier now aging Interrupt tier) = tier"
  by (simp add: arrange_tier_def)

text \<open>The tiers one after the other: the induction every fact below goes by.\<close>

lemma arrange_tiers_unfold:
  "fst (arrange_tiers now aging (c # cs)) =
    fst (arrange_tier now aging (cand_priority c) (takeWhile (\<lambda>x. cand_priority x = cand_priority c) (c # cs)))
    @ fst (arrange_tiers now aging (dropWhile (\<lambda>x. cand_priority x = cand_priority c) (c # cs)))"
  by (subst arrange_tiers.simps) (simp add: Let_def case_prod_unfold tier_end_split del: takeWhile.simps dropWhile.simps)

lemma arrange_tiers_Nil [simp]: "arrange_tiers now aging [] = ([], [])"
  by (simp add: arrange_tiers.simps)

lemma tiers_induct [case_names Nil tier]:
  assumes "Q []"
    and "\<And>c cs. Q (dropWhile (\<lambda>x. cand_priority x = cand_priority c) (c # cs)) \<Longrightarrow> Q (c # cs)"
  shows "Q kept"
proof (induction kept rule: length_induct)
  case (1 kept)
  show ?case
  proof (cases kept)
    case (Cons c cs)
    have "length (dropWhile (\<lambda>x. cand_priority x = cand_priority c) (c # cs)) < length (c # cs)"
      by (simp add: le_imp_less_Suc length_dropWhile_le)
    with 1 Cons assms(2) show ?thesis by blast
  qed (use assms(1) in simp)
qed

lemma mset_arrange_tiers: "mset (fst (arrange_tiers now aging kept)) = mset kept"
proof (induction kept rule: tiers_induct)
  case (tier c cs)
  let ?P = "\<lambda>x. cand_priority x = cand_priority c"
  have "mset (takeWhile ?P (c # cs)) + mset (dropWhile ?P (c # cs)) = mset (c # cs)"
    by (metis mset_append takeWhile_dropWhile_id)
  with tier show ?case by (simp only: arrange_tiers_unfold mset_append mset_arrange_tier)
qed simp

lemma filter_arrange_tiers:
  assumes "\<And>c. P c \<Longrightarrow> cand_class c = k"
  shows "filter P (fst (arrange_tiers now aging kept)) = filter P kept"
proof (induction kept rule: tiers_induct)
  case (tier c cs)
  let ?P = "\<lambda>x. cand_priority x = cand_priority c"
  have "filter P (takeWhile ?P (c # cs)) @ filter P (dropWhile ?P (c # cs)) = filter P (c # cs)"
    by (metis filter_append takeWhile_dropWhile_id)
  with tier show ?case
    by (simp only: arrange_tiers_unfold filter_append filter_arrange_tier [OF assms])
qed simp

lemma map_all_same: "\<forall>x \<in> set xs. f x = a \<Longrightarrow> map f xs = replicate (length xs) a"
  by (induction xs) auto

lemma priorities_arrange_tiers: "map cand_priority (fst (arrange_tiers now aging kept)) = map cand_priority kept"
proof (induction kept rule: tiers_induct)
  case (tier c cs)
  let ?P = "\<lambda>x. cand_priority x = cand_priority c"
  let ?t = "takeWhile ?P (c # cs)"
  have same: "\<forall>x \<in> set ?t. cand_priority x = cand_priority c" by (auto dest: set_takeWhileD)
  have arranged: "\<forall>x \<in> set (fst (arrange_tier now aging (cand_priority c) ?t)). cand_priority x = cand_priority c"
    unfolding mset_eq_setD [OF mset_arrange_tier] by (rule same)
  have "map cand_priority (fst (arrange_tier now aging (cand_priority c) ?t)) = map cand_priority ?t"
    unfolding map_all_same [OF same] map_all_same [OF arranged] mset_eq_length [OF mset_arrange_tier] ..
  moreover have "map cand_priority ?t @ map cand_priority (dropWhile ?P (c # cs)) = map cand_priority (c # cs)"
    by (metis map_append takeWhile_dropWhile_id)
  ultimately show ?case using tier by (simp only: arrange_tiers_unfold map_append)
qed simp

lemma interrupts_arrange_tiers:
  "filter (\<lambda>c. cand_priority c = Interrupt) (fst (arrange_tiers now aging kept))
    = filter (\<lambda>c. cand_priority c = Interrupt) kept"
proof (induction kept rule: tiers_induct)
  case (tier c cs)
  let ?P = "\<lambda>x. cand_priority x = cand_priority c" and ?I = "\<lambda>c. cand_priority c = Interrupt"
  let ?t = "takeWhile ?P (c # cs)"
  have "filter ?I (fst (arrange_tier now aging (cand_priority c) ?t)) = filter ?I ?t"
  proof (cases "cand_priority c = Interrupt")
    case False
    then have "\<forall>x \<in> set ?t. \<not> ?I x" by (auto dest: set_takeWhileD)
    moreover have "set (fst (arrange_tier now aging (cand_priority c) ?t)) = set ?t"
      by (rule mset_eq_setD [OF mset_arrange_tier])
    ultimately show ?thesis by (simp add: filter_False del: takeWhile.simps)
  qed (simp add: arrange_tier_interrupt del: takeWhile.simps)
  moreover have "filter ?I ?t @ filter ?I (dropWhile ?P (c # cs)) = filter ?I (c # cs)"
    by (metis filter_append takeWhile_dropWhile_id)
  ultimately show ?case using tier by (simp only: arrange_tiers_unfold filter_append)
qed simp

lemma max_of_None [simp]: "max_of xs = None \<longleftrightarrow> xs = []"
  by (cases xs) auto

lemma fold_max: "fold max xs x = Max (insert x (set xs))"
  by (metis Max.set_eq_fold list.simps(15))

lemma max_of_Some: "max_of xs = Some m \<Longrightarrow> m \<in> set xs \<and> (\<forall>x \<in> set xs. x \<le> m)"
proof (cases xs)
  case (Cons y ys)
  assume "max_of xs = Some m"
  then have "m = Max (set xs)" by (simp add: Cons fold_max)
  then show ?thesis by (simp add: Cons Max_ge del: Max_insert) (metis Max_in List.finite_set empty_not_insert finite_insert insert_iff)
qed simp

lemma set_waits:
  "set (List.map_filter (candidate_wait now aging) (filter (\<lambda>c. cand_class c = k) tier))
    = {w. \<exists>c \<in> set tier. cand_class c = k \<and> candidate_wait now aging c = Some w}"
  by (force simp: map_filter_def)

lemma class_wait_None:
  "class_wait now aging tier k = None \<longleftrightarrow>
    (\<forall>c \<in> set tier. cand_class c = k \<longrightarrow> candidate_wait now aging c = None)"
  by (auto simp: class_wait_def map_filter_def filter_empty_conv)

lemma class_wait_Some:
  assumes "class_wait now aging tier k = Some m"
  shows "\<exists>c \<in> set tier. cand_class c = k \<and> candidate_wait now aging c = Some m"
    and "c \<in> set tier \<Longrightarrow> cand_class c = k \<Longrightarrow> candidate_wait now aging c = Some w \<Longrightarrow> w \<le> m"
  using max_of_Some [OF assms [unfolded class_wait_def]] unfolding set_waits by auto

text \<open>A candidate that waited past the threshold and longer than every one of the other class
  puts its class first.\<close>

lemma first_class_longest:
  assumes c: "c \<in> set tier" "candidate_wait now aging c = Some w"
    and other: "\<forall>d \<in> set tier. cand_class d \<noteq> cand_class c \<longrightarrow>
      (case candidate_wait now aging d of Some v \<Rightarrow> v < w | None \<Rightarrow> True)"
  shows "first_class now aging tier = Some (cand_class c)"
proof -
  define j where "j = (case cand_class c of Implementation \<Rightarrow> Spike | Spike \<Rightarrow> Implementation)"
  have j: "j \<noteq> cand_class c" by (simp add: j_def split: ExecutionClass.split)
  obtain m where m: "class_wait now aging tier (cand_class c) = Some m" "w \<le> m"
    using c class_wait_None [of now aging tier "cand_class c"]
      class_wait_Some(2) [of now aging tier "cand_class c" _ c w]
    by (cases "class_wait now aging tier (cand_class c)") auto
  have "v < m" if v: "class_wait now aging tier j = Some v" for v
  proof -
    from class_wait_Some(1) [OF v] obtain d where d: "d \<in> set tier" "cand_class d = j"
      "candidate_wait now aging d = Some v" by blast
    with other j have "v < w" by fastforce
    with m(2) show ?thesis by simp
  qed
  then show ?thesis
    using m(1) unfolding first_class_def j_def
    by (cases "cand_class c"; cases "class_wait now aging tier Implementation";
        cases "class_wait now aging tier Spike"; force)
qed

text \<open>In a list sorted by priority each tier is everything of its priority.\<close>

lemma sorted_tier:
  assumes "sorted_wrt (\<lambda>a b. cand_priority b \<le> cand_priority a) (c # cs)"
  shows "takeWhile (\<lambda>x. cand_priority x = cand_priority c) (c # cs)
      = filter (\<lambda>x. cand_priority x = cand_priority c) (c # cs)"
    and "\<forall>x \<in> set (dropWhile (\<lambda>x. cand_priority x = cand_priority c) (c # cs)).
      cand_priority x \<noteq> cand_priority c"
proof -
  have "takeWhile (\<lambda>x. cand_priority x = p) xs = filter (\<lambda>x. cand_priority x = p) xs
      \<and> (\<forall>x \<in> set (dropWhile (\<lambda>x. cand_priority x = p) xs). cand_priority x \<noteq> p)"
    if "sorted_wrt (\<lambda>a b. cand_priority b \<le> cand_priority a) xs" "\<forall>x \<in> set xs. cand_priority x \<le> p" for xs p
    using that
  proof (induction xs)
    case (Cons x xs)
    show ?case
    proof (cases "cand_priority x = p")
      case False
      with Cons.prems have "\<forall>y \<in> set (x # xs). cand_priority y \<noteq> p"
        by auto
      with False show ?thesis by (auto simp: filter_empty_conv)
    next
      case True
      have "sorted_wrt (\<lambda>a b. cand_priority b \<le> cand_priority a) xs" "\<forall>y \<in> set xs. cand_priority y \<le> p"
        using Cons.prems by simp_all
      note ih = Cons.IH [OF this]
      have "takeWhile (\<lambda>x. cand_priority x = p) (x # xs) = x # takeWhile (\<lambda>x. cand_priority x = p) xs"
        "filter (\<lambda>x. cand_priority x = p) (x # xs) = x # filter (\<lambda>x. cand_priority x = p) xs"
        "dropWhile (\<lambda>x. cand_priority x = p) (x # xs) = dropWhile (\<lambda>x. cand_priority x = p) xs"
        using True by simp_all
      with ih show ?thesis by presburger
    qed
  qed simp
  note whole = this
  have "\<forall>x \<in> set (c # cs). cand_priority x \<le> cand_priority c"
    using assms unfolding sorted_wrt.simps list.set by blast
  from whole [OF assms this]
  show "takeWhile (\<lambda>x. cand_priority x = cand_priority c) (c # cs)
      = filter (\<lambda>x. cand_priority x = cand_priority c) (c # cs)"
    "\<forall>x \<in> set (dropWhile (\<lambda>x. cand_priority x = cand_priority c) (c # cs)).
      cand_priority x \<noteq> cand_priority c"
    by blast+
qed

lemma arrange_tiers_at:
  assumes "sorted_wrt (\<lambda>a b. cand_priority b \<le> cand_priority a) kept"
  shows "filter (\<lambda>x. cand_priority x = p) (fst (arrange_tiers now aging kept))
    = fst (arrange_tier now aging p (filter (\<lambda>x. cand_priority x = p) kept))"
  using assms
proof (induction kept rule: tiers_induct)
  case Nil
  then show ?case by (simp add: arrange_tier_def split: option.split)
next
  case (tier c cs)
  let ?P = "\<lambda>x. cand_priority x = cand_priority c" and ?p = "\<lambda>x. cand_priority x = p"
  let ?t = "takeWhile ?P (c # cs)" and ?d = "dropWhile ?P (c # cs)"
  have sorted_d: "sorted_wrt (\<lambda>a b. cand_priority b \<le> cand_priority a) ?d"
    using tier.prems by (metis sorted_wrt_append takeWhile_dropWhile_id)
  have split: "filter ?p (c # cs) = filter ?p ?t @ filter ?p ?d"
    by (metis filter_append takeWhile_dropWhile_id)
  have set_t: "set (fst (arrange_tier now aging (cand_priority c) ?t)) = set ?t"
    by (rule mset_eq_setD [OF mset_arrange_tier])
  show ?case
  proof (cases "p = cand_priority c")
    case True
    have all: "filter ?p ?t = ?t"
      using True by (simp add: filter_id_conv del: takeWhile.simps) (auto dest: set_takeWhileD)
    have same: "filter ?p (fst (arrange_tier now aging (cand_priority c) ?t))
        = fst (arrange_tier now aging (cand_priority c) ?t)"
      unfolding filter_id_conv set_t using True by (auto dest: set_takeWhileD)
    have none: "filter ?p ?d = []"
      unfolding True filter_empty_conv by (rule sorted_tier(2) [OF tier.prems])
    moreover have "set (fst (arrange_tiers now aging ?d)) = set ?d"
      by (rule mset_eq_setD [OF mset_arrange_tiers])
    ultimately have rest: "filter ?p (fst (arrange_tiers now aging ?d)) = []"
      by (simp only: filter_empty_conv)
    have "filter ?p (fst (arrange_tiers now aging (c # cs)))
        = fst (arrange_tier now aging (cand_priority c) ?t)"
      unfolding arrange_tiers_unfold filter_append same rest by (rule append_Nil2)
    moreover have "filter ?p (c # cs) = ?t" unfolding split all none by (rule append_Nil2)
    ultimately show ?thesis by (simp only: True)
  next
    case False
    have "filter ?p ?t = []" "filter ?p (fst (arrange_tier now aging (cand_priority c) ?t)) = []"
      unfolding filter_empty_conv set_t using False by (auto dest: set_takeWhileD)
    with tier.IH [OF sorted_d] show ?thesis
      by (simp only: arrange_tiers_unfold split filter_append append_Nil)
  qed
qed

text \<open>What a claim may take: not excluded and held by no class limit.\<close>

definition claimable_now :: "TaskId set \<Rightarrow> ClassLimits \<Rightarrow> Candidate list \<Rightarrow> Candidate list" where
  "claimable_now excluded limits candidates =
    filter (\<lambda>c. cand_id c \<notin> excluded \<and> class_limit limits (cand_class c) = None) candidates"

lemma arrange_order:
  "arr_order (arrange candidates excluded limits now aging)
    = map cand_id (fst (arrange_tiers now aging (claimable_now excluded limits candidates)))"
  by (simp add: arrange_def Let_def case_prod_unfold claimable_now_def conj_commute)

lemma sort_key_ordered: "sorted (map f xs) \<Longrightarrow> sort_key f xs = xs"
  by (simp add: sort_key_id_if_sorted)

lemma mset_split_filter:
  "mset (map f (filter (\<lambda>c. P c \<and> H c) xs)) + mset (map f (filter (\<lambda>c. P c \<and> \<not> H c) xs))
    = mset (map f (filter P xs))"
  by (induction xs) auto

section \<open>Properties\<close>

text \<open>The order of a claim is a rearrangement of what it may take: no candidate is lost,
  invented or doubled, none leaves its effective priority (position by position the priorities
  are the rule's), within each class the rule's order stays, and so it does for the interrupts.\<close>

theorem arrange_rearranges:
  "\<exists>cs. arr_order (arrange candidates excluded limits now aging) = map cand_id cs
    \<and> mset cs = mset (claimable_now excluded limits candidates)
    \<and> map cand_priority cs = map cand_priority (claimable_now excluded limits candidates)
    \<and> (\<forall>k. filter (\<lambda>c. cand_class c = k) cs
        = filter (\<lambda>c. cand_class c = k) (claimable_now excluded limits candidates))
    \<and> filter (\<lambda>c. cand_priority c = Interrupt) cs
        = filter (\<lambda>c. cand_priority c = Interrupt) (claimable_now excluded limits candidates)"
  by (intro exI [of _ "fst (arrange_tiers now aging (claimable_now excluded limits candidates))"]
      conjI allI arrange_order mset_arrange_tiers priorities_arrange_tiers
      interrupts_arrange_tiers filter_arrange_tiers)

text \<open>Aging: in the rule's order by priority, when a candidate below interrupt waited past the
  threshold and longer than every candidate of the other class at its priority, the claim takes
  all of its class at that priority before the others, each class in the rule's order.\<close>

lemma arrange_longest_wait_first:
  assumes "sorted_wrt (\<lambda>a b. cand_priority b \<le> cand_priority a) (claimable_now excluded limits candidates)"
    and "c \<in> set (claimable_now excluded limits candidates)" and "cand_priority c \<noteq> Interrupt"
    and "candidate_wait now aging c = Some w"
    and "\<forall>d \<in> set (claimable_now excluded limits candidates).
      cand_priority d = cand_priority c \<longrightarrow> cand_class d \<noteq> cand_class c \<longrightarrow>
      (case candidate_wait now aging d of Some v \<Rightarrow> v < w | None \<Rightarrow> True)"
  shows "\<exists>cs. arr_order (arrange candidates excluded limits now aging) = map cand_id cs
    \<and> (let tier = filter (\<lambda>d. cand_priority d = cand_priority c) (claimable_now excluded limits candidates)
       in filter (\<lambda>d. cand_priority d = cand_priority c) cs
         = filter (\<lambda>d. cand_class d = cand_class c) tier @ filter (\<lambda>d. cand_class d \<noteq> cand_class c) tier)"
proof -
  let ?kept = "claimable_now excluded limits candidates"
  let ?tier = "filter (\<lambda>d. cand_priority d = cand_priority c) ?kept"
  have "first_class now aging ?tier = Some (cand_class c)"
    by (rule first_class_longest [of c ?tier now aging w]) (use assms(2,4,5) in auto)
  then have "fst (arrange_tier now aging (cand_priority c) ?tier)
      = filter (\<lambda>d. cand_class d = cand_class c) ?tier @ filter (\<lambda>d. cand_class d \<noteq> cand_class c) ?tier"
    using assms(3) by (simp add: arrange_tier_def Let_def)
  then show ?thesis
    using arrange_tiers_at [OF assms(1), of "cand_priority c" now aging]
    unfolding Let_def
    by (intro exI [of _ "fst (arrange_tiers now aging ?kept)"] conjI arrange_order) (simp only:)
qed

definition example_candidates :: "Candidate list" where
  "example_candidates =
    [\<lparr>cand_id = TaskId 1, cand_class = Implementation, cand_priority = High, cand_ready_at_ms = Some 9000000\<rparr>,
     \<lparr>cand_id = TaskId 2, cand_class = Spike, cand_priority = High, cand_ready_at_ms = Some 0\<rparr>,
     \<lparr>cand_id = TaskId 3, cand_class = Implementation, cand_priority = Low, cand_ready_at_ms = None\<rparr>]"

definition example_limits :: ClassLimits where
  "example_limits = \<lparr>max_spikes = Some 1, running_spikes = 0\<rparr>"

definition example_aged :: Candidate where
  "example_aged =
    \<lparr>cand_id = TaskId 2, cand_class = Spike, cand_priority = High, cand_ready_at_ms = Some 0\<rparr>"

lemma example_aged_first:
  "arr_order (arrange example_candidates {} example_limits 9000000 3600) = [TaskId 2, TaskId 1, TaskId 3]"
  by code_simp

text \<open>What the class limits leave out: exactly the candidates that are not excluded and whose
  class a limit holds, in the rule's order, each with the limit's reason; so every candidate that
  is not excluded is in the order or left out with a reason, never both.\<close>

lemma arrange_limited:
  "arr_limited (arrange candidates excluded limits now aging)
      = map (\<lambda>c. (cand_id c, SPIKE_LIMIT)) (filter (\<lambda>c. cand_id c \<notin> excluded
          \<and> cand_class c = Spike \<and> (\<exists>m. max_spikes limits = Some m \<and> m \<le> running_spikes limits)) candidates)
    \<and> mset (map fst (arr_limited (arrange candidates excluded limits now aging)))
        + mset (arr_order (arrange candidates excluded limits now aging))
      = mset (map cand_id (filter (\<lambda>c. cand_id c \<notin> excluded) candidates))"
proof -
  let ?held = "\<lambda>c. cand_class c = Spike \<and> (\<exists>m. max_spikes limits = Some m \<and> m \<le> running_spikes limits)"
  let ?out = "\<lambda>c. cand_id c \<notin> excluded"
  have limit: "class_limit limits (cand_class c) = (if ?held c then Some SPIKE_LIMIT else None)" for c
    by (auto simp: class_limit_def split: ExecutionClass.split option.split)
  have lim: "arr_limited (arrange candidates excluded limits now aging)
      = map (\<lambda>c. (cand_id c, SPIKE_LIMIT)) (filter (\<lambda>c. ?out c \<and> ?held c) candidates)"
    unfolding arrange_def Let_def case_prod_unfold Arranged.simps limit
    by (induction candidates) (auto simp: map_filter_simps)
  have "mset (map fst (arr_limited (arrange candidates excluded limits now aging)))
      + mset (arr_order (arrange candidates excluded limits now aging))
      = mset (map cand_id (filter (\<lambda>c. ?out c \<and> ?held c) candidates))
        + mset (map cand_id (filter (\<lambda>c. ?out c \<and> \<not> ?held c) candidates))"
    unfolding lim arrange_order mset_map mset_arrange_tiers claimable_now_def limit
    by (simp add: comp_def multiset.map_comp if_splits) (rule arg_cong [where f = "image_mset cand_id"], rule filter_mset_cong, auto)
  with lim show ?thesis unfolding mset_split_filter by blast
qed

text \<open>The line for the free slots: at each effective priority the resumes stand first, then the
  recovery jobs, then the claims, each kind in the order it was given in, and no higher priority
  stands behind a lower one.\<close>

theorem slot_order_line:
  assumes "\<forall>c \<in> set resumes. slot_kind c = SlotResume" and "\<forall>c \<in> set recoveries. slot_kind c = SlotRecovery"
    and "\<forall>c \<in> set claims. slot_kind c = SlotClaim"
  shows "filter (\<lambda>c. slot_priority c = p) (slot_order (resumes @ recoveries @ claims))
      = filter (\<lambda>c. slot_priority c = p) resumes @ filter (\<lambda>c. slot_priority c = p) recoveries
        @ filter (\<lambda>c. slot_priority c = p) claims
    \<and> sorted_wrt (\<lambda>a b. slot_priority b \<le> slot_priority a) (slot_order (resumes @ recoveries @ claims))"
proof
  let ?key = "\<lambda>c. (Reverse (slot_priority c), slot_kind c)"
  let ?P = "\<lambda>c. slot_priority c = p"
  let ?xs = "filter ?P resumes @ filter ?P recoveries @ filter ?P claims"
  have "sorted (map ?key ?xs)"
    using assms by (auto simp: sorted_wrt_append sorted_map less_eq_prod_simp less_eq_SlotKind_def
        intro!: sorted_wrt_mono_rel [of _ "\<lambda>_ _. True"] sorted_wrt_true)
  then have "sort_key ?key ?xs = ?xs" by (rule sort_key_ordered)
  then show "filter ?P (slot_order (resumes @ recoveries @ claims)) = ?xs"
    by (simp add: slot_order_def filter_sort)
  have "sorted (map ?key (slot_order (resumes @ recoveries @ claims)))"
    by (simp add: slot_order_def)
  then show "sorted_wrt (\<lambda>a b. slot_priority b \<le> slot_priority a) (slot_order (resumes @ recoveries @ claims))"
    unfolding sorted_map by (rule sorted_wrt_mono_rel [rotated]) (auto simp: less_eq_prod_simp)
qed

end
