(* ===== verification/Replacements.thy ===== *)
theory Replacements
  imports Goal_Aggregate
begin

text \<open>
  The walk over the replacements of replaced tasks: \<open>unresolved_replacements\<close> of
  \<^verbatim>\<open>src/domain/replan_apply.rs\<close>, a depth-first search that records each task whose replacement
  record is empty, names a task that is not there or loops.

  The walk's \<open>&mut\<close> state, the visited set and the faults found, is threaded through it. The
  recursion is bounded by fuel, \<open>None\<close> when it runs out; \<open>unresolved_replacements\<close> gives it one
  more than there are tasks, and \<open>walk_ok\<close> shows that this is enough: every nested walk visits
  a task that is there and was not visited. Shown: the result is empty exactly when the record is
  resolved, that is, every replaced task reached has a replacement, every replacement named is
  there, and no replacement leads back to itself; and every fault reported is one.
\<close>

section \<open>The walk\<close>

type_synonym walk_state = "TaskId set \<times> UnresolvedReplacement list"

text \<open>\<open>BTreeSet::insert\<close> on the ascending list of the faults.\<close>

definition insert_found :: "UnresolvedReplacement \<Rightarrow> UnresolvedReplacement list \<Rightarrow> UnresolvedReplacement list" where
  "insert_found u found = (if u \<in> set found then found else insort_key unresolved_key u found)"

definition replacing :: "(TaskId \<rightharpoonup> TaskId list) \<Rightarrow> TaskId \<Rightarrow> TaskId list" where
  "replacing replacements task = (case replacements task of Some children \<Rightarrow> children | None \<Rightarrow> [])"

text \<open>A loop over a list whose body may run out of fuel.\<close>

fun each_child :: "('a \<Rightarrow> 's \<Rightarrow> 's option) \<Rightarrow> 'a list \<Rightarrow> 's \<Rightarrow> 's option" where
  "each_child f [] st = Some st"
| "each_child f (x # xs) st = Option.bind (f x st) (each_child f xs)"

definition child_fault ::
  "(TaskId \<rightharpoonup> TaskStatus) \<Rightarrow> TaskId list \<Rightarrow> TaskId \<Rightarrow> ReplacementFault option" where
  "child_fault statuses path child =
    (if statuses child = None then Some (Missing child)
     else if child \<in> set path then Some (Cycle child)
     else None)"

text \<open>The body of the inner loop; \<open>go\<close> is the nested walk.\<close>

definition walk_child ::
  "(TaskId \<Rightarrow> walk_state \<Rightarrow> walk_state option) \<Rightarrow> (TaskId \<rightharpoonup> TaskStatus) \<Rightarrow> TaskId \<Rightarrow> TaskId list
    \<Rightarrow> TaskId \<Rightarrow> walk_state \<Rightarrow> walk_state option" where
  "walk_child go statuses task path child st =
    (case child_fault statuses path child of
       Some fault \<Rightarrow>
         Some (fst st, insert_found \<lparr>unresolved_task = task, unresolved_fault = fault\<rparr> (snd st))
     | None \<Rightarrow> if child \<notin> fst st then go child st else Some st)"

primrec walk ::
  "nat \<Rightarrow> (TaskId \<rightharpoonup> TaskId list) \<Rightarrow> (TaskId \<rightharpoonup> TaskStatus) \<Rightarrow> TaskId \<Rightarrow> bool \<Rightarrow> TaskId list
    \<Rightarrow> walk_state \<Rightarrow> walk_state option" where
  "walk 0 replacements statuses task root path st = None"
| "walk (Suc n) replacements statuses task root path st =
    (let visited = insert task (fst st);
         path = path @ [task];
         children = replacing replacements task;
         found = (if children = [] \<and> (root \<or> statuses task = Some TaskStatus.Replaced)
           then insert_found \<lparr>unresolved_task = task, unresolved_fault = Empty\<rparr> (snd st)
           else snd st)
     in each_child
          (walk_child (\<lambda>child st. walk n replacements statuses child False path st) statuses task path)
          children (visited, found))"

definition unresolved_replacements ::
  "TaskId list \<Rightarrow> (TaskId \<rightharpoonup> TaskId list) \<Rightarrow> (TaskId \<times> TaskStatus) list
    \<Rightarrow> UnresolvedReplacement list option" where
  "unresolved_replacements from replacements statuses =
    map_option snd (each_child
      (\<lambda>task st. if task \<notin> fst st
         then walk (Suc (length statuses)) replacements (map_of statuses) task True [] st
         else Some st)
      from ({}, []))"

section \<open>What the record says\<close>

text \<open>The replacements that are there, and what a resolved record is.\<close>

definition replaced_by ::
  "(TaskId \<rightharpoonup> TaskId list) \<Rightarrow> (TaskId \<rightharpoonup> TaskStatus) \<Rightarrow> (TaskId \<times> TaskId) set" where
  "replaced_by r s = {(t, c). c \<in> set (replacing r t) \<and> s c \<noteq> None}"

definition resolved_at ::
  "(TaskId \<rightharpoonup> TaskId list) \<Rightarrow> (TaskId \<rightharpoonup> TaskStatus) \<Rightarrow> TaskId \<Rightarrow> bool" where
  "resolved_at r s t \<longleftrightarrow>
    (s t = Some TaskStatus.Replaced \<longrightarrow> replacing r t \<noteq> [])
    \<and> (\<forall>c \<in> set (replacing r t). s c \<noteq> None)
    \<and> (t, t) \<notin> (replaced_by r s)\<^sup>+"

text \<open>A fault that is one: what it says holds of the record, walked from \<open>R\<close>.\<close>

definition fault_holds ::
  "TaskId set \<Rightarrow> (TaskId \<rightharpoonup> TaskId list) \<Rightarrow> (TaskId \<rightharpoonup> TaskStatus) \<Rightarrow> UnresolvedReplacement \<Rightarrow> bool" where
  "fault_holds R r s u =
    (case unresolved_fault u of
       Empty \<Rightarrow> replacing r (unresolved_task u) = []
         \<and> (unresolved_task u \<in> R \<or> s (unresolved_task u) = Some TaskStatus.Replaced)
     | Missing c \<Rightarrow> c \<in> set (replacing r (unresolved_task u)) \<and> s c = None
     | Cycle c \<Rightarrow> (unresolved_task u, c) \<in> replaced_by r s
         \<and> (c, unresolved_task u) \<in> (replaced_by r s)\<^sup>*)"

section \<open>Lemmas\<close>

lemma set_insert_found [simp]: "set (insert_found u found) = insert u (set found)"
  by (auto simp: insert_found_def set_insort_key)

lemma insert_found_sorted:
  "sorted (map unresolved_key found) \<Longrightarrow> sorted (map unresolved_key (insert_found u found))"
  by (simp add: insert_found_def sorted_insort_key)

abbreviation fault_at :: "TaskId \<Rightarrow> ReplacementFault \<Rightarrow> UnresolvedReplacement" where
  "fault_at t f \<equiv> \<lparr>unresolved_task = t, unresolved_fault = f\<rparr>"

definition no_cycle :: "UnresolvedReplacement list \<Rightarrow> bool" where
  "no_cycle found \<longleftrightarrow> (\<forall>u \<in> set found. \<forall>c. unresolved_fault u \<noteq> Cycle c)"

text \<open>The invariant of the search: of every task already left, its replacements are visited, its
  faults are recorded, and as long as no loop was found they are left too and it is on none.\<close>

definition left_ok ::
  "(TaskId \<rightharpoonup> TaskId list) \<Rightarrow> (TaskId \<rightharpoonup> TaskStatus) \<Rightarrow> TaskId set \<Rightarrow> TaskId set
    \<Rightarrow> UnresolvedReplacement list \<Rightarrow> TaskId \<Rightarrow> bool" where
  "left_ok r s V G F t \<longleftrightarrow>
    (\<forall>c. (t, c) \<in> replaced_by r s \<longrightarrow> c \<in> V)
    \<and> (replacing r t = [] \<longrightarrow> s t = Some TaskStatus.Replaced \<longrightarrow> fault_at t Empty \<in> set F)
    \<and> (\<forall>c \<in> set (replacing r t). s c = None \<longrightarrow> fault_at t (Missing c) \<in> set F)
    \<and> (no_cycle F \<longrightarrow> (\<forall>c. (t, c) \<in> replaced_by r s \<longrightarrow> c \<in> V - G) \<and> (t, t) \<notin> (replaced_by r s)\<^sup>+)"

definition search_ok ::
  "TaskId set \<Rightarrow> (TaskId \<rightharpoonup> TaskId list) \<Rightarrow> (TaskId \<rightharpoonup> TaskStatus) \<Rightarrow> TaskId set \<Rightarrow> walk_state \<Rightarrow> bool" where
  "search_ok R r s G st \<longleftrightarrow>
    G \<subseteq> fst st
    \<and> (\<forall>t \<in> fst st - G. left_ok r s (fst st) G (snd st) t)
    \<and> (\<forall>u \<in> set (snd st). unresolved_task u \<in> fst st \<and> fault_holds R r s u)
    \<and> sorted (map unresolved_key (snd st))"

text \<open>What a step of the search may do to its state.\<close>

definition grows :: "walk_state \<Rightarrow> walk_state \<Rightarrow> bool" where
  "grows st st' \<longleftrightarrow> fst st \<subseteq> fst st' \<and> set (snd st) \<subseteq> set (snd st')"

lemma grows_refl [simp]: "grows st st"
  by (simp add: grows_def)

lemma grows_trans: "grows a b \<Longrightarrow> grows b c \<Longrightarrow> grows a c"
  by (auto simp: grows_def)

lemma no_cycle_grows: "grows st st' \<Longrightarrow> no_cycle (snd st') \<Longrightarrow> no_cycle (snd st)"
  by (auto simp: grows_def no_cycle_def)

lemma left_ok_grows:
  assumes "left_ok r s V G F t" "V \<subseteq> V'" "set F \<subseteq> set F'"
  shows "left_ok r s V' G F' t"
proof -
  have "no_cycle F' \<Longrightarrow> no_cycle F" using assms(3) by (auto simp: no_cycle_def)
  with assms show ?thesis unfolding left_ok_def by blast
qed

text \<open>Entering a task: it joins the path, and nothing already left changes.\<close>

lemma search_ok_enter:
  assumes "search_ok R r s G st" "task \<notin> fst st"
    and "found = snd st \<or> found = insert_found (fault_at task Empty) (snd st) \<and> replacing r task = []
      \<and> (task \<in> R \<or> s task = Some TaskStatus.Replaced)"
  shows "search_ok R r s (insert task G) (insert task (fst st), found)"
proof -
  have left: "left_ok r s (insert task (fst st)) (insert task G) found t" if "t \<in> fst st - G" for t
  proof -
    have "no_cycle found \<longleftrightarrow> no_cycle (snd st)" "set (snd st) \<subseteq> set found"
      using assms(3) by (auto simp: no_cycle_def)
    moreover have "left_ok r s (fst st) G (snd st) t"
      using assms(1) that by (auto simp: search_ok_def)
    ultimately show ?thesis using assms(2) unfolding left_ok_def by blast
  qed
  have "insert task (fst st) - insert task G = fst st - G" using assms(2) by blast
  moreover have "sorted (map unresolved_key found)"
    using assms(1,3) by (auto simp: search_ok_def insert_found_sorted)
  moreover have "\<forall>u \<in> set found. unresolved_task u \<in> insert task (fst st) \<and> fault_holds R r s u"
    using assms(1,3) by (auto simp: search_ok_def fault_holds_def)
  ultimately show ?thesis
    using assms(1) left by (auto simp: search_ok_def)
qed

text \<open>Leaving a task whose replacements are all done.\<close>

definition child_done ::
  "(TaskId \<rightharpoonup> TaskStatus) \<Rightarrow> TaskId set \<Rightarrow> TaskId \<Rightarrow> walk_state \<Rightarrow> TaskId \<Rightarrow> bool" where
  "child_done s G task st c \<longleftrightarrow>
    (s c = None \<longrightarrow> fault_at task (Missing c) \<in> set (snd st))
    \<and> (s c \<noteq> None \<longrightarrow> c \<in> fst st)
    \<and> (s c \<noteq> None \<longrightarrow> no_cycle (snd st) \<longrightarrow> c \<in> fst st - G)"

lemma child_done_grows: "child_done s G task st c \<Longrightarrow> grows st st' \<Longrightarrow> child_done s G task st' c"
  using no_cycle_grows [of st st'] unfolding child_done_def grows_def by blast

lemma search_ok_leave:
  assumes ok: "search_ok R r s (insert task G) st" and "task \<notin> G"
    and held: "\<forall>c \<in> set (replacing r task). child_done s (insert task G) task st c"
    and empty: "replacing r task = [] \<longrightarrow> s task = Some TaskStatus.Replaced \<longrightarrow> fault_at task Empty \<in> set (snd st)"
  shows "search_ok R r s G st"
proof -
  let ?E = "replaced_by r s"
  have left: "left_ok r s (fst st) (insert task G) (snd st) t" if "t \<in> fst st - insert task G" for t
    using ok that by (auto simp: search_ok_def)
  have task_edges: "c \<in> fst st" "no_cycle (snd st) \<Longrightarrow> c \<in> fst st - insert task G"
    if "(task, c) \<in> ?E" for c
    using held that by (auto simp: replaced_by_def child_done_def)
  have "(task, task) \<notin> ?E\<^sup>+" if none: "no_cycle (snd st)"
  proof
    assume "(task, task) \<in> ?E\<^sup>+"
    then obtain c where c: "(task, c) \<in> ?E" "(c, task) \<in> ?E\<^sup>*" by (meson tranclD)
    have "y \<in> fst st - insert task G" if "(x, y) \<in> ?E\<^sup>*" "x \<in> fst st - insert task G" for x y
      using that
    proof (induction rule: rtrancl_induct)
      case (step y z)
      with left none show ?case unfolding left_ok_def by blast
    qed
    from this [OF c(2)] task_edges(2) [OF c(1) none] show False by blast
  qed
  then have task_left: "left_ok r s (fst st) G (snd st) task"
    using task_edges held empty unfolding left_ok_def by (auto simp: child_done_def)
  moreover have "left_ok r s (fst st) G (snd st) t" if "t \<in> fst st - insert task G" for t
    using left [OF that] unfolding left_ok_def by blast
  ultimately have "\<forall>t \<in> fst st - G. left_ok r s (fst st) G (snd st) t" by blast
  with ok show ?thesis by (auto simp: search_ok_def)
qed

text \<open>What one walk promises, given the fuel for the tasks it may still visit.\<close>

definition walks ::
  "nat \<Rightarrow> TaskId set \<Rightarrow> (TaskId \<rightharpoonup> TaskId list) \<Rightarrow> (TaskId \<rightharpoonup> TaskStatus) \<Rightarrow> TaskId \<Rightarrow> bool \<Rightarrow> TaskId list
    \<Rightarrow> walk_state \<Rightarrow> bool" where
  "walks n R r s task root path st \<longleftrightarrow>
    (\<exists>st'. walk n r s task root path st = Some st' \<and> grows st st' \<and> task \<in> fst st'
      \<and> search_ok R r s (set path) st' \<and> fst st' \<subseteq> fst st \<union> (replaced_by r s)\<^sup>* `` {task})"

definition may_walk ::
  "nat \<Rightarrow> TaskId set \<Rightarrow> (TaskId \<rightharpoonup> TaskId list) \<Rightarrow> (TaskId \<rightharpoonup> TaskStatus) \<Rightarrow> TaskId \<Rightarrow> TaskId list \<Rightarrow> walk_state \<Rightarrow> bool"
where
  "may_walk n R r s task path st \<longleftrightarrow>
    card (dom s - insert task (fst st)) < n \<and> task \<notin> fst st \<and> search_ok R r s (set path) st
    \<and> (\<forall>g \<in> set path. (g, task) \<in> (replaced_by r s)\<^sup>*)"

lemma walk_child_ok:
  assumes fin: "finite (dom s)"
    and ih: "\<And>child st. may_walk n R r s child path st \<Longrightarrow> walks n R r s child False path st"
    and st: "search_ok R r s (set path) st" "task \<in> fst st" "card (dom s - fst st) \<le> n"
    and path: "task \<in> set path" "\<forall>g \<in> set path. (g, task) \<in> (replaced_by r s)\<^sup>*"
    and c: "c \<in> set (replacing r task)"
  shows "\<exists>st'. walk_child (\<lambda>child st. walk n r s child False path st) s task path c st = Some st'
    \<and> grows st st' \<and> search_ok R r s (set path) st' \<and> child_done s (set path) task st' c
    \<and> fst st' \<subseteq> fst st \<union> (replaced_by r s)\<^sup>* `` {task}"
proof (cases "child_fault s path c")
  case (Some fault)
  let ?st = "(fst st, insert_found (fault_at task fault) (snd st))"
  from Some have fault: "s c = None \<and> fault = Missing c
      \<or> s c \<noteq> None \<and> c \<in> set path \<and> fault = Cycle c"
    by (auto simp: child_fault_def split: if_splits)
  then have holds: "fault_holds R r s (fault_at task fault)"
    using c path(2) by (auto simp: fault_holds_def replaced_by_def)
  have "left_ok r s (fst st) (set path) (insert_found (fault_at task fault) (snd st)) t"
    if "t \<in> fst st - set path" for t
    using st(1) that by (auto simp: search_ok_def intro: left_ok_grows)
  then have "search_ok R r s (set path) ?st"
    using st holds by (auto simp: search_ok_def insert_found_sorted)
  moreover have "child_done s (set path) task ?st c"
    using fault st(1) by (auto simp: child_done_def search_ok_def no_cycle_def)
  ultimately show ?thesis
    using Some by (auto simp: walk_child_def grows_def)
next
  case None
  then have there: "s c \<noteq> None" and new: "c \<notin> set path"
    by (auto simp: child_fault_def split: if_splits)
  have edge: "(task, c) \<in> replaced_by r s" using c there by (simp add: replaced_by_def)
  show ?thesis
  proof (cases "c \<in> fst st")
    case True
    then have "child_done s (set path) task st c"
      using there new by (auto simp: child_done_def)
    with True None st(1) show ?thesis by (auto simp: walk_child_def)
  next
    case False
    then have "card (dom s - insert c (fst st)) < n"
    proof -
      have "dom s - insert c (fst st) \<subset> dom s - fst st" using there False by auto
      with fin have "card (dom s - insert c (fst st)) < card (dom s - fst st)"
        by (intro psubset_card_mono) simp_all
      with st(3) show ?thesis by linarith
    qed
    then have "may_walk n R r s c path st"
      using False st(1) path(2) edge by (auto simp: may_walk_def intro: rtrancl_into_rtrancl)
    from ih [OF this] obtain st' where st': "walk n r s c False path st = Some st'" "grows st st'"
      "c \<in> fst st'" "search_ok R r s (set path) st'" "fst st' \<subseteq> fst st \<union> (replaced_by r s)\<^sup>* `` {c}"
      by (auto simp: walks_def)
    have "child_done s (set path) task st' c"
      using st'(3) there new by (auto simp: child_done_def)
    moreover have "(replaced_by r s)\<^sup>* `` {c} \<subseteq> (replaced_by r s)\<^sup>* `` {task}"
      using edge by (auto intro: converse_rtrancl_into_rtrancl)
    ultimately have "fst st' \<subseteq> fst st \<union> (replaced_by r s)\<^sup>* `` {task}" "child_done s (set path) task st' c"
      using st'(5) by blast+
    moreover have "walk_child (\<lambda>child st. walk n r s child False path st) s task path c st = Some st'"
      using st'(1) False None by (simp add: walk_child_def)
    ultimately show ?thesis using st'(2,4) by blast
  qed
qed

lemma children_ok:
  assumes fin: "finite (dom s)"
    and ih: "\<And>child st. may_walk n R r s child path st \<Longrightarrow> walks n R r s child False path st"
    and path: "task \<in> set path" "\<forall>g \<in> set path. (g, task) \<in> (replaced_by r s)\<^sup>*"
  shows "set cs \<subseteq> set (replacing r task) \<Longrightarrow> search_ok R r s (set path) st \<Longrightarrow> task \<in> fst st
    \<Longrightarrow> card (dom s - fst st) \<le> n \<Longrightarrow>
    \<exists>st'. each_child (walk_child (\<lambda>child st. walk n r s child False path st) s task path) cs st = Some st'
      \<and> grows st st' \<and> search_ok R r s (set path) st' \<and> (\<forall>c \<in> set cs. child_done s (set path) task st' c)
      \<and> fst st' \<subseteq> fst st \<union> (replaced_by r s)\<^sup>* `` {task}"
proof (induction cs arbitrary: st)
  case Nil
  then show ?case by auto
next
  case (Cons c cs)
  from walk_child_ok [OF fin ih Cons.prems(2-4) path, of c] Cons.prems(1)
  obtain u where u: "walk_child (\<lambda>child st. walk n r s child False path st) s task path c st = Some u"
    "grows st u" "search_ok R r s (set path) u" "child_done s (set path) task u c"
    "fst u \<subseteq> fst st \<union> (replaced_by r s)\<^sup>* `` {task}"
    by auto
  have "task \<in> fst u" using u(2) Cons.prems(3) by (auto simp: grows_def)
  moreover have "card (dom s - fst u) \<le> n"
  proof -
    have "dom s - fst u \<subseteq> dom s - fst st" using u(2) by (auto simp: grows_def)
    then show ?thesis using card_mono [of "dom s - fst st"] fin Cons.prems(4) by (meson finite_Diff le_trans)
  qed
  moreover have "set cs \<subseteq> set (replacing r task)" using Cons.prems(1) by simp
  ultimately obtain v where v: "each_child (walk_child (\<lambda>child st. walk n r s child False path st) s task path) cs u = Some v"
    "grows u v" "search_ok R r s (set path) v" "\<forall>c \<in> set cs. child_done s (set path) task v c"
    "fst v \<subseteq> fst u \<union> (replaced_by r s)\<^sup>* `` {task}"
    using Cons.IH [OF _ u(3)] by blast
  have "child_done s (set path) task v c" using child_done_grows [OF u(4) v(2)] .
  moreover have "grows st v" using grows_trans [OF u(2) v(2)] .
  ultimately show ?case using u(1,5) v by auto
qed

lemma walk_ok:
  assumes fin: "finite (dom s)"
  shows "may_walk n R r s task path st \<Longrightarrow> root \<longrightarrow> task \<in> R \<Longrightarrow> walks n R r s task root path st"
proof (induction n arbitrary: task root path st)
  case 0
  then show ?case by (simp add: may_walk_def)
next
  case (Suc n)
  let ?path = "path @ [task]" and ?cs = "replacing r task"
  define found where "found = (if ?cs = [] \<and> (root \<or> s task = Some TaskStatus.Replaced)
    then insert_found (fault_at task Empty) (snd st) else snd st)"
  let ?st = "(insert task (fst st), found)"
  from Suc.prems have m: "card (dom s - insert task (fst st)) \<le> n" "task \<notin> fst st"
    "search_ok R r s (set path) st" "\<forall>g \<in> set path. (g, task) \<in> (replaced_by r s)\<^sup>*"
    by (auto simp: may_walk_def)
  have "task \<notin> set path" using m(2,3) by (auto simp: search_ok_def)
  have enter: "search_ok R r s (set ?path) ?st"
    using search_ok_enter [OF m(3,2), of found] Suc.prems(2) by (auto simp: found_def)
  have path: "task \<in> set ?path" "\<forall>g \<in> set ?path. (g, task) \<in> (replaced_by r s)\<^sup>*"
    using m(4) by auto
  have "\<And>child st. may_walk n R r s child ?path st \<Longrightarrow> walks n R r s child False ?path st"
    by (rule Suc.IH) simp_all
  from children_ok [OF fin this path, of ?cs ?st] enter m(1)
  obtain st' where st': "each_child (walk_child (\<lambda>child st. walk n r s child False ?path st) s task ?path) ?cs ?st = Some st'"
    "grows ?st st'" "search_ok R r s (set ?path) st'" "\<forall>c \<in> set ?cs. child_done s (set ?path) task st' c"
    "fst st' \<subseteq> fst ?st \<union> (replaced_by r s)\<^sup>* `` {task}"
    by auto
  have walk: "walk (Suc n) r s task root path st = Some st'"
    using st'(1) by (simp add: Let_def found_def)
  have "replacing r task = [] \<longrightarrow> s task = Some TaskStatus.Replaced \<longrightarrow> fault_at task Empty \<in> set (snd st')"
    using st'(2) by (auto simp: grows_def found_def)
  moreover have "set ?path = insert task (set path)" by simp
  ultimately have leave: "search_ok R r s (set path) st'"
    using search_ok_leave [of R r s task "set path" st'] st'(3,4) \<open>task \<notin> set path\<close> by metis
  have "set (snd st) \<subseteq> set found" by (auto simp: found_def)
  then have "grows st st'" "task \<in> fst st'"
    using st'(2) by (auto simp: grows_def)
  moreover have "fst st' \<subseteq> fst st \<union> (replaced_by r s)\<^sup>* `` {task}" using st'(5) by auto
  ultimately show ?case using walk leave unfolding walks_def by blast
qed

lemma card_dom_map_of: "card (dom (map_of sts) - X) \<le> length sts"
proof -
  have "card (dom (map_of sts) - X) \<le> card (dom (map_of sts))"
    by (rule card_mono) (auto simp: finite_dom_map_of)
  also have "\<dots> \<le> length sts"
    using card_image_le [of "set sts" fst] card_length [of sts] by (simp add: dom_map_of_conv_image_fst)
  finally show ?thesis .
qed

abbreviation from_roots ::
  "(TaskId \<rightharpoonup> TaskId list) \<Rightarrow> (TaskId \<times> TaskStatus) list \<Rightarrow> TaskId \<Rightarrow> walk_state \<Rightarrow> walk_state option" where
  "from_roots r sts \<equiv> (\<lambda>task st. if task \<notin> fst st
     then walk (Suc (length sts)) r (map_of sts) task True [] st else Some st)"

lemma roots_ok:
  "set ts \<subseteq> R \<Longrightarrow> search_ok R r (map_of sts) {} st \<Longrightarrow>
    \<exists>st'. each_child (from_roots r sts) ts st = Some st' \<and> search_ok R r (map_of sts) {} st'
      \<and> fst st \<union> set ts \<subseteq> fst st' \<and> fst st' \<subseteq> fst st \<union> (replaced_by r (map_of sts))\<^sup>* `` set ts"
proof (induction ts arbitrary: st)
  case Nil
  then show ?case by simp
next
  case (Cons t ts)
  let ?s = "map_of sts"
  have "\<exists>u. from_roots r sts t st = Some u \<and> search_ok R r ?s {} u \<and> fst st \<subseteq> fst u \<and> t \<in> fst u
    \<and> fst u \<subseteq> fst st \<union> (replaced_by r ?s)\<^sup>* `` {t}"
  proof (cases "t \<in> fst st")
    case True
    with Cons.prems(2) show ?thesis by auto
  next
    case False
    then have "may_walk (Suc (length sts)) R r ?s t [] st"
      using Cons.prems(2) card_dom_map_of [of sts "insert t (fst st)"] by (simp add: may_walk_def)
    from walk_ok [OF finite_dom_map_of this, of True] Cons.prems(1) False show ?thesis
      by (auto simp: walks_def grows_def)
  qed
  then obtain u where u: "from_roots r sts t st = Some u" "search_ok R r ?s {} u" "fst st \<subseteq> fst u"
    "t \<in> fst u" "fst u \<subseteq> fst st \<union> (replaced_by r ?s)\<^sup>* `` {t}"
    by blast
  from Cons.IH [OF _ u(2)] Cons.prems(1) obtain v where v: "each_child (from_roots r sts) ts u = Some v"
    "search_ok R r ?s {} v" "fst u \<union> set ts \<subseteq> fst v" "fst v \<subseteq> fst u \<union> (replaced_by r ?s)\<^sup>* `` set ts"
    by auto
  have "each_child (from_roots r sts) (t # ts) st = Some v" using u(1) v(1) by simp
  moreover have "fst st \<union> set (t # ts) \<subseteq> fst v" using u(3,4) v(3) by auto
  moreover have "fst v \<subseteq> fst st \<union> (replaced_by r ?s)\<^sup>* `` set (t # ts)" using u(5) v(4) by auto
  ultimately show ?case using v(2) by blast
qed

text \<open>A fault of a resolved task is none.\<close>

lemma fault_refutes:
  assumes "fault_holds R r s u" "resolved_at r s (unresolved_task u)"
    and "\<forall>t \<in> R. s t = Some TaskStatus.Replaced"
  shows False
proof (cases "unresolved_fault u")
  case (Cycle c)
  with assms(1) have "(unresolved_task u, unresolved_task u) \<in> (replaced_by r s)\<^sup>+"
    by (auto simp: fault_holds_def intro: rtrancl_into_trancl2)
  with assms(2) show False by (simp add: resolved_at_def)
qed (use assms in \<open>auto simp: fault_holds_def resolved_at_def\<close>)

text \<open>The search ends, and what it holds when it ends.\<close>

lemma unresolved_replacements_ends:
  obtains visited found where "unresolved_replacements from r sts = Some found"
    and "search_ok (set from) r (map_of sts) {} (visited, found)"
    and "visited = (replaced_by r (map_of sts))\<^sup>* `` set from"
proof -
  let ?s = "map_of sts" and ?R = "set from"
  have "search_ok ?R r ?s {} ({}, [])" by (simp add: search_ok_def)
  from roots_ok [OF subset_refl this] obtain st where st:
    "each_child (from_roots r sts) from ({}, []) = Some st" "search_ok ?R r ?s {} st"
    "?R \<subseteq> fst st" "fst st \<subseteq> (replaced_by r ?s)\<^sup>* `` ?R"
    by auto
  have "y \<in> fst st" if "(x, y) \<in> (replaced_by r ?s)\<^sup>*" "x \<in> ?R" for x y
    using that
  proof (induction rule: rtrancl_induct)
    case base
    then show ?case using st(3) by blast
  next
    case (step y z)
    have "left_ok r ?s (fst st) {} (snd st) y" using st(2) step.IH step.prems by (simp add: search_ok_def)
    then show ?case using step.hyps(2) unfolding left_ok_def by blast
  qed
  then have "fst st = (replaced_by r ?s)\<^sup>* `` ?R" using st(4) by blast
  moreover have "unresolved_replacements from r sts = Some (snd st)"
    using st(1) by (simp add: unresolved_replacements_def)
  ultimately show thesis using that [of "snd st" "fst st"] st(2) by (cases st) simp
qed

section \<open>Properties\<close>

text \<open>C29. The walk over the replacements always ends with an answer, whatever the record holds,
  loops included: the faults in task order, each one a fault of the record on a task that the
  replacements lead to from the given tasks.\<close>

theorem unresolved_replacements_sound:
  "\<exists>found. unresolved_replacements from r sts = Some found \<and> sorted (map unresolved_key found)
    \<and> set found \<subseteq> {u. unresolved_task u \<in> (replaced_by r (map_of sts))\<^sup>* `` set from
        \<and> fault_holds (set from) r (map_of sts) u}"
proof -
  obtain visited found where "unresolved_replacements from r sts = Some found"
    "search_ok (set from) r (map_of sts) {} (visited, found)"
    "visited = (replaced_by r (map_of sts))\<^sup>* `` set from"
    by (rule unresolved_replacements_ends)
  then show ?thesis by (auto simp: search_ok_def)
qed

text \<open>C28. No fault is reported exactly when the record is resolved: from the replaced tasks given,
  every replaced task reached has a replacement, every replacement named is a task that is there,
  and no task is among its own replacements, however many steps away.\<close>

theorem unresolved_replacements_none_iff:
  assumes "\<forall>t \<in> set from. map_of sts t = Some TaskStatus.Replaced"
  shows "unresolved_replacements from r sts = Some []
    \<longleftrightarrow> (\<forall>t \<in> (replaced_by r (map_of sts))\<^sup>* `` set from. resolved_at r (map_of sts) t)"
proof -
  let ?s = "map_of sts"
  obtain visited found where u: "unresolved_replacements from r sts = Some found"
    and ok: "search_ok (set from) r ?s {} (visited, found)"
    and visited: "visited = (replaced_by r ?s)\<^sup>* `` set from"
    by (rule unresolved_replacements_ends)
  have "resolved_at r ?s t" if "found = []" "t \<in> visited" for t
  proof -
    have "left_ok r ?s visited {} [] t" using ok that by (simp add: search_ok_def)
    then show ?thesis by (auto simp: left_ok_def resolved_at_def no_cycle_def)
  qed
  moreover have "found = []" if resolved: "\<And>t. t \<in> visited \<Longrightarrow> resolved_at r ?s t"
  proof (rule ccontr)
    assume "found \<noteq> []"
    then obtain f where "f \<in> set found" by (cases found) auto
    then have "unresolved_task f \<in> visited" "fault_holds (set from) r ?s f"
      using ok by (auto simp: search_ok_def)
    with resolved [of "unresolved_task f"] assms show False
      using fault_refutes [of "set from" r ?s f] by blast
  qed
  ultimately show ?thesis using u visited by auto
qed

text \<open>Task 1 was replaced by task 2, which was replaced by task 3: resolved, as the theorem finds it
  from the other side, the run of the search.\<close>

lemma unresolved_replacements_none_iff_witness:
  "(TaskId 1, TaskId 1) \<notin> (replaced_by [TaskId 1 \<mapsto> [TaskId 2], TaskId 2 \<mapsto> [TaskId 3]]
    (map_of [(TaskId 1, TaskStatus.Replaced), (TaskId 2, TaskStatus.Replaced), (TaskId 3, TaskStatus.Ready)]))\<^sup>+"
proof -
  let ?r = "[TaskId 1 \<mapsto> [TaskId 2], TaskId 2 \<mapsto> [TaskId 3]]"
    and ?sts = "[(TaskId 1, TaskStatus.Replaced), (TaskId 2, TaskStatus.Replaced), (TaskId 3, TaskStatus.Ready)]"
  have "unresolved_replacements [TaskId 1] ?r ?sts = Some []"
    by code_simp
  moreover have "\<forall>t \<in> set [TaskId 1]. map_of ?sts t = Some TaskStatus.Replaced"
    by simp
  ultimately show ?thesis
    using unresolved_replacements_none_iff [of "[TaskId 1]" ?sts ?r] by (auto simp: resolved_at_def)
qed

end
