(* ===== verification/Dep_Graph.thy ===== *)
theory Dep_Graph
  imports Priority_Rules Task_Aggregate
begin

text \<open>
  The dependency view of the unfinished tasks, \<open>dependency_graph\<close> of
  \<^verbatim>\<open>src/application/mod.rs\<close>: who waits for whom, how many tasks each one's completion brings
  closer, the priority the claims compare, the claimable tasks in the rule's order and the
  critical chain.

  The maps the code builds by \<open>entry().or_default().push()\<close> are maps to lists (\<open>push_at\<close>), its
  \<open>BTreeSet\<close>s sets. Its two \<open>while\<close> loops may run forever in general, so they are partial
  functions into \<open>option\<close>; the reachability loop always ends and the walk of the critical chain
  ends when the dependencies form a DAG, which the queue keeps.
\<close>

section \<open>The read and the view\<close>

record GraphGoalDependency =
  gd_goal_id :: GoalId
  gd_verdict :: "GoalVerdict option"

definition gd_is_met :: "GraphGoalDependency \<Rightarrow> bool" where
  "gd_is_met d \<longleftrightarrow> gd_verdict d = Some Achieved"

record GraphTask =
  gt_id :: TaskId
  gt_status :: TaskStatus
  gt_priority :: Priority
  gt_priority_source :: PrioritySource
  gt_priority_by :: PriorityBy
  gt_execution_class :: ExecutionClass
  gt_title :: string
  gt_goal_id :: "GoalId option"
  gt_goal_status :: "GoalStatus option"
  gt_depends_on :: "TaskId list"
  gt_goal_dependencies :: "GraphGoalDependency list"

datatype WaitFor = WaitTask TaskId | WaitGoal GoalId

record GraphInput =
  gi_tasks :: "GraphTask list"
  gi_candidates :: "TaskId list"
  gi_canceled :: "TaskId list"

record GraphNode =
  gn_id :: TaskId
  gn_status :: TaskStatus
  gn_priority :: Priority
  gn_priority_source :: PrioritySource
  gn_priority_by :: PriorityBy
  gn_effective_priority :: Priority
  gn_execution_class :: ExecutionClass
  gn_title :: string
  gn_goal_id :: "GoalId option"
  gn_goal_status :: "GoalStatus option"
  gn_depends_on :: "TaskId list"
  gn_goal_dependencies :: "GoalId list"
  gn_blocks :: "TaskId list"
  gn_unblocks :: nat
  gn_ready_after :: "WaitFor list"

record DependencyGraph =
  dg_tasks :: "GraphNode list"
  dg_candidates :: "TaskId list"
  dg_critical :: "TaskId list"

section \<open>Effective priority\<close>

text \<open>Whether a waiting task passes its priority on.\<close>

definition passes_priority :: "GraphTask \<Rightarrow> bool" where
  "passes_priority waiter \<longleftrightarrow>
    gt_status waiter = TaskStatus.Ready \<and> gt_goal_status waiter \<noteq> Some GoalStatus.Draft
    \<and> \<not> list_ex (\<lambda>d. gd_verdict d = Some Abandoned) (gt_goal_dependencies waiter)"

definition effective_priority :: "Priority \<Rightarrow> GraphTask list \<Rightarrow> Priority" where
  "effective_priority own waiters = fold max (map gt_priority (filter passes_priority waiters)) own"

section \<open>Who waits for whom\<close>

definition list_at :: "('k \<rightharpoonup> 'v list) \<Rightarrow> 'k \<Rightarrow> 'v list" where
  "list_at m k = (case m k of Some vs \<Rightarrow> vs | None \<Rightarrow> [])"

definition push_at :: "'k \<Rightarrow> 'v \<Rightarrow> ('k \<rightharpoonup> 'v list) \<Rightarrow> ('k \<rightharpoonup> 'v list)" where
  "push_at k v m = m(k \<mapsto> list_at m k @ [v])"

definition members_of :: "GraphTask list \<Rightarrow> (GoalId \<rightharpoonup> TaskId list)" where
  "members_of tasks = fold (\<lambda>t m. case gt_goal_id t of Some g \<Rightarrow> push_at g (gt_id t) m | None \<Rightarrow> m)
     tasks Map.empty"

definition blocks_of_task ::
  "TaskId set \<Rightarrow> (GoalId \<rightharpoonup> TaskId list) \<Rightarrow> GraphTask \<Rightarrow> (TaskId \<rightharpoonup> TaskId list) \<Rightarrow> (TaskId \<rightharpoonup> TaskId list)"
where
  "blocks_of_task unfinished members t m =
    fold (\<lambda>d. fold (\<lambda>member. push_at member (gt_id t)) (list_at members (gd_goal_id d)))
      (filter (\<lambda>d. gd_verdict d = None) (gt_goal_dependencies t))
      (fold (\<lambda>p m. if p \<in> unfinished then push_at p (gt_id t) m else m) (gt_depends_on t) m)"

definition unfinished_ids :: "GraphTask list \<Rightarrow> TaskId set" where
  "unfinished_ids tasks = set (map gt_id tasks)"

definition blocks_map :: "GraphTask list \<Rightarrow> (TaskId \<rightharpoonup> TaskId list)" where
  "blocks_map tasks =
    (let blocks = fold (blocks_of_task (unfinished_ids tasks) (members_of tasks)) tasks Map.empty
     in (\<lambda>k. map_option (\<lambda>dependents. remdups_adj (sort dependents)) (blocks k)))"

definition direct :: "GraphTask list \<Rightarrow> TaskId \<Rightarrow> TaskId list" where
  "direct tasks = list_at (blocks_map tasks)"

text \<open>The reachability loop: the last pending task is taken off, and when it is new what waits for
  it is pending too.\<close>

partial_function (option) reach_loop ::
  "(TaskId \<Rightarrow> TaskId list) \<Rightarrow> TaskId set \<Rightarrow> TaskId list \<Rightarrow> TaskId set option" where
  "reach_loop waiting reached pending =
    (if pending = [] then Some reached
     else if last pending \<in> reached then reach_loop waiting reached (butlast pending)
     else reach_loop waiting (insert (last pending) reached)
       (butlast pending @ waiting (last pending)))"

declare reach_loop.simps [code]

definition graph_by_id :: "GraphTask list \<Rightarrow> (TaskId \<rightharpoonup> GraphTask)" where
  "graph_by_id tasks = map_of (rev (map (\<lambda>t. (gt_id t, t)) tasks))"

definition reach_entry :: "GraphTask list \<Rightarrow> GraphTask \<Rightarrow> (TaskId \<times> nat \<times> Priority) option" where
  "reach_entry tasks t = map_option (\<lambda>reached.
      (gt_id t, card reached,
       effective_priority (gt_priority t)
         (List.map_filter (graph_by_id tasks) (sorted_list_of_set reached))))
    (reach_loop (direct tasks) {} (direct tasks (gt_id t)))"

definition graph_reach :: "GraphTask list \<Rightarrow> (TaskId \<rightharpoonup> nat \<times> Priority) option" where
  "graph_reach tasks = map_option (\<lambda>entries. map_of (rev entries)) (those (map (reach_entry tasks) tasks))"

definition reach_count :: "(TaskId \<rightharpoonup> nat \<times> Priority) \<Rightarrow> TaskId \<Rightarrow> nat" where
  "reach_count reach i = (case reach i of Some (unblocks, _) \<Rightarrow> unblocks | None \<Rightarrow> 0)"

definition reach_effective :: "(TaskId \<rightharpoonup> nat \<times> Priority) \<Rightarrow> TaskId \<Rightarrow> Priority" where
  "reach_effective reach i = (case reach i of Some (_, p) \<Rightarrow> p | None \<Rightarrow> Priority.Normal)"

section \<open>The view\<close>

text \<open>\<open>Iterator::min_by_key\<close>: the first of the least.\<close>

definition min_by_key :: "('a \<Rightarrow> 'b::linorder) \<Rightarrow> 'a list \<Rightarrow> 'a option" where
  "min_by_key f xs = (if xs = [] then None else Some (arg_min_list f xs))"

definition chain_rank :: "(TaskId \<rightharpoonup> nat \<times> Priority) \<Rightarrow> TaskId \<Rightarrow> nat reverse \<times> TaskId" where
  "chain_rank reach i = (Reverse (reach_count reach i), i)"

partial_function (option) critical_loop ::
  "(TaskId \<Rightarrow> TaskId list) \<Rightarrow> (TaskId \<Rightarrow> nat reverse \<times> TaskId) \<Rightarrow> TaskId list \<Rightarrow> TaskId option
    \<Rightarrow> TaskId list option" where
  "critical_loop waiting rank critical step =
    (if step = None then Some critical
     else critical_loop waiting rank (critical @ [the step]) (min_by_key rank (waiting (the step))))"

declare critical_loop.simps [code]

definition graph_in_goal :: "GoalId option \<Rightarrow> GraphTask \<Rightarrow> bool" where
  "graph_in_goal goal t \<longleftrightarrow> goal = None \<or> gt_goal_id t = goal"

definition critical_start :: "(TaskId \<rightharpoonup> nat \<times> Priority) \<Rightarrow> TaskId set \<Rightarrow> TaskId option" where
  "critical_start reach goal_ids =
    (case min_by_key (chain_rank reach) (sorted_list_of_set goal_ids) of
       Some i \<Rightarrow> if reach_count reach i = 0 then None else Some i
     | None \<Rightarrow> None)"

definition graph_node :: "GraphTask list \<Rightarrow> (TaskId \<rightharpoonup> nat \<times> Priority) \<Rightarrow> GraphTask \<Rightarrow> GraphNode" where
  "graph_node tasks reach t =
    \<lparr>gn_id = gt_id t, gn_status = gt_status t, gn_priority = gt_priority t,
     gn_priority_source = gt_priority_source t, gn_priority_by = gt_priority_by t,
     gn_effective_priority = reach_effective reach (gt_id t),
     gn_execution_class = gt_execution_class t, gn_title = gt_title t,
     gn_goal_id = gt_goal_id t, gn_goal_status = gt_goal_status t,
     gn_depends_on = gt_depends_on t,
     gn_goal_dependencies = map gd_goal_id (gt_goal_dependencies t),
     gn_blocks = direct tasks (gt_id t),
     gn_unblocks = reach_count reach (gt_id t),
     gn_ready_after =
       map WaitTask (filter (\<lambda>p. p \<in> unfinished_ids tasks) (gt_depends_on t))
       @ map (\<lambda>d. WaitGoal (gd_goal_id d)) (filter (\<lambda>d. \<not> gd_is_met d) (gt_goal_dependencies t))\<rparr>"

definition dependency_graph :: "GraphInput \<Rightarrow> GoalId option \<Rightarrow> DependencyGraph option" where
  "dependency_graph input goal =
    (let tasks = gi_tasks input;
         goal_ids = set (map gt_id (filter (graph_in_goal goal) tasks))
     in Option.bind (graph_reach tasks) (\<lambda>reach.
        let rank = (\<lambda>i. claim_rank (reach_effective reach i) (reach_count reach i) i);
            candidates = sort_key rank
              (filter (\<lambda>i. goal = None \<or> i \<in> goal_ids) (gi_candidates input))
        in map_option (\<lambda>critical.
          \<lparr>dg_tasks = map (graph_node tasks reach) (filter (\<lambda>t. gt_id t \<in> goal_ids) tasks),
           dg_candidates = candidates, dg_critical = critical\<rparr>)
          (critical_loop (direct tasks) (chain_rank reach) [] (critical_start reach goal_ids))))"

text \<open>A claimable task as it is printed.\<close>

record PrintedCandidate =
  pc_task :: Task
  pc_effective_priority :: Priority

definition claim_candidates :: "Task list \<Rightarrow> DependencyGraph \<Rightarrow> PrintedCandidate list" where
  "claim_candidates tasks graph = map (\<lambda>t.
     \<lparr>pc_task = t,
      pc_effective_priority = (case find (\<lambda>node. gn_id node = task_id t) (dg_tasks graph) of
        Some node \<Rightarrow> gn_effective_priority node | None \<Rightarrow> task_priority t)\<rparr>) tasks"

section \<open>Lemmas: who waits for whom\<close>

text \<open>The direct waits: the waiting task depends on the other, or on an open goal the other is in.\<close>

definition blocking :: "GraphTask list \<Rightarrow> (TaskId \<times> TaskId) set" where
  "blocking tasks = {(p, w). \<exists>t \<in> set tasks. gt_id t = w
    \<and> (p \<in> unfinished_ids tasks \<and> p \<in> set (gt_depends_on t)
      \<or> (\<exists>m \<in> set tasks. gt_id m = p
          \<and> (\<exists>d \<in> set (gt_goal_dependencies t). gd_verdict d = None \<and> gt_goal_id m = Some (gd_goal_id d))))}"

lemma list_at_push_at: "set (list_at (push_at k v m) j) = set (list_at m j) \<union> (if j = k then {v} else {})"
  by (auto simp: list_at_def push_at_def)

lemma list_at_empty [simp]: "list_at Map.empty k = []"
  by (simp add: list_at_def)

text \<open>A loop of pushes adds what its steps add.\<close>

lemma fold_pushes:
  assumes "\<And>x m. x \<in> set xs \<Longrightarrow> set (list_at (body x m) k) = set (list_at m k) \<union> added x"
  shows "set (list_at (fold body xs m) k) = set (list_at m k) \<union> (\<Union>x \<in> set xs. added x)"
  using assms by (induction xs arbitrary: m) auto

lemma set_members_of:
  "set (list_at (members_of tasks) g) = {gt_id t | t. t \<in> set tasks \<and> gt_goal_id t = Some g}"
proof -
  have "set (list_at (members_of tasks) g)
    = (\<Union>t \<in> set tasks. if gt_goal_id t = Some g then {gt_id t} else {})"
    unfolding members_of_def
    by (subst fold_pushes [where added = "\<lambda>t. if gt_goal_id t = Some g then {gt_id t} else {}"])
      (auto simp: list_at_push_at split: option.splits)
  then show ?thesis by auto
qed

lemma set_blocks_of_task:
  "set (list_at (blocks_of_task U members t m) p) = set (list_at m p)
    \<union> (if p \<in> U \<and> p \<in> set (gt_depends_on t)
        \<or> (\<exists>d \<in> set (gt_goal_dependencies t). gd_verdict d = None \<and> p \<in> set (list_at members (gd_goal_id d)))
      then {gt_id t} else {})"
proof -
  have member: "set (list_at (fold (\<lambda>member. push_at member (gt_id t)) ms m) p)
      = set (list_at m p) \<union> (if p \<in> set ms then {gt_id t} else {})" for ms m
    by (subst fold_pushes [where added = "\<lambda>k. if p = k then {gt_id t} else {}"])
      (auto simp: list_at_push_at)
  have tasks: "set (list_at (fold (\<lambda>p m. if p \<in> U then push_at p (gt_id t) m else m) ps m) p)
      = set (list_at m p) \<union> (if p \<in> U \<and> p \<in> set ps then {gt_id t} else {})" for ps m
    by (subst fold_pushes [where added = "\<lambda>k. if k \<in> U \<and> p = k then {gt_id t} else {}"])
      (auto simp: list_at_push_at)
  show ?thesis
    unfolding blocks_of_task_def
    by (subst fold_pushes [where added = "\<lambda>d. if p \<in> set (list_at members (gd_goal_id d)) then {gt_id t} else {}"])
      (auto simp: member tasks)
qed

lemma set_direct [simp]: "set (direct tasks p) = blocking tasks `` {p}"
proof -
  have "set (list_at (fold (blocks_of_task (unfinished_ids tasks) (members_of tasks)) tasks Map.empty) p)
    = blocking tasks `` {p}"
    by (subst fold_pushes [OF set_blocks_of_task]) (auto simp: set_members_of blocking_def)
  moreover have "set (direct tasks p)
    = set (list_at (fold (blocks_of_task (unfinished_ids tasks) (members_of tasks)) tasks Map.empty) p)"
    by (auto simp: direct_def blocks_map_def list_at_def split: option.splits)
  ultimately show ?thesis by simp
qed

lemma distinct_remdups_adj_sorted: "sorted xs \<Longrightarrow> distinct (remdups_adj xs)"
  by (induction xs rule: remdups_adj.induct) (auto simp: less_le)

lemma distinct_remdups_adj_sort: "distinct (remdups_adj (sort xs))" for xs :: "'a::linorder list"
  by (rule distinct_remdups_adj_sorted) simp

lemma direct_sorted: "sorted (direct tasks p) \<and> distinct (direct tasks p)"
  by (auto simp: direct_def blocks_map_def list_at_def distinct_remdups_adj_sort split: option.splits)

lemma direct_Nil_iff: "direct tasks p = [] \<longleftrightarrow> blocking tasks `` {p} = {}"
  using set_direct [of tasks p] by (metis set_empty)

lemma blocking_unfinished: "blocking tasks \<subseteq> unfinished_ids tasks \<times> unfinished_ids tasks"
  by (auto simp: blocking_def unfinished_ids_def)

lemma finite_blocking: "finite (blocking tasks)"
  using blocking_unfinished by (rule finite_subset) (simp add: unfinished_ids_def)

section \<open>Lemmas: the loops\<close>

text \<open>What waits for the pending tasks, directly or not, is reached, whatever the waits are.\<close>

lemma reach_loop_closed:
  assumes "finite U" "\<And>x. set (waiting x) \<subseteq> U"
  shows "reached \<subseteq> U \<Longrightarrow> set pending \<subseteq> U \<Longrightarrow>
    \<forall>x \<in> reached. set (waiting x) \<subseteq> reached \<union> set pending \<Longrightarrow>
    \<exists>R. reach_loop waiting reached pending = Some R \<and> reached \<union> set pending \<subseteq> R \<and> R \<subseteq> U
      \<and> (\<forall>x \<in> R. set (waiting x) \<subseteq> R)
      \<and> R \<subseteq> reached \<union> {(x, y). y \<in> set (waiting x)}\<^sup>* `` set pending"
proof (induction "(card (U - reached), length pending)" arbitrary: reached pending rule: less_induct)
  case less
  show ?case
  proof (cases "pending = []")
    case True
    then show ?thesis using less.prems by (subst reach_loop.simps) auto
  next
    case False
    then obtain ps p where pending: "pending = ps @ [p]" by (cases pending rule: rev_cases) auto
    show ?thesis
    proof (cases "p \<in> reached")
      case True
      have "(card (U - reached), length ps) < (card (U - reached), length pending)"
        by (simp add: pending)
      moreover have "set ps \<subseteq> U" "\<forall>x \<in> reached. set (waiting x) \<subseteq> reached \<union> set ps"
        using less.prems True by (auto simp: pending)
      ultimately obtain R where
        "reach_loop waiting reached ps = Some R" "reached \<union> set ps \<subseteq> R" "R \<subseteq> U"
        "\<forall>x \<in> R. set (waiting x) \<subseteq> R"
        "R \<subseteq> reached \<union> {(x, y). y \<in> set (waiting x)}\<^sup>* `` set ps"
        using less.hyps [of reached ps] less.prems(1) by blast
      with True pending show ?thesis by (subst reach_loop.simps) auto
    next
      case False
      let ?r = "insert p reached" and ?ps = "ps @ waiting p"
      have "U - ?r \<subset> U - reached" using False less.prems(2) pending by auto
      then have "card (U - ?r) < card (U - reached)"
        using assms(1) by (intro psubset_card_mono) auto
      then have "(card (U - ?r), length ?ps) < (card (U - reached), length pending)" by simp
      moreover have "?r \<subseteq> U" "set ?ps \<subseteq> U" "\<forall>x \<in> ?r. set (waiting x) \<subseteq> ?r \<union> set ?ps"
        using less.prems assms(2) by (auto simp: pending)
      ultimately obtain R where
        R: "reach_loop waiting ?r ?ps = Some R" "?r \<union> set ?ps \<subseteq> R" "R \<subseteq> U"
        "\<forall>x \<in> R. set (waiting x) \<subseteq> R"
        "R \<subseteq> ?r \<union> {(x, y). y \<in> set (waiting x)}\<^sup>* `` set ?ps"
        using less.hyps [of ?r ?ps] by blast
      have "{(x, y). y \<in> set (waiting x)}\<^sup>* `` set (waiting p)
          \<subseteq> {(x, y). y \<in> set (waiting x)}\<^sup>* `` {p}"
        by (auto intro: converse_rtrancl_into_rtrancl)
      with R(5) have "R \<subseteq> reached \<union> {(x, y). y \<in> set (waiting x)}\<^sup>* `` set pending"
        by (auto simp: pending)
      moreover have "reach_loop waiting reached pending = Some R"
        using False R(1) by (subst reach_loop.simps) (simp add: pending)
      ultimately show ?thesis using R(2-4) by (auto simp: pending)
    qed
  qed
qed

text \<open>The tasks that wait for one, directly or not, and how many.\<close>

definition waiting_for :: "GraphTask list \<Rightarrow> TaskId \<Rightarrow> TaskId set" where
  "waiting_for tasks i = (blocking tasks)\<^sup>+ `` {i}"

definition unblocks :: "GraphTask list \<Rightarrow> TaskId \<Rightarrow> nat" where
  "unblocks tasks i = card (waiting_for tasks i)"

lemma waiting_for_unfinished: "waiting_for tasks i \<subseteq> unfinished_ids tasks"
  using trancl_subset_Sigma [OF blocking_unfinished] unfolding waiting_for_def by blast

lemma finite_waiting_for [simp]: "finite (waiting_for tasks i)"
  using waiting_for_unfinished by (rule finite_subset) (simp add: unfinished_ids_def)

lemma reach_direct: "reach_loop (direct tasks) {} (direct tasks i) = Some (waiting_for tasks i)"
proof -
  have edges: "{(x, y). y \<in> set (direct tasks x)} = blocking tasks" by auto
  have all: "set (direct tasks x) \<subseteq> unfinished_ids tasks" for x
    using blocking_unfinished by auto
  obtain R where R: "reach_loop (direct tasks) {} (direct tasks i) = Some R"
    "blocking tasks `` {i} \<subseteq> R" "\<forall>x \<in> R. blocking tasks `` {x} \<subseteq> R"
    "R \<subseteq> (blocking tasks)\<^sup>* `` (blocking tasks `` {i})"
    using reach_loop_closed [of "unfinished_ids tasks" "direct tasks" "{}" "direct tasks i"] all [of i] all
    unfolding edges by (auto simp: unfinished_ids_def)
  have "y \<in> R" if "(i, y) \<in> (blocking tasks)\<^sup>+" for y
    using that by (induction rule: trancl_induct) (use R(2,3) in blast)+
  moreover have "(blocking tasks)\<^sup>* `` (blocking tasks `` {i}) \<subseteq> waiting_for tasks i"
    by (auto simp: waiting_for_def intro: rtrancl_into_trancl2)
  ultimately have "R = waiting_for tasks i" using R(4) by (auto simp: waiting_for_def)
  with R(1) show ?thesis by simp
qed

definition effective_of :: "GraphTask list \<Rightarrow> GraphTask \<Rightarrow> Priority" where
  "effective_of tasks t = effective_priority (gt_priority t)
     (List.map_filter (graph_by_id tasks) (sorted_list_of_set (waiting_for tasks (gt_id t))))"

lemma those_map_Some: "those (map (\<lambda>x. Some (f x)) xs) = Some (map f xs)"
  by (induction xs) auto

lemma graph_reach_total:
  "graph_reach tasks = Some (map_of (rev (map
     (\<lambda>t. (gt_id t, unblocks tasks (gt_id t), effective_of tasks t)) tasks)))"
proof -
  have "reach_entry tasks = (\<lambda>t. Some (gt_id t, unblocks tasks (gt_id t), effective_of tasks t))"
    by (rule ext) (simp add: reach_entry_def reach_direct effective_of_def unblocks_def)
  then show ?thesis by (simp add: graph_reach_def those_map_Some)
qed

lemma map_of_rev_keys:
  "map_of (rev (map (\<lambda>t. (k t, v t)) ts)) i = Some x \<Longrightarrow> \<exists>t \<in> set ts. k t = i \<and> v t = x"
  by (auto dest!: map_of_SomeD)

lemma map_of_rev_None: "map_of (rev (map (\<lambda>t. (k t, v t)) ts)) i = None \<longleftrightarrow> i \<notin> k ` set ts"
  by (simp add: map_of_eq_None_iff image_image)

lemma map_of_rev_distinct:
  "distinct (map k ts) \<Longrightarrow> t \<in> set ts \<Longrightarrow> map_of (rev (map (\<lambda>t. (k t, v t)) ts)) (k t) = Some (v t)"
  by (intro map_of_is_SomeI) (auto simp: rev_map comp_def simp flip: rev_map)

lemma reach_count_unblocks:
  assumes "graph_reach tasks = Some reach" shows "reach_count reach i = unblocks tasks i"
proof (cases "reach i")
  case None
  with assms have "i \<notin> unfinished_ids tasks"
    by (auto simp: graph_reach_total map_of_rev_None unfinished_ids_def)
  then have "(i, y) \<notin> (blocking tasks)\<^sup>+" for y
    using trancl_subset_Sigma [OF blocking_unfinished [of tasks]] by blast
  then have "waiting_for tasks i = {}" by (auto simp: waiting_for_def)
  with None show ?thesis by (simp add: reach_count_def unblocks_def)
next
  case (Some x)
  with assms have "fst x = unblocks tasks i"
    by (auto simp: graph_reach_total dest!: map_of_rev_keys)
  with Some show ?thesis by (cases x) (simp add: reach_count_def)
qed

lemma reach_effective_of:
  assumes "graph_reach tasks = Some reach" "distinct (map gt_id tasks)" "t \<in> set tasks"
  shows "reach_effective reach (gt_id t) = effective_of tasks t"
proof -
  have "reach (gt_id t) = Some (unblocks tasks (gt_id t), effective_of tasks t)"
    using assms(1) map_of_rev_distinct [OF assms(2,3),
        of "\<lambda>t. (unblocks tasks (gt_id t), effective_of tasks t)"]
    by (simp add: graph_reach_total)
  then show ?thesis by (simp add: reach_effective_def)
qed

lemma effective_priority_Max:
  "effective_priority own waiters = Max (insert own (gt_priority ` {w \<in> set waiters. passes_priority w}))"
  using Max.set_eq_fold [of own "map gt_priority (filter passes_priority waiters)"]
  by (simp add: effective_priority_def)

lemma set_map_filter: "set (List.map_filter f xs) = {y. \<exists>x \<in> set xs. f x = Some y}"
  by (induction xs) (auto simp: map_filter_simps split: option.splits)

lemma effective_of_Max:
  assumes "distinct (map gt_id tasks)"
  shows "effective_of tasks t = Max (insert (gt_priority t)
    (gt_priority ` {w \<in> set tasks. gt_id w \<in> waiting_for tasks (gt_id t) \<and> passes_priority w}))"
proof -
  have "graph_by_id tasks i = Some w \<longleftrightarrow> w \<in> set tasks \<and> gt_id w = i" for i w
    using map_of_rev_keys [of gt_id "\<lambda>t. t" tasks i w] map_of_rev_distinct [OF assms, of w "\<lambda>t. t"]
    by (auto simp: graph_by_id_def)
  then have "set (List.map_filter (graph_by_id tasks) (sorted_list_of_set (waiting_for tasks (gt_id t))))
    = {w \<in> set tasks. gt_id w \<in> waiting_for tasks (gt_id t)}"
    by (auto simp: set_map_filter)
  then show ?thesis by (simp add: effective_of_def effective_priority_Max conj_assoc)
qed

text \<open>The critical chain: each step is to the waiting task of the least rank, to one nothing waits
  for.\<close>

lemma min_by_key_Some:
  "min_by_key f xs = Some x \<Longrightarrow> x \<in> set xs \<and> (\<forall>y \<in> set xs. f x \<le> f y)"
  by (auto simp: min_by_key_def arg_min_list_in f_arg_min_list_f split: if_splits)

lemma min_by_key_None [simp]: "min_by_key f xs = None \<longleftrightarrow> xs = []"
  by (simp add: min_by_key_def)

fun chain_of :: "('a \<Rightarrow> 'a option) \<Rightarrow> 'a option \<Rightarrow> 'a list \<Rightarrow> bool" where
  "chain_of next_of None cs = (cs = [])"
| "chain_of next_of (Some i) [] = False"
| "chain_of next_of (Some i) (c # cs) = (c = i \<and> chain_of next_of (next_of i) cs)"

lemma critical_loop_ends:
  assumes "wf (E\<inverse>)" "\<And>x. set (waiting x) = E `` {x}"
  shows "\<exists>cs. critical_loop waiting rank critical step = Some (critical @ cs)
    \<and> chain_of (\<lambda>i. min_by_key rank (waiting i)) step cs"
proof (cases step)
  case None
  then show ?thesis by (subst critical_loop.simps) simp
next
  case (Some i)
  have "\<exists>cs. critical_loop waiting rank critical (Some i) = Some (critical @ cs)
    \<and> chain_of (\<lambda>i. min_by_key rank (waiting i)) (Some i) cs"
    using assms(1)
  proof (induction i arbitrary: critical)
    case (less i)
    show ?case
    proof (cases "min_by_key rank (waiting i)")
      case None
      then show ?thesis
        by (subst critical_loop.simps, subst critical_loop.simps) (auto simp: min_by_key_def intro: exI [of _ "[i]"])
    next
      case (Some j)
      then have "(j, i) \<in> E\<inverse>" using min_by_key_Some [OF Some] assms(2) by auto
      from less.IH [OF this, of "critical @ [i]"] obtain cs where
        "critical_loop waiting rank (critical @ [i]) (Some j) = Some (critical @ i # cs)"
        "chain_of (\<lambda>i. min_by_key rank (waiting i)) (Some j) cs"
        by auto
      with Some show ?thesis by (subst critical_loop.simps) (auto intro: exI [of _ "i # cs"])
    qed
  qed
  with Some show ?thesis by simp
qed

lemma chain_of_successively:
  assumes "chain_of (\<lambda>i. min_by_key rank (waiting i)) step cs"
  shows "successively (\<lambda>a b. b \<in> set (waiting a) \<and> (\<forall>d \<in> set (waiting a). rank b \<le> rank d)) cs
    \<and> (cs = [] \<longleftrightarrow> step = None) \<and> (cs \<noteq> [] \<longrightarrow> step = Some (hd cs) \<and> waiting (last cs) = [])"
  using assms
proof (induction "\<lambda>i. min_by_key rank (waiting i)" step cs rule: chain_of.induct)
  case (3 i c cs)
  then have "c = i" "chain_of (\<lambda>i. min_by_key rank (waiting i)) (min_by_key rank (waiting i)) cs" by auto
  note IH = "3.hyps" [OF this(2)]
  show ?case
  proof (cases cs)
    case Nil
    with IH \<open>c = i\<close> show ?thesis by simp
  next
    case (Cons b bs)
    with IH have "min_by_key rank (waiting i) = Some b" by simp
    from min_by_key_Some [OF this] IH Cons \<open>c = i\<close> show ?thesis by simp
  qed
qed auto

lemma successively_distinct:
  assumes "acyclic E" "successively (\<lambda>a b. (a, b) \<in> E) cs"
  shows "distinct cs"
proof -
  have "successively (\<lambda>a b. (a, b) \<in> E\<^sup>+) cs"
    using assms(2) by (rule successively_mono) auto
  then have "sorted_wrt (\<lambda>a b. (a, b) \<in> E\<^sup>+) cs"
    by (subst (asm) successively_conv_sorted_wrt) (auto intro: transpI trancl_trans)
  then show ?thesis
    by (induction cs) (use assms(1) in \<open>auto simp: acyclic_def\<close>)
qed

lemma wf_blocking: "acyclic (blocking tasks) \<Longrightarrow> wf ((blocking tasks)\<inverse>)"
  by (rule finite_acyclic_wf_converse [OF finite_blocking])

text \<open>In a DAG the view is there; what it is.\<close>

lemma dependency_graph_eq:
  assumes "graph_reach (gi_tasks input) = Some reach"
  shows "dependency_graph input goal = map_option (\<lambda>critical.
     \<lparr>dg_tasks = map (graph_node (gi_tasks input) reach) (filter (\<lambda>t. gt_id t \<in>
        set (map gt_id (filter (graph_in_goal goal) (gi_tasks input)))) (gi_tasks input)),
      dg_candidates = sort_key (\<lambda>i. claim_rank (reach_effective reach i) (reach_count reach i) i)
        (filter (\<lambda>i. goal = None \<or> i \<in> set (map gt_id (filter (graph_in_goal goal) (gi_tasks input))))
          (gi_candidates input)),
      dg_critical = critical\<rparr>)
    (critical_loop (direct (gi_tasks input)) (chain_rank reach) []
      (critical_start reach (set (map gt_id (filter (graph_in_goal goal) (gi_tasks input))))))"
  using assms by (simp add: dependency_graph_def Let_def)

text \<open>The order of the critical chain: more tasks released first, then the lower ID.\<close>

definition frees_before :: "GraphTask list \<Rightarrow> TaskId \<Rightarrow> TaskId \<Rightarrow> bool" where
  "frees_before tasks a b \<longleftrightarrow>
    unblocks tasks b < unblocks tasks a \<or> unblocks tasks b = unblocks tasks a \<and> a \<le> b"

lemma chain_rank_le:
  "graph_reach tasks = Some reach \<Longrightarrow> chain_rank reach a \<le> chain_rank reach b \<longleftrightarrow> frees_before tasks a b"
  by (auto simp: chain_rank_def frees_before_def reach_count_unblocks less_eq_prod_simp)

lemma unblocks_0_iff: "unblocks tasks i = 0 \<longleftrightarrow> blocking tasks `` {i} = {}"
proof -
  have "waiting_for tasks i = {} \<longleftrightarrow> blocking tasks `` {i} = {}"
    unfolding waiting_for_def by (auto dest: tranclD)
  then show ?thesis by (simp add: unblocks_def)
qed

definition goal_task_ids :: "GraphTask list \<Rightarrow> GoalId option \<Rightarrow> TaskId set" where
  "goal_task_ids tasks goal = set (map gt_id (filter (graph_in_goal goal) tasks))"

lemma critical_start_Some:
  assumes "graph_reach tasks = Some reach" "critical_start reach (goal_task_ids tasks goal) = Some i"
  shows "i \<in> goal_task_ids tasks goal" "blocking tasks `` {i} \<noteq> {}"
    "j \<in> goal_task_ids tasks goal \<Longrightarrow> frees_before tasks i j"
proof -
  have *: "min_by_key (chain_rank reach) (sorted_list_of_set (goal_task_ids tasks goal)) = Some i"
    "reach_count reach i \<noteq> 0"
    using assms(2) by (auto simp: critical_start_def split: option.splits if_splits)
  have "finite (goal_task_ids tasks goal)" by (simp add: goal_task_ids_def)
  with min_by_key_Some [OF *(1)] * assms(1)
  show "i \<in> goal_task_ids tasks goal" "blocking tasks `` {i} \<noteq> {}"
    "j \<in> goal_task_ids tasks goal \<Longrightarrow> frees_before tasks i j"
    by (simp_all add: chain_rank_le reach_count_unblocks unblocks_0_iff)
qed

lemma critical_start_None:
  assumes "graph_reach tasks = Some reach" "critical_start reach (goal_task_ids tasks goal) = None"
    and "i \<in> goal_task_ids tasks goal"
  shows "blocking tasks `` {i} = {}"
proof -
  have fin: "finite (goal_task_ids tasks goal)" by (simp add: goal_task_ids_def)
  with assms(3) obtain m where
    m: "min_by_key (chain_rank reach) (sorted_list_of_set (goal_task_ids tasks goal)) = Some m"
    by (cases "min_by_key (chain_rank reach) (sorted_list_of_set (goal_task_ids tasks goal))") auto
  with assms(2) have "reach_count reach m = 0"
    by (simp add: critical_start_def split: if_splits)
  with assms(1) have "unblocks tasks m = 0" by (simp add: reach_count_unblocks)
  moreover have "frees_before tasks m i"
    using min_by_key_Some [OF m] assms(1,3) fin by (simp add: chain_rank_le)
  ultimately have "unblocks tasks i = 0" by (auto simp: frees_before_def)
  then show ?thesis by (simp only: unblocks_0_iff)
qed

lemma graph_critical:
  assumes "acyclic (blocking (gi_tasks input))"
  obtains reach g where "graph_reach (gi_tasks input) = Some reach"
    and "dependency_graph input goal = Some g"
    and "chain_of (\<lambda>i. min_by_key (chain_rank reach) (direct (gi_tasks input) i))
      (critical_start reach (goal_task_ids (gi_tasks input) goal)) (dg_critical g)"
proof -
  obtain reach where reach: "graph_reach (gi_tasks input) = Some reach" by (simp add: graph_reach_total)
  from critical_loop_ends [OF wf_blocking [OF assms] set_direct, of "chain_rank reach" "[]"]
  show thesis using that [OF reach] dependency_graph_eq [OF reach, of goal]
    unfolding goal_task_ids_def by fastforce
qed

lemma critical_chain_unfinished:
  assumes "graph_reach tasks = Some reach"
    and "chain_of (\<lambda>i. min_by_key (chain_rank reach) (direct tasks i))
      (critical_start reach (goal_task_ids tasks goal)) cs"
  shows "set cs \<subseteq> unfinished_ids tasks"
proof -
  have "set cs \<subseteq> unfinished_ids tasks" if "chain_of (\<lambda>i. min_by_key (chain_rank reach) (direct tasks i)) step cs"
    "\<forall>i. step = Some i \<longrightarrow> i \<in> unfinished_ids tasks" for step cs
    using that
  proof (induction "\<lambda>i. min_by_key (chain_rank reach) (direct tasks i)" step cs rule: chain_of.induct)
    case (3 i c cs)
    have "j \<in> unfinished_ids tasks" if "min_by_key (chain_rank reach) (direct tasks i) = Some j" for j
      using min_by_key_Some [OF that] blocking_unfinished [of tasks] by auto
    with 3 show ?case by auto
  qed auto
  moreover have "goal_task_ids tasks goal \<subseteq> unfinished_ids tasks"
    by (auto simp: goal_task_ids_def unfinished_ids_def)
  ultimately show ?thesis using assms critical_start_Some(1) [OF assms(1)] by blast
qed

lemma graph_nodes:
  assumes "dependency_graph input goal = Some g"
  obtains reach where "graph_reach (gi_tasks input) = Some reach"
    and "dg_tasks g = map (graph_node (gi_tasks input) reach)
      (filter (\<lambda>t. gt_id t \<in> goal_task_ids (gi_tasks input) goal) (gi_tasks input))"
    and "dg_candidates g = sort_key (\<lambda>i. claim_rank (reach_effective reach i) (unblocks (gi_tasks input) i) i)
      (filter (\<lambda>i. goal = None \<or> i \<in> goal_task_ids (gi_tasks input) goal) (gi_candidates input))"
proof -
  obtain reach where reach: "graph_reach (gi_tasks input) = Some reach" by (simp add: graph_reach_total)
  show thesis using that [OF reach] assms
    by (auto simp: dependency_graph_eq [OF reach] goal_task_ids_def reach_count_unblocks [OF reach])
qed

text \<open>An example: task 2 waits for task 1, task 3 for task 2; task 3 is urgent.\<close>

definition example_task :: "int \<Rightarrow> Priority \<Rightarrow> int list \<Rightarrow> GraphTask" where
  "example_task i p deps =
    \<lparr>gt_id = TaskId i, gt_status = TaskStatus.Ready, gt_priority = p,
     gt_priority_source = PrioritySource.Task, gt_priority_by = PriorityBy.Ai,
     gt_execution_class = Implementation, gt_title = ''a task'', gt_goal_id = None,
     gt_goal_status = None, gt_depends_on = map TaskId deps, gt_goal_dependencies = []\<rparr>"

definition example_input :: GraphInput where
  "example_input = \<lparr>gi_tasks = [example_task 1 Low [], example_task 2 Normal [1], example_task 3 Urgent [2]],
    gi_candidates = [TaskId 1], gi_canceled = []\<rparr>"

lemma example_blocking:
  "blocking (gi_tasks example_input) = {(TaskId 1, TaskId 2), (TaskId 2, TaskId 3)}"
  by (auto simp: blocking_def example_input_def example_task_def unfinished_ids_def)

lemma example_acyclic: "acyclic (blocking (gi_tasks example_input))"
  by (rule acyclicI_order [where f = "\<lambda>t. - task_id_as_i64 t"]) (auto simp: example_blocking)

lemma example_distinct: "distinct (map gt_id (gi_tasks example_input))"
  by (simp add: example_input_def example_task_def)

lemma example_graph_value:
  "map_option (\<lambda>g. (map (\<lambda>n. (gn_id n, gn_blocks n, gn_unblocks n, gn_effective_priority n)) (dg_tasks g),
      dg_candidates g, dg_critical g)) (dependency_graph example_input None)
    = Some ([(TaskId 1, [TaskId 2], 2, Urgent), (TaskId 2, [TaskId 3], 1, Urgent), (TaskId 3, [], 0, Urgent)],
        [TaskId 1], [TaskId 1, TaskId 2, TaskId 3])"
  by code_simp

lemma example_graph:
  obtains g n m where "dependency_graph example_input None = Some g" "n \<in> set (dg_tasks g)"
    "m \<in> set (dg_tasks g)" "gn_id n = TaskId 1" "gn_unblocks n = 2" "gn_effective_priority n = Urgent"
    "gn_id m = TaskId 3" "gn_unblocks m = 0" "gn_effective_priority m = Urgent"
    "dg_candidates g = [TaskId 1]" "dg_critical g = [TaskId 1, TaskId 2, TaskId 3]"
proof -
  obtain g where g: "dependency_graph example_input None = Some g"
    "map (\<lambda>n. (gn_id n, gn_blocks n, gn_unblocks n, gn_effective_priority n)) (dg_tasks g)
      = [(TaskId 1, [TaskId 2], 2, Urgent), (TaskId 2, [TaskId 3], 1, Urgent), (TaskId 3, [], 0, Urgent)]"
    "dg_candidates g = [TaskId 1]" "dg_critical g = [TaskId 1, TaskId 2, TaskId 3]"
    using example_graph_value by auto
  then obtain n k m where "dg_tasks g = [n, k, m]" by (auto simp: map_eq_Cons_conv)
  with g show thesis by (intro that [of g n m]) auto
qed

section \<open>Properties\<close>

text \<open>The dependency view is always computed while the dependencies form a DAG, the walk of the
  critical chain included: the chain visits no task twice and is never longer than the read.\<close>

theorem graph_computed_on_dag:
  assumes "acyclic (blocking (gi_tasks input))"
  shows "\<exists>g. dependency_graph input goal = Some g \<and> distinct (dg_critical g)
    \<and> length (dg_critical g) \<le> length (gi_tasks input)"
proof -
  let ?ts = "gi_tasks input"
  obtain reach g where g: "graph_reach ?ts = Some reach" "dependency_graph input goal = Some g"
    "chain_of (\<lambda>i. min_by_key (chain_rank reach) (direct ?ts i))
      (critical_start reach (goal_task_ids ?ts goal)) (dg_critical g)"
    by (rule graph_critical [OF assms])
  note chain = chain_of_successively [OF g(3)]
  then have "successively (\<lambda>a b. (a, b) \<in> blocking ?ts) (dg_critical g)"
    by (auto elim: successively_mono)
  with assms have "distinct (dg_critical g)" by (rule successively_distinct)
  moreover have "set (dg_critical g) \<subseteq> unfinished_ids ?ts"
    using critical_chain_unfinished [OF g(1,3)] .
  then have "card (set (dg_critical g)) \<le> card (unfinished_ids ?ts)"
    by (rule card_mono [rotated]) (simp add: unfinished_ids_def)
  moreover have "card (unfinished_ids ?ts) \<le> length ?ts"
    using card_length [of "map gt_id ?ts"] by (simp add: unfinished_ids_def)
  ultimately show ?thesis using g(2) by (auto simp: distinct_card)
qed

lemma graph_computed_on_dag_witness:
  "\<exists>g. dependency_graph example_input None = Some g \<and> distinct (dg_critical g)
    \<and> length (dg_critical g) \<le> length (gi_tasks example_input)"
  by (rule graph_computed_on_dag [OF example_acyclic])

text \<open>Each task of the view shows what waits for it: \<open>blocks\<close> the tasks that wait for it
  directly, through a predecessor or an open goal, \<open>unblocks\<close> how many wait for it directly or not,
  and as effective priority the highest of its own and those of the ready tasks among these whose
  goal is not a draft and that no abandoned goal holds for good.\<close>

theorem graph_node_shows_waiters:
  assumes "dependency_graph input goal = Some g" "n \<in> set (dg_tasks g)"
    and "distinct (map gt_id (gi_tasks input))"
  shows "\<exists>t \<in> set (gi_tasks input). gt_id t = gn_id n \<and> graph_in_goal goal t
    \<and> set (gn_blocks n) = blocking (gi_tasks input) `` {gn_id n} \<and> sorted (gn_blocks n)
    \<and> gn_unblocks n = card ((blocking (gi_tasks input))\<^sup>+ `` {gn_id n})
    \<and> gn_effective_priority n = Max (insert (gt_priority t)
        (gt_priority ` {w \<in> set (gi_tasks input).
          (gn_id n, gt_id w) \<in> (blocking (gi_tasks input))\<^sup>+ \<and> passes_priority w}))"
proof -
  let ?ts = "gi_tasks input"
  obtain reach where reach: "graph_reach ?ts = Some reach"
    "dg_tasks g = map (graph_node ?ts reach) (filter (\<lambda>t. gt_id t \<in> goal_task_ids ?ts goal) ?ts)"
    by (rule graph_nodes [OF assms(1)])
  then obtain t where t: "t \<in> set ?ts" "gt_id t \<in> goal_task_ids ?ts goal" "n = graph_node ?ts reach t"
    using assms(2) by auto
  moreover have "graph_in_goal goal t"
  proof -
    obtain u where "u \<in> set ?ts" "graph_in_goal goal u" "gt_id u = gt_id t"
      using t(2) by (auto simp: goal_task_ids_def)
    with assms(3) t(1) show ?thesis by (auto simp: distinct_map dest: inj_onD)
  qed
  ultimately show ?thesis
    using reach_count_unblocks [OF reach(1)] reach_effective_of [OF reach(1) assms(3) t(1)]
      effective_of_Max [OF assms(3), of t] direct_sorted [of ?ts]
    by (intro bexI [of _ t]) (simp_all add: graph_node_def unblocks_def waiting_for_def)
qed

lemma graph_node_shows_waiters_witness:
  "\<exists>g. \<exists>n \<in> set (dg_tasks g). dependency_graph example_input None = Some g \<and> gn_id n = TaskId 1
    \<and> card ((blocking (gi_tasks example_input))\<^sup>+ `` {TaskId 1}) = 2"
proof -
  obtain g n where "dependency_graph example_input None = Some g" "n \<in> set (dg_tasks g)"
    "gn_id n = TaskId 1" "gn_unblocks n = 2"
    by (rule example_graph)
  with graph_node_shows_waiters [OF this(1,2) example_distinct] show ?thesis by auto
qed



text \<open>The critical chain starts at the task of the goal that releases the most tasks (the lowest
  ID of equals), goes each time to the directly waiting task that releases the most, and ends at one
  that nothing waits for; it is empty exactly when no task of the goal blocks another.\<close>

lemma critical_chain_greedy:
  assumes "dependency_graph input goal = Some g" "acyclic (blocking (gi_tasks input))"
  shows "successively (\<lambda>a b. (a, b) \<in> blocking (gi_tasks input)
        \<and> (\<forall>d \<in> blocking (gi_tasks input) `` {a}. frees_before (gi_tasks input) b d)) (dg_critical g)
    \<and> (if \<exists>i \<in> goal_task_ids (gi_tasks input) goal. blocking (gi_tasks input) `` {i} \<noteq> {}
       then dg_critical g \<noteq> [] \<and> hd (dg_critical g) \<in> goal_task_ids (gi_tasks input) goal
         \<and> (\<forall>i \<in> goal_task_ids (gi_tasks input) goal. frees_before (gi_tasks input) (hd (dg_critical g)) i)
         \<and> blocking (gi_tasks input) `` {last (dg_critical g)} = {}
       else dg_critical g = [])"
proof -
  let ?ts = "gi_tasks input"
  obtain reach where reach: "graph_reach ?ts = Some reach"
    and g: "chain_of (\<lambda>i. min_by_key (chain_rank reach) (direct ?ts i))
      (critical_start reach (goal_task_ids ?ts goal)) (dg_critical g)"
    using graph_critical [OF assms(2), of goal] assms(1) by (metis option.inject)
  note chain = chain_of_successively [OF g, unfolded set_direct chain_rank_le [OF reach] direct_Nil_iff]
  show ?thesis
  proof (cases "critical_start reach (goal_task_ids ?ts goal)")
    case None
    then have "\<not> (\<exists>i \<in> goal_task_ids ?ts goal. blocking ?ts `` {i} \<noteq> {})"
      using critical_start_None [OF reach] by blast
    with chain None show ?thesis by simp
  next
    case (Some i)
    with chain have "hd (dg_critical g) = i" "dg_critical g \<noteq> []" by auto
    with chain critical_start_Some [OF reach Some] show ?thesis by auto
  qed
qed

text \<open>The candidates of the view are the claimable tasks read, those of the goal only when one is
  given, each as often as read, in the claim rule's order: highest effective priority, then most
  tasks released, then lowest ID.\<close>

lemma graph_candidates_in_claim_order:
  assumes "dependency_graph input goal = Some g" "distinct (map gt_id (gi_tasks input))"
    and "set (gi_candidates input) \<subseteq> gt_id ` set (gi_tasks input)"
  shows "mset (dg_candidates g) = filter_mset (\<lambda>i. goal = None \<or> i \<in> goal_task_ids (gi_tasks input) goal)
      (mset (gi_candidates input))
    \<and> sorted (map (\<lambda>i. claim_rank (effective_of (gi_tasks input) (the (graph_by_id (gi_tasks input) i)))
        (unblocks (gi_tasks input) i) i) (dg_candidates g))"
proof -
  let ?ts = "gi_tasks input"
  obtain reach where reach: "graph_reach ?ts = Some reach"
    and g: "dg_candidates g = sort_key (\<lambda>i. claim_rank (reach_effective reach i) (unblocks ?ts i) i)
      (filter (\<lambda>i. goal = None \<or> i \<in> goal_task_ids ?ts goal) (gi_candidates input))"
    by (rule graph_nodes [OF assms(1)])
  have "reach_effective reach i = effective_of ?ts (the (graph_by_id ?ts i))" if i: "i \<in> set (dg_candidates g)" for i
  proof -
    obtain t where "t \<in> set ?ts" "gt_id t = i" using i assms(3) by (auto simp: g)
    moreover have "graph_by_id ?ts (gt_id t) = Some t"
      using map_of_rev_distinct [OF assms(2) \<open>t \<in> set ?ts\<close>, of "\<lambda>t. t"] by (simp add: graph_by_id_def)
    ultimately show ?thesis using reach_effective_of [OF reach assms(2)] by auto
  qed
  then have "map (\<lambda>i. claim_rank (effective_of ?ts (the (graph_by_id ?ts i))) (unblocks ?ts i) i) (dg_candidates g)
    = map (\<lambda>i. claim_rank (reach_effective reach i) (unblocks ?ts i) i) (dg_candidates g)"
    by simp
  then show ?thesis by (simp only: g sorted_sort_key mset_sort mset_filter)
qed

end
