(* ===== verification/Replan_Operation.thy ===== *)
theory Replan_Operation
  imports Task_Aggregate
begin

text \<open>
  Replanning operations and holds as the guards of a task: \<^verbatim>\<open>src/domain/task_replan.rs\<close>, the
  guarding part of \<^verbatim>\<open>src/domain/task_hold.rs\<close>, and the writes of the table \<open>replan_operations\<close> in
  \<^verbatim>\<open>src/infrastructure/replans.rs\<close> (\<open>record_replan\<close>, \<open>move_in\<close>, \<open>carry_open_to\<close>,
  \<open>reopen_blocked\<close>, \<open>resolve_replan\<close>).

  The table is the list of its rows in ID order. What a write reads of other tables (holds, runs,
  events, planning requests) is a record of facts, and what it writes to them is returned as
  effects, so every statement holds whatever these say. A write that fails is \<open>Inl\<close>: its
  transaction rolls back, so the table stays. The conditions' versions (SHA-256 of their JSON) are
  opaque texts.

  Shown: a task has at most one open operation, however requests, moves, claims, failed restores
  and a person's resolutions interleave; a move decided under an older generation is refused; a
  person's resolution that is accepted is never refused by the move that follows it.
\<close>

section \<open>Statuses\<close>

definition ReplanStatus_is_closed :: "ReplanStatus \<Rightarrow> bool" where
  "ReplanStatus_is_closed s \<longleftrightarrow> s \<in> {ReplanStatus.Continuing, ReplanStatus.Applied,
     ReplanStatus.ContinuingAfterPark, ReplanStatus.Withdrawn}"

definition ReplanStatus_guards :: "ReplanStatus \<Rightarrow> bool" where
  "ReplanStatus_guards s \<longleftrightarrow> \<not> ReplanStatus_is_closed s
     \<and> \<not> s \<in> {ReplanStatus.Candidate, ReplanStatus.Diagnosing}"

definition ReplanStatus_parks :: "ReplanStatus \<Rightarrow> bool" where
  "ReplanStatus_parks s \<longleftrightarrow> s \<in> {ReplanStatus.PauseRequested, ReplanStatus.Quiescing,
     ReplanStatus.Snapshotting}"

definition ReplanStatus_needs_snapshot :: "ReplanStatus \<Rightarrow> bool" where
  "ReplanStatus_needs_snapshot s \<longleftrightarrow> s \<in> {ReplanStatus.Parked, ReplanStatus.Planning,
     ReplanStatus.Reviewing, ReplanStatus.AwaitingAnswer, ReplanStatus.Applying, ReplanStatus.Applied}"

definition ReplanStatus_ends_request_undecided :: "ReplanStatus \<Rightarrow> bool \<Rightarrow> bool" where
  "ReplanStatus_ends_request_undecided s planner_open \<longleftrightarrow> ReplanStatus_is_closed s \<and> \<not> planner_open"

definition ReplanStatus_hands_to_planner :: "ReplanStatus \<Rightarrow> bool" where
  "ReplanStatus_hands_to_planner s \<longleftrightarrow> s \<in> {ReplanStatus.Parked, ReplanStatus.Planning,
     ReplanStatus.Reviewing, ReplanStatus.AwaitingAnswer}"

definition ReplanStatus_renews_request :: "ReplanStatus \<Rightarrow> ReplanStatus \<Rightarrow> bool \<Rightarrow> bool" where
  "ReplanStatus_renews_request s to declined_at_close \<longleftrightarrow>
     \<not> ReplanStatus_hands_to_planner s \<and> ReplanStatus_hands_to_planner to \<and> declined_at_close"

definition ReplanStatus_reopens :: "ReplanStatus \<Rightarrow> bool" where
  "ReplanStatus_reopens s \<longleftrightarrow> s \<in> {ReplanStatus.ContinuingAfterPark, ReplanStatus.Withdrawn}"

fun ReplanStatus_next :: "ReplanStatus \<Rightarrow> ReplanStatus list" where
  "ReplanStatus_next ReplanStatus.Candidate =
    [ReplanStatus.Diagnosing, ReplanStatus.Continuing, ReplanStatus.PauseRequested]"
| "ReplanStatus_next ReplanStatus.Diagnosing =
    [ReplanStatus.Diagnosing, ReplanStatus.Continuing, ReplanStatus.PauseRequested, ReplanStatus.Blocked]"
| "ReplanStatus_next ReplanStatus.PauseRequested =
    [ReplanStatus.Quiescing, ReplanStatus.Snapshotting, ReplanStatus.Continuing, ReplanStatus.Blocked]"
| "ReplanStatus_next ReplanStatus.Quiescing =
    [ReplanStatus.Snapshotting, ReplanStatus.Continuing, ReplanStatus.Blocked]"
| "ReplanStatus_next ReplanStatus.Snapshotting =
    [ReplanStatus.Parked, ReplanStatus.Continuing, ReplanStatus.Blocked]"
| "ReplanStatus_next ReplanStatus.Parked =
    [ReplanStatus.Planning, ReplanStatus.ContinuingAfterPark, ReplanStatus.Blocked]"
| "ReplanStatus_next ReplanStatus.Planning =
    [ReplanStatus.Reviewing, ReplanStatus.ContinuingAfterPark, ReplanStatus.Withdrawn,
     ReplanStatus.Blocked]"
| "ReplanStatus_next ReplanStatus.Applying = [ReplanStatus.Applied, ReplanStatus.Blocked]"
| "ReplanStatus_next ReplanStatus.Blocked =
    [ReplanStatus.Quiescing, ReplanStatus.Snapshotting, ReplanStatus.Parked, ReplanStatus.Planning,
     ReplanStatus.Reviewing, ReplanStatus.Applying, ReplanStatus.ContinuingAfterPark,
     ReplanStatus.Withdrawn]"
| "ReplanStatus_next ReplanStatus.ContinuingAfterPark = [ReplanStatus.Blocked]"
| "ReplanStatus_next ReplanStatus.Withdrawn = [ReplanStatus.Blocked]"
| "ReplanStatus_next ReplanStatus.Continuing = []"
| "ReplanStatus_next ReplanStatus.Applied = []"
| "ReplanStatus_next _ =
    [ReplanStatus.Planning, ReplanStatus.Reviewing, ReplanStatus.AwaitingAnswer,
     ReplanStatus.Applying, ReplanStatus.ContinuingAfterPark, ReplanStatus.Withdrawn,
     ReplanStatus.Blocked]"

definition ReplanStatus_can_move_to :: "ReplanStatus \<Rightarrow> ReplanStatus \<Rightarrow> bool" where
  "ReplanStatus_can_move_to s to \<longleftrightarrow> to \<in> set (ReplanStatus_next s)"

text \<open>The statuses the store's SQL names as guarding, \<open>replan_guarding!\<close>.\<close>

definition replan_guarding :: "ReplanStatus list" where
  "replan_guarding = [ReplanStatus.PauseRequested, ReplanStatus.Quiescing, ReplanStatus.Snapshotting,
     ReplanStatus.Parked, ReplanStatus.Planning, ReplanStatus.Reviewing, ReplanStatus.AwaitingAnswer,
     ReplanStatus.Applying, ReplanStatus.Blocked]"

section \<open>The guards of a task's steps\<close>

record ReplanGuard =
  rg_task :: TaskId
  rg_operation :: ReplanId
  rg_status :: ReplanStatus

record HoldGuard =
  hg_task :: TaskId
  hg_hold :: HoldId

record TaskGuards =
  tg_replan :: "ReplanGuard option"
  tg_hold :: "HoldGuard option"

datatype Fence = FenceReplan ReplanGuard | FenceHold HoldGuard

text \<open>\<open>Option::filter\<close>.\<close>

definition option_filter :: "('a \<Rightarrow> bool) \<Rightarrow> 'a option \<Rightarrow> 'a option" where
  "option_filter P x = (case x of Some v \<Rightarrow> if P v then Some v else None | None \<Rightarrow> None)"

definition TaskGuards_fence :: "TaskGuards \<Rightarrow> Fence option" where
  "TaskGuards_fence g =
    (case (option_filter (\<lambda>r. ReplanStatus_guards (rg_status r)) (tg_replan g), tg_hold g) of
       (Some replan, _) \<Rightarrow> Some (FenceReplan replan)
     | (None, Some hold) \<Rightarrow> Some (FenceHold hold)
     | (None, None) \<Rightarrow> None)"

definition holds_step :: "GuardedStep \<Rightarrow> bool" where
  "holds_step step \<longleftrightarrow> step \<in> {GuardedStep.Claim, GuardedStep.Resume, GuardedStep.Recover,
     GuardedStep.Revise, GuardedStep.Integrate}"

definition check_step :: "TaskGuards \<Rightarrow> GuardedStep \<Rightarrow> unit result" where
  "check_step g step =
    (case option_filter (\<lambda>r. ReplanStatus_guards (rg_status r)) (tg_replan g) of
       Some r \<Rightarrow> Inl (TaskReplanning (rg_task r) (rg_operation r) (rg_status r) step)
     | None \<Rightarrow> (case tg_hold g of
         Some hold \<Rightarrow> if holds_step step then Inl (TaskHeld (hg_task hold) (hg_hold hold) step) else Inr ()
       | None \<Rightarrow> Inr ()))"

definition check_replannable :: "RunId \<Rightarrow> RunStatus \<Rightarrow> TaskStatus \<Rightarrow> bool \<Rightarrow> unit result" where
  "check_replannable run_id run task latest =
    require (latest \<and> task = TaskStatus.InProgress
        \<and> \<not> run \<in> {RunStatus.Integrated, RunStatus.Succeeded})
      (RunNotReplannable run_id run task)"

section \<open>The operation\<close>

record AcceptanceItem =
  item_ordinal :: nat
  item_text :: string
  item_hash :: string

text \<open>\<open>str::lines\<close>: the ending of a line that has one is \<open>\n\<close> or \<open>\r\n\<close>.\<close>

definition strip_cr :: "string \<Rightarrow> string" where
  "strip_cr s = (if s \<noteq> [] \<and> last s = CHR 0x0D then butlast s else s)"

definition str_lines :: "string \<Rightarrow> string list" where
  "str_lines s = (let pieces = split_on (CHR 0x0A) s in
     map strip_cr (butlast pieces) @ (if last pieces = [] then [] else [last pieces]))"

text \<open>\<open>sha256\<close> is the digest of the \<^verbatim>\<open>sha2\<close> crate, as hexadecimal text.\<close>

definition acceptance_items :: "(string \<Rightarrow> string) \<Rightarrow> string \<Rightarrow> AcceptanceItem list" where
  "acceptance_items sha256 acceptance =
    map (\<lambda>(index, text). \<lparr>item_ordinal = index + 1, item_text = text, item_hash = sha256 text\<rparr>)
      (enumerate 0 (filter (\<lambda>line. line \<noteq> []) (map trim (str_lines acceptance))))"

record GoalConditions =
  gc_id :: GoalId
  gc_acceptance_version :: int
  gc_acceptance :: "AcceptanceItem list"

record OriginalConditions =
  oc_title :: string
  oc_description :: string
  oc_acceptance :: "AcceptanceItem list"
  oc_paths :: "string list"
  oc_verify :: "string list"
  oc_evidence :: "EvidenceCheck list"
  oc_predecessors :: "TaskId list"
  oc_successors :: "TaskId list"
  oc_goal :: "GoalConditions option"

datatype ReplanCause =
  LocalDefect | AcceptanceUnclear | OversizedUnit | Conflict | Verification | Environment

datatype DiagnosisChoice = Continue | Replan | Ask

record DiagnosisPremise =
  premise_run_status :: RunStatus
  premise_read_until :: "EventId option"
  premise_head :: "string option"
  premise_manual :: "bool option"
  premise_max_auto_parks :: "nat option"

definition premise_head_moved :: "DiagnosisPremise \<Rightarrow> string option \<Rightarrow> bool" where
  "premise_head_moved p now = (case (premise_head p, now) of
     (Some read, Some now) \<Rightarrow> read \<noteq> now | _ \<Rightarrow> False)"

record Diagnosis =
  diag_evidence :: "EventId list"
  diag_causes :: "ReplanCause list"
  diag_choice :: "DiagnosisChoice option"
  diag_confidence :: "string option"
  diag_next_check :: "string option"
  diag_window_end :: "EventId option"
  diag_remaining :: "nat option"
  diag_decided_by :: "string option"
  diag_summary :: "string option"
  diag_premise :: "DiagnosisPremise option"

record NewReplan =
  nr_run :: RunId
  nr_reason :: string
  nr_evidence :: "EventId list"

definition NewReplan_validate :: "NewReplan \<Rightarrow> unit result" where
  "NewReplan_validate new = require (\<not> blank (nr_reason new)) (Blank ''reason'')"

record ReplanOperation =
  op_id :: ReplanId
  op_task_id :: TaskId
  op_run_id :: RunId
  op_goal_id :: "GoalId option"
  op_origin :: ReplanOrigin
  op_status :: ReplanStatus
  op_status_reason :: "string option"
  op_generation :: int
  op_return_phase :: "ReplanStatus option"
  op_reason :: string
  op_conditions :: OriginalConditions
  op_task_version :: string
  op_goal_acceptance_version :: "int option"
  op_diagnosis :: Diagnosis
  op_snapshot_id :: "string option"
  op_request_id :: "RequestId option"
  op_proposal_id :: "ProposalId option"
  op_requested_by :: string
  op_requested_by_id :: string
  op_created_at :: int
  op_updated_at :: int
  op_closed_at :: "int option"

definition op_guard :: "ReplanOperation \<Rightarrow> ReplanGuard option" where
  "op_guard op = (if ReplanStatus_guards (op_status op)
     then Some \<lparr>rg_task = op_task_id op, rg_operation = op_id op, rg_status = op_status op\<rparr> else None)"

record ReplanMove =
  move_to :: ReplanStatus
  move_reason :: string
  move_snapshot_id :: "string option"
  move_diagnosis :: "Diagnosis option"

section \<open>Rules of a move\<close>

definition check_move_as :: "ReplanOperation \<Rightarrow> int \<Rightarrow> ReplanMove \<Rightarrow> bool \<Rightarrow> unit result" where
  "check_move_as op generation step apply_it =
    and_then (require (op_generation op = generation)
      (ReplanGenerationStale (op_id op) generation (op_generation op))) (\<lambda>_.
    and_then (require (ReplanStatus_can_move_to (op_status op) (move_to step))
      (ReplanMoveNotAllowed (op_id op) (op_status op) (move_to step))) (\<lambda>_.
    and_then (require (apply_it \<or> \<not> move_to step \<in> {ReplanStatus.Applying, ReplanStatus.Applied})
      (ReplanApplyUnavailable (op_id op))) (\<lambda>_.
    and_then (require (\<not> ReplanStatus_needs_snapshot (move_to step)
        \<or> move_snapshot_id step \<noteq> None \<or> op_snapshot_id op \<noteq> None)
      (ReplanNeedsSnapshot (op_id op) (move_to step))) (\<lambda>_.
    require (\<not> blank (move_reason step)) (Blank ''reason'')))))"

definition check_move :: "ReplanOperation \<Rightarrow> int \<Rightarrow> ReplanMove \<Rightarrow> unit result" where
  "check_move op generation step = check_move_as op generation step False"

definition check_apply_move :: "ReplanOperation \<Rightarrow> int \<Rightarrow> ReplanMove \<Rightarrow> unit result" where
  "check_apply_move op generation step = check_move_as op generation step True"

definition generation_after :: "ReplanStatus \<Rightarrow> ReplanStatus \<Rightarrow> int \<Rightarrow> int" where
  "generation_after from to generation =
    (if to = ReplanStatus.PauseRequested \<and> \<not> ReplanStatus_guards from \<or> to = ReplanStatus.Diagnosing
     then generation + 1 else generation)"

definition needs_task_alone :: "ReplanStatus \<Rightarrow> ReplanStatus \<Rightarrow> bool" where
  "needs_task_alone from to \<longleftrightarrow> \<not> ReplanStatus_is_closed to \<and> \<not> ReplanStatus_guards from"

record ConditionMapping =
  map_ordinal :: nat
  map_hash :: string
  map_child_task_id :: "TaskId option"
  map_child_ordinal :: "nat option"
  map_disposition :: string

text \<open>The loop over the mappings with its two sets.\<close>

fun check_mappings_loop ::
  "ReplanId \<Rightarrow> nat set \<Rightarrow> nat set \<Rightarrow> ConditionMapping list \<Rightarrow> unit result" where
  "check_mappings_loop operation deleted mapped [] = Inr ()"
| "check_mappings_loop operation deleted mapped (m # ms) =
    (let ordinal = map_ordinal m in
     and_then (if map_child_task_id m = None
       then and_then (require (ordinal \<notin> deleted) (ReplanDeletionRepeated operation ordinal))
         (\<lambda>_. Inr (insert ordinal deleted, mapped))
       else Inr (deleted, insert ordinal mapped)) (\<lambda>(deleted, mapped).
     and_then (require (\<not> (ordinal \<in> deleted \<and> ordinal \<in> mapped))
       (ReplanDeletionMapped operation ordinal)) (\<lambda>_.
     check_mappings_loop operation deleted mapped ms)))"

definition check_mappings ::
  "ReplanId \<Rightarrow> ConditionMapping list \<Rightarrow> ConditionMapping list \<Rightarrow> unit result" where
  "check_mappings operation existing added = check_mappings_loop operation {} {} (existing @ added)"

section \<open>One open operation per task\<close>

record Carry =
  carry_kept :: "ReplanId option"
  carry_moved :: "(ReplanId \<times> int) option"
  carry_superseded :: "ReplanId list"

definition current :: "ReplanOperation list \<Rightarrow> ReplanOperation option" where
  "current open_ops = (case find (\<lambda>op. ReplanStatus_guards (op_status op)) open_ops of
     Some op \<Rightarrow> Some op | None \<Rightarrow> if open_ops = [] then None else Some (last open_ops))"

definition carry :: "ReplanOperation list \<Rightarrow> RunId \<Rightarrow> Carry" where
  "carry open_ops latest = (case current open_ops of
     None \<Rightarrow> \<lparr>carry_kept = None, carry_moved = None, carry_superseded = []\<rparr>
   | Some kept \<Rightarrow>
      \<lparr>carry_kept = Some (op_id kept),
       carry_moved = (if \<not> ReplanStatus_guards (op_status kept) \<and> op_run_id kept \<noteq> latest
         then Some (op_id kept, op_generation kept + 1) else None),
       carry_superseded = map op_id (filter
         (\<lambda>op. op_id op \<noteq> op_id kept \<and> \<not> ReplanStatus_guards (op_status op)) open_ops)\<rparr>)"

datatype ReplanRequest = Join ReplanId | Refuse ReplanId | OpenNew

definition request_on :: "ReplanOperation option \<Rightarrow> RunId \<Rightarrow> ReplanRequest" where
  "request_on kept run = (case kept of
     Some op \<Rightarrow> if op_run_id op = run \<or> ReplanStatus_guards (op_status op)
       then Join (op_id op) else Refuse (op_id op)
   | None \<Rightarrow> OpenNew)"

section \<open>A person's resolution\<close>

record ResolveReplan =
  res_operation :: ReplanId
  res_generation :: int
  res_resolution :: ReplanResolution
  res_reason :: string

definition ResolveReplan_validate :: "ResolveReplan \<Rightarrow> unit result" where
  "ResolveReplan_validate r = require (\<not> blank (res_reason r)) (Blank ''reason'')"

definition resolve_to ::
  "ReplanOperation \<Rightarrow> int \<Rightarrow> ReplanResolution \<Rightarrow> (TaskId \<times> TaskStatus) list \<Rightarrow> string option
    \<Rightarrow> ReplanStatus result" where
  "resolve_to op generation resolution children snapshot_problem =
    (let refuse = (\<lambda>reason. Inl (ReplanNotResolvable (op_id op) reason)) in
     if ReplanStatus_is_closed (op_status op) then
       refuse (''it is closed as '' @ ReplanStatus_as_str (op_status op) @ '', so there is nothing to resolve'')
     else if op_status op \<noteq> ReplanStatus.Blocked then
       refuse (''it is '' @ ReplanStatus_as_str (op_status op) @ '', not blocked: the runtime moves it on'')
     else if op_generation op \<noteq> generation then
       refuse (''it is at generation '' @ show_int (op_generation op) @ '', not '' @ show_int generation
         @ '': read it again (`replans '' @ show_int (replan_id_as_i64 (op_id op))
         @ ''`) and decide on what it is now'')
     else if op_return_phase op = Some ReplanStatus.Applying then
       refuse ''it was held at its apply, which the runtime's planner pass checks again and sends back to a planner itself; a snapshot that does not match is not resolved here''
     else case snapshot_problem of
       Some problem \<Rightarrow>
         refuse (''its snapshot is not as the park saved it, and no choice overwrites it: '' @ problem)
     | None \<Rightarrow> (case find (\<lambda>(_, s). \<not> s \<in> {TaskStatus.Draft, TaskStatus.Submitted, TaskStatus.Canceled}) children of
         Some (task, s) \<Rightarrow>
           refuse (''task '' @ show_int (task_id_as_i64 task) @ '' of its replacement proposal is ''
             @ TaskStatus_as_str s @ '': a child that may be claimed is not released'')
       | None \<Rightarrow> Inr (case resolution of
           ReplanResolution.Continue \<Rightarrow> ReplanStatus.ContinuingAfterPark
         | ReplanResolution.Withdraw \<Rightarrow> ReplanStatus.Withdrawn
         | ReplanResolution.Replan \<Rightarrow>
             if op_snapshot_id op \<noteq> None then ReplanStatus.Parked
             else if op_return_phase op = Some ReplanStatus.Snapshotting then ReplanStatus.Snapshotting
             else ReplanStatus.Quiescing)))"

section \<open>Restores and resumes\<close>

record ReplanMoved =
  moved_operation_id :: ReplanId
  moved_to :: ReplanStatus
  moved_generation :: int

record RestoreRecord =
  restore_operation_id :: ReplanId
  restore_generation :: "int option"

datatype ContinuationRecord =
  Moved ReplanMoved
| Restored RestoreRecord
| RestoreFailed RestoreRecord
| ResumeStarted
| ResumeFinished

text \<open>\<open>Iterator::find_map\<close>.\<close>

fun find_map :: "('a \<Rightarrow> 'b option) \<Rightarrow> 'a list \<Rightarrow> 'b option" where
  "find_map f [] = None"
| "find_map f (x # xs) = (case f x of Some y \<Rightarrow> Some y | None \<Rightarrow> find_map f xs)"

definition restored_now :: "ReplanOperation \<Rightarrow> ContinuationRecord list \<Rightarrow> bool" where
  "restored_now op records =
    (case find_map (\<lambda>record. case record of
        Restored r \<Rightarrow> if restore_operation_id r = op_id op
          then Some (case restore_generation r of None \<Rightarrow> True | Some g \<Rightarrow> g = op_generation op) else None
      | RestoreFailed f \<Rightarrow> if restore_operation_id f = op_id op then Some False else None
      | _ \<Rightarrow> None) (rev records) of
     Some b \<Rightarrow> b | None \<Rightarrow> False)"

fun no_resume_finished :: "bool \<Rightarrow> ContinuationRecord list \<Rightarrow> bool" where
  "no_resume_finished started [] = True"
| "no_resume_finished started (r # rs) =
    (if r = ResumeStarted then no_resume_finished True rs
     else if r = ResumeFinished \<and> started then False
     else no_resume_finished started rs)"

text \<open>\<open>rposition\<close> is the position in the list of the last record that satisfies the test.\<close>

definition rposition :: "('a \<Rightarrow> bool) \<Rightarrow> 'a list \<Rightarrow> nat option" where
  "rposition P xs = map_option (\<lambda>i. length xs - 1 - i) (position P (rev xs))"

definition first_resume_of_continuation :: "ReplanOperation \<Rightarrow> ContinuationRecord list \<Rightarrow> bool" where
  "first_resume_of_continuation op records =
    (let since = (case rposition (\<lambda>record. case record of
          Moved m \<Rightarrow> moved_operation_id m = op_id op \<and> moved_to m = op_status op
            \<and> moved_generation m = op_generation op
        | _ \<Rightarrow> False) records of None \<Rightarrow> 0 | Some i \<Rightarrow> i + 1)
     in no_resume_finished False (drop since records))"

section \<open>The table\<close>

text \<open>A store's failure: the domain's rejection, or an \<open>anyhow\<close> message of the store itself.\<close>

datatype store_error = Domain DomainError | Refused string

type_synonym 'a stored = "store_error + 'a"

definition domain :: "'a result \<Rightarrow> 'a stored" where
  "domain r = (case r of Inl e \<Rightarrow> Inl (Domain e) | Inr x \<Rightarrow> Inr x)"

text \<open>What a move reads of the other tables.\<close>

record ReplanFacts =
  facts_hold :: "TaskId \<Rightarrow> HoldId option"
  facts_task_status :: "TaskId \<Rightarrow> TaskStatus"
  facts_latest_run :: "TaskId \<Rightarrow> (RunId \<times> RunStatus) option"
  facts_progress_after :: "TaskId \<Rightarrow> EventId \<Rightarrow> (EventId \<times> string) option"
  facts_person_joined :: "ReplanId \<Rightarrow> bool"
  facts_auto_parks :: "TaskId \<Rightarrow> nat"
  facts_task_version :: "ReplanOperation \<Rightarrow> string"
  facts_planner_open :: "RequestId \<Rightarrow> bool"
  facts_request_open :: "RequestId \<Rightarrow> bool"
  facts_declined_at_close :: "RequestId \<Rightarrow> ReplanId \<Rightarrow> bool"
  facts_new_request :: RequestId

definition read_operation :: "ReplanOperation list \<Rightarrow> ReplanId \<Rightarrow> ReplanOperation stored" where
  "read_operation ops i = (case find (\<lambda>op. op_id op = i) ops of
     Some op \<Rightarrow> Inr op
   | None \<Rightarrow> Inl (Refused (''replan operation '' @ show_int (replan_id_as_i64 i) @ '' does not exist'')))"

definition open_operations :: "ReplanOperation list \<Rightarrow> TaskId \<Rightarrow> ReplanOperation list" where
  "open_operations ops task = filter (\<lambda>op. op_task_id op = task \<and> op_closed_at op = None) ops"

definition open_operation_of :: "ReplanOperation list \<Rightarrow> TaskId \<Rightarrow> ReplanOperation option" where
  "open_operation_of ops task = current (open_operations ops task)"

definition guard_of :: "ReplanOperation list \<Rightarrow> TaskId \<Rightarrow> ReplanGuard option" where
  "guard_of ops task = map_option
    (\<lambda>op. \<lparr>rg_task = task, rg_operation = op_id op, rg_status = op_status op\<rparr>)
    (find (\<lambda>op. op_task_id op = task \<and> op_status op \<in> set replan_guarding) ops)"

definition check_not_held :: "ReplanFacts \<Rightarrow> ReplanOperation \<Rightarrow> unit result" where
  "check_not_held facts op = (case facts_hold facts (op_task_id op) of
     Some hold \<Rightarrow> Inl (ReplanDiagnosisHeld (op_id op) (op_task_id op) hold)
   | None \<Rightarrow> Inr ())"

definition check_premise ::
  "ReplanFacts \<Rightarrow> ReplanOperation \<Rightarrow> ReplanStatus \<Rightarrow> DiagnosisPremise \<Rightarrow> unit result" where
  "check_premise facts op to premise =
    (let task = op_task_id op; stale = (\<lambda>why. ReplanPremiseStale (op_id op) why) in
     and_then (check_not_held facts op) (\<lambda>_.
     and_then (require (facts_task_status facts task = TaskStatus.InProgress)
       (stale (''task '' @ show_int (task_id_as_i64 task) @ '' is ''
         @ TaskStatus_as_str (facts_task_status facts task)))) (\<lambda>_.
     and_then (case facts_latest_run facts task of
         Some (run, s) \<Rightarrow>
           require (run = op_run_id op \<and> s = premise_run_status premise
               \<and> \<not> s \<in> {RunStatus.Integrating, RunStatus.Integrated, RunStatus.Succeeded})
             (stale (''run '' @ run_id_as_str run @ '' is '' @ RunStatus_as_str s
               @ '', and the diagnosis read run '' @ run_id_as_str (op_run_id op) @ '' ''
               @ RunStatus_as_str (premise_run_status premise)))
       | None \<Rightarrow> Inl (stale (''task '' @ show_int (task_id_as_i64 task) @ '' has no run''))) (\<lambda>_.
     and_then (case premise_read_until premise of
         Some window_end \<Rightarrow> (case facts_progress_after facts task window_end of
             Some (event, kind) \<Rightarrow> Inl (stale (kind @ '' event '' @ show_int (event_id_as_i64 event)
               @ '' came after the last event it read ('' @ show_int (event_id_as_i64 window_end) @ '')''))
           | None \<Rightarrow> Inr ())
       | None \<Rightarrow> Inr ()) (\<lambda>_.
     and_then (if premise_manual premise = Some False
         then require (\<not> (op_origin op = ReplanOrigin.Manual \<or> facts_person_joined facts (op_id op)))
           (stale ''a person's request joined the operation since it was decided'')
         else Inr ()) (\<lambda>_.
     and_then (case premise_max_auto_parks premise of
         Some limit \<Rightarrow> if to = ReplanStatus.PauseRequested
           then require (facts_auto_parks facts task < limit)
             (stale (''the lineage's parks without a person are used up (''
               @ show_nat (facts_auto_parks facts task) @ '' of '' @ show_nat limit @ '')''))
           else Inr ()
       | None \<Rightarrow> Inr ()) (\<lambda>_.
     require (facts_task_version facts op = op_task_version op)
       (stale (''task '' @ show_int (task_id_as_i64 task) @ '' was edited'')))))))))"

text \<open>What a move writes to the other tables: the children of the proposal released, the request
  declined or renewed (the old one and its successor), and the one recorded for a fence.\<close>

record MoveEffects =
  eff_released :: "ProposalId option"
  eff_declined :: "RequestId option"
  eff_renewed :: "(RequestId \<times> RequestId) option"
  eff_recorded :: "NewReplan option"

definition moved_diagnosis :: "Diagnosis \<Rightarrow> Diagnosis option \<Rightarrow> Diagnosis" where
  "moved_diagnosis d made = (case made of
     Some m \<Rightarrow> m\<lparr>diag_evidence := push_new (diag_evidence d) (diag_evidence m)\<rparr>
   | None \<Rightarrow> d)"

text \<open>The row as the \<open>UPDATE\<close> leaves it.\<close>

definition moved_row :: "ReplanOperation \<Rightarrow> ReplanMove \<Rightarrow> int \<Rightarrow> ReplanOperation" where
  "moved_row op step now =
    op\<lparr>op_status := move_to step,
      op_status_reason := Some (move_reason step),
      op_generation := generation_after (op_status op) (move_to step) (op_generation op),
      op_return_phase := (if move_to step = ReplanStatus.Blocked then Some (op_status op) else None),
      op_snapshot_id := (case move_snapshot_id step of Some s \<Rightarrow> Some s | None \<Rightarrow> op_snapshot_id op),
      op_diagnosis := moved_diagnosis (op_diagnosis op) (move_diagnosis step),
      op_updated_at := now,
      op_closed_at := (if ReplanStatus_is_closed (move_to step) then Some now else None)\<rparr>"

definition update_operation :: "ReplanOperation list \<Rightarrow> ReplanOperation \<Rightarrow> ReplanOperation list" where
  "update_operation ops op = map (\<lambda>o'. if op_id o' = op_id op then op else o') ops"

definition move_effects :: "ReplanFacts \<Rightarrow> ReplanOperation \<Rightarrow> ReplanMove \<Rightarrow> MoveEffects" where
  "move_effects facts op step =
    \<lparr>eff_released = (if ReplanStatus_is_closed (move_to step) \<and> move_to step \<noteq> ReplanStatus.Applied
       then op_proposal_id op else None),
     eff_declined = (case op_request_id op of
       Some request \<Rightarrow>
         if ReplanStatus_ends_request_undecided (move_to step) (facts_planner_open facts request)
           \<and> facts_request_open facts request then Some request else None
     | None \<Rightarrow> None),
     eff_renewed = (case op_request_id op of
       Some request \<Rightarrow>
         if ReplanStatus_renews_request (op_status op) (move_to step) True
           \<and> facts_declined_at_close facts request (op_id op)
         then Some (request, facts_new_request facts) else None
     | None \<Rightarrow> None),
     eff_recorded = (case (op_request_id op, move_diagnosis step) of
       (None, Some made) \<Rightarrow> if move_to step = ReplanStatus.PauseRequested
         then Some \<lparr>nr_run = op_run_id op,
           nr_reason = op_reason op @ ''; diagnosed: ''
             @ (case diag_summary made of Some summary \<Rightarrow> summary | None \<Rightarrow> move_reason step),
           nr_evidence = diag_evidence (moved_diagnosis (op_diagnosis op) (Some made))\<rparr>
         else None
     | _ \<Rightarrow> None)\<rparr>"

definition moved_request :: "ReplanFacts \<Rightarrow> ReplanOperation \<Rightarrow> MoveEffects \<Rightarrow> RequestId option" where
  "moved_request facts op eff =
    (case eff_renewed eff of Some (_, renewed) \<Rightarrow> Some renewed
     | None \<Rightarrow> if eff_recorded eff = None then op_request_id op else Some (facts_new_request facts))"

definition move_in_as ::
  "ReplanFacts \<Rightarrow> ReplanOperation list \<Rightarrow> ReplanId \<Rightarrow> int \<Rightarrow> ReplanMove \<Rightarrow> int \<Rightarrow> bool
    \<Rightarrow> (ReplanOperation list \<times> ReplanOperation \<times> MoveEffects) stored" where
  "move_in_as facts ops i generation step now apply_it =
    and_then (read_operation ops i) (\<lambda>op.
    and_then (domain (if apply_it then check_apply_move op generation step
      else check_move op generation step)) (\<lambda>_.
    and_then (domain (case Option.bind (move_diagnosis step) diag_premise of
        Some premise \<Rightarrow> check_premise facts op (move_to step) premise
      | None \<Rightarrow> if move_to step = ReplanStatus.Diagnosing then check_not_held facts op else Inr ())) (\<lambda>_.
    and_then (if needs_task_alone (op_status op) (move_to step)
      then (case find (\<lambda>other. op_task_id other = op_task_id op \<and> op_closed_at other = None
              \<and> op_id other \<noteq> i) ops of
          Some other \<Rightarrow> Inl (Refused (''replan operation '' @ show_int (replan_id_as_i64 i)
            @ '' cannot move to '' @ ReplanStatus_as_str (move_to step) @ '': task ''
            @ show_int (task_id_as_i64 (op_task_id op)) @ '' has operation ''
            @ show_int (replan_id_as_i64 (op_id other)) @ '' open''))
        | None \<Rightarrow> Inr ())
      else Inr ()) (\<lambda>_.
    (let eff = move_effects facts op step;
         row = (moved_row op step now)\<lparr>op_request_id := moved_request facts op eff\<rparr>
     in Inr (update_operation ops row, row, eff))))))"

definition move_in ::
  "ReplanFacts \<Rightarrow> ReplanOperation list \<Rightarrow> ReplanId \<Rightarrow> int \<Rightarrow> ReplanMove \<Rightarrow> int
    \<Rightarrow> (ReplanOperation list \<times> ReplanOperation \<times> MoveEffects) stored" where
  "move_in facts ops i generation step now = move_in_as facts ops i generation step now False"

text \<open>A loop of moves, each under the generation the operation was read with.\<close>

fun move_each ::
  "ReplanFacts \<Rightarrow> ReplanMove \<Rightarrow> int \<Rightarrow> ReplanOperation list \<Rightarrow> ReplanOperation list
    \<Rightarrow> (ReplanOperation list \<times> MoveEffects list) stored" where
  "move_each facts step now [] ops = Inr (ops, [])"
| "move_each facts step now (other # others) ops =
    and_then (move_in facts ops (op_id other) (op_generation other) step now) (\<lambda>(ops, _, eff).
    and_then (move_each facts step now others ops) (\<lambda>(ops, effs). Inr (ops, eff # effs)))"

definition superseding_step :: "string \<Rightarrow> ReplanMove" where
  "superseding_step reason = \<lparr>move_to = ReplanStatus.Continuing, move_reason = reason,
     move_snapshot_id = None, move_diagnosis = None\<rparr>"

definition carried_row :: "ReplanOperation \<Rightarrow> RunId \<Rightarrow> int \<Rightarrow> int \<Rightarrow> ReplanOperation" where
  "carried_row op run generation now =
    op\<lparr>op_run_id := run, op_generation := generation, op_updated_at := now\<rparr>"

text \<open>The effects besides the table: those of the moves, and the operation carried with the earlier
  run (its request's references and \<open>replan_carried\<close> name both).\<close>

definition carry_open_to ::
  "ReplanFacts \<Rightarrow> ReplanOperation list \<Rightarrow> TaskId \<Rightarrow> RunId \<Rightarrow> int
    \<Rightarrow> (ReplanOperation list \<times> MoveEffects list \<times> ReplanOperation option) stored" where
  "carry_open_to facts ops task run now =
    (let open_ops = open_operations ops task; carry = carry open_ops run in
     case carry_kept carry of
       None \<Rightarrow> Inr (ops, [], None)
     | Some kept \<Rightarrow>
        and_then (move_each facts
            (superseding_step (''superseded by replan operation ''
              @ show_int (replan_id_as_i64 kept) @ '' of the task'')) now
            (filter (\<lambda>op. op_id op \<in> set (carry_superseded carry)) open_ops) ops) (\<lambda>(ops, effs).
        case carry_moved carry of
          None \<Rightarrow> Inr (ops, effs, None)
        | Some (i, generation) \<Rightarrow> (case find (\<lambda>op. op_id op = i) open_ops of
            None \<Rightarrow> Inr (ops, effs, None)
          | Some op \<Rightarrow> Inr (update_operation ops (carried_row op run generation now), effs, Some op))))"

text \<open>What \<open>record_replan\<close> reads of the run it names and its task, and the ID of the row it
  inserts.\<close>

record RequestFacts =
  rf_run :: "(TaskId \<times> RunStatus) option"
  rf_latest :: RunId
  rf_task_status :: TaskStatus
  rf_goal :: "GoalId option"
  rf_conditions :: OriginalConditions
  rf_version :: string
  rf_new_id :: ReplanId

definition new_operation ::
  "RequestFacts \<Rightarrow> TaskId \<Rightarrow> NewReplan \<Rightarrow> ReplanOrigin \<Rightarrow> string \<Rightarrow> string \<Rightarrow> int \<Rightarrow> ReplanOperation" where
  "new_operation rf task new origin by_role by_id now =
    \<lparr>op_id = rf_new_id rf, op_task_id = task, op_run_id = nr_run new, op_goal_id = rf_goal rf,
     op_origin = origin, op_status = ReplanStatus.Candidate, op_status_reason = None,
     op_generation = 1, op_return_phase = None, op_reason = nr_reason new,
     op_conditions = rf_conditions rf, op_task_version = rf_version rf,
     op_goal_acceptance_version = map_option gc_acceptance_version (oc_goal (rf_conditions rf)),
     op_diagnosis = \<lparr>diag_evidence = nr_evidence new, diag_causes = [], diag_choice = None,
       diag_confidence = None, diag_next_check = None, diag_window_end = None,
       diag_remaining = None, diag_decided_by = None, diag_summary = None, diag_premise = None\<rparr>,
     op_snapshot_id = None, op_request_id = None, op_proposal_id = None,
     op_requested_by = by_role, op_requested_by_id = by_id, op_created_at = now,
     op_updated_at = now, op_closed_at = None\<rparr>"

text \<open>The steps of a request: a request on the task's latest run keeps one operation first; then it
  joins the task's operation, is refused, or opens one; a person's records its planning request.\<close>

definition carry_to_latest ::
  "ReplanFacts \<Rightarrow> RequestFacts \<Rightarrow> ReplanOperation list \<Rightarrow> TaskId \<Rightarrow> RunId \<Rightarrow> int
    \<Rightarrow> (ReplanOperation list \<times> MoveEffects list) stored" where
  "carry_to_latest facts rf ops task run now =
    (if rf_latest rf = run
     then and_then (carry_open_to facts ops task run now) (\<lambda>(ops, effs, _). Inr (ops, effs))
     else Inr (ops, []))"

definition join_or_open ::
  "RequestFacts \<Rightarrow> ReplanOperation list \<Rightarrow> TaskId \<Rightarrow> RunStatus \<Rightarrow> NewReplan \<Rightarrow> ReplanOrigin \<Rightarrow> string
    \<Rightarrow> string \<Rightarrow> int \<Rightarrow> (ReplanOperation list \<times> ReplanId \<times> bool) stored" where
  "join_or_open rf ops task s new origin by_role by_id now =
    (case request_on (current (open_operations ops task)) (nr_run new) of
       Join i \<Rightarrow> Inr (ops, i, False)
     | Refuse i \<Rightarrow> Inl (Refused (''run '' @ run_id_as_str (nr_run new)
         @ '' cannot be replanned: replan operation '' @ show_int (replan_id_as_i64 i) @ '' of task ''
         @ show_int (task_id_as_i64 task) @ '' is open on run ''
         @ (case find (\<lambda>op. op_id op = i) (open_operations ops task) of
              Some op \<Rightarrow> run_id_as_str (op_run_id op) | None \<Rightarrow> '''')))
     | OpenNew \<Rightarrow>
         and_then (domain (check_replannable (nr_run new) s (rf_task_status rf)
           (rf_latest rf = nr_run new))) (\<lambda>_.
         Inr (ops @ [new_operation rf task new origin by_role by_id now], rf_new_id rf, True)))"

definition with_person_request ::
  "ReplanFacts \<Rightarrow> ReplanOperation list \<Rightarrow> ReplanId \<Rightarrow> ReplanOrigin \<Rightarrow> int
    \<Rightarrow> (ReplanOperation list \<times> ReplanOperation) stored" where
  "with_person_request facts ops i origin now =
    and_then (read_operation ops i) (\<lambda>op.
    if origin = ReplanOrigin.Manual \<and> op_request_id op = None
    then (let row = op\<lparr>op_request_id := Some (facts_new_request facts), op_updated_at := now\<rparr>
      in Inr (update_operation ops row, row))
    else Inr (ops, op))"

text \<open>The table after a request, the operation and whether it is new, with the effects of the carry.\<close>

definition record_replan ::
  "ReplanFacts \<Rightarrow> RequestFacts \<Rightarrow> ReplanOperation list \<Rightarrow> NewReplan \<Rightarrow> ReplanOrigin \<Rightarrow> string \<Rightarrow> string
    \<Rightarrow> int \<Rightarrow> (ReplanOperation list \<times> ReplanOperation \<times> bool \<times> MoveEffects list) stored" where
  "record_replan facts rf ops new origin by_role by_id now =
    and_then (domain (NewReplan_validate new)) (\<lambda>_.
    and_then (case rf_run rf of Some x \<Rightarrow> Inr x
      | None \<Rightarrow> Inl (Refused (''run '' @ run_id_as_str (nr_run new) @ '' does not exist''))) (\<lambda>(task, s).
    and_then (carry_to_latest facts rf ops task (nr_run new) now) (\<lambda>(ops, effs).
    and_then (join_or_open rf ops task s new origin by_role by_id now) (\<lambda>(ops, i, created).
    and_then (with_person_request facts ops i origin now) (\<lambda>(ops, op).
    Inr (ops, op, created, effs))))))"

text \<open>\<open>False\<close> when an operation that guards the task keeps it.\<close>

definition reopen_blocked ::
  "ReplanFacts \<Rightarrow> ReplanOperation list \<Rightarrow> ReplanId \<Rightarrow> int \<Rightarrow> string \<Rightarrow> int
    \<Rightarrow> (ReplanOperation list \<times> bool) stored" where
  "reopen_blocked facts ops i generation why now =
    and_then (read_operation ops i) (\<lambda>op.
    let open_ops = open_operations ops (op_task_id op) in
    if list_ex (\<lambda>other. ReplanStatus_guards (op_status other)) open_ops then Inr (ops, False)
    else
      and_then (move_each facts
          (superseding_step (''superseded by replan operation '' @ show_int (replan_id_as_i64 i)
            @ '' of the task, held blocked again: '' @ why)) now
          (filter (\<lambda>other. op_id other \<noteq> i) open_ops) ops) (\<lambda>(ops, _).
      and_then (move_in facts ops i generation
          \<lparr>move_to = ReplanStatus.Blocked, move_reason = why, move_snapshot_id = None,
           move_diagnosis = None\<rparr> now) (\<lambda>(ops, _, _).
      Inr (ops, True))))"

definition replan_again ::
  "ReplanFacts \<Rightarrow> ReplanOperation list \<Rightarrow> ReplanOperation \<Rightarrow> string \<Rightarrow> int
    \<Rightarrow> (ReplanOperation list \<times> ReplanOperation) stored" where
  "replan_again facts ops op reason now =
    and_then (move_in facts ops (op_id op) (op_generation op)
        \<lparr>move_to = ReplanStatus.Parked, move_reason = reason, move_snapshot_id = None,
         move_diagnosis = None\<rparr> now) (\<lambda>(ops, moved, _).
    case op_request_id moved of
      Some request \<Rightarrow>
        if op_request_id moved = op_request_id op \<and> \<not> facts_request_open facts request
        then (let row = moved\<lparr>op_request_id := Some (facts_new_request facts)\<rparr>
          in Inr (update_operation ops row, row))
        else Inr (ops, moved)
    | None \<Rightarrow> Inr (ops, moved))"

definition resolution_text :: "ReplanResolution \<Rightarrow> string" where
  "resolution_text r = (case r of
     ReplanResolution.Continue \<Rightarrow> ''continue the run on its saved work''
   | ReplanResolution.Withdraw \<Rightarrow> ''withdraw the plan and continue the run on its saved work''
   | ReplanResolution.Replan \<Rightarrow> ''plan it again'')"

definition resolve_replan ::
  "ReplanFacts \<Rightarrow> (ProposalId \<Rightarrow> (TaskId \<times> TaskStatus) list) \<Rightarrow> ReplanOperation list \<Rightarrow> ResolveReplan
    \<Rightarrow> string option \<Rightarrow> string \<Rightarrow> int \<Rightarrow> (ReplanOperation list \<times> ReplanOperation) stored" where
  "resolve_replan facts children_of ops resolve snapshot_problem by_role now =
    and_then (domain (ResolveReplan_validate resolve)) (\<lambda>_.
    and_then (read_operation ops (res_operation resolve)) (\<lambda>op.
    and_then (domain (resolve_to op (res_generation resolve) (res_resolution resolve)
        (case op_proposal_id op of Some p \<Rightarrow> children_of p | None \<Rightarrow> []) snapshot_problem)) (\<lambda>to.
    let raised = op\<lparr>op_generation := op_generation op + 1, op_updated_at := now\<rparr>;
        ops = update_operation ops raised;
        reason = by_role @ '' chose to '' @ resolution_text (res_resolution resolve) @ '': ''
          @ res_reason resolve
    in if to = ReplanStatus.Parked then replan_again facts ops raised reason now
       else and_then (move_in facts ops (op_id op) (op_generation op + 1)
           \<lparr>move_to = to, move_reason = reason, move_snapshot_id = None, move_diagnosis = None\<rparr> now)
         (\<lambda>(ops, moved, _). Inr (ops, moved)))))"

text \<open>Every write of the table. The ID of an inserted row is new.\<close>

inductive replan_step :: "ReplanOperation list \<Rightarrow> ReplanOperation list \<Rightarrow> bool" where
  requested: "record_replan facts rf ops new origin by_role by_id now = Inr (ops', op, created, effs) \<Longrightarrow>
    rf_new_id rf \<notin> op_id ` set ops \<Longrightarrow> replan_step ops ops'"
| moved: "move_in_as facts ops i generation step now apply_it = Inr (ops', row, eff) \<Longrightarrow> replan_step ops ops'"
| carried: "carry_open_to facts ops task run now = Inr (ops', effs, op) \<Longrightarrow> replan_step ops ops'"
| reopened: "reopen_blocked facts ops i generation why now = Inr (ops', is_done) \<Longrightarrow> replan_step ops ops'"
| resolved: "resolve_replan facts children_of ops resolve problem by_role now = Inr (ops', row) \<Longrightarrow> replan_step ops ops'"
| applied_again: "op \<in> set ops \<Longrightarrow> replan_again facts ops op reason now = Inr (ops', row) \<Longrightarrow> replan_step ops ops'"

section \<open>Lemmas: the table\<close>

lemma domain_Inr [simp]: "domain r = Inr x \<longleftrightarrow> r = Inr x"
  by (cases r) (simp_all add: domain_def)

lemma domain_of [simp]: "domain (Inr x) = Inr x" "domain (Inl e) = Inl (Domain e)"
  by (simp_all add: domain_def)

lemma domain_Inl: "domain r = Inl e \<longleftrightarrow> (\<exists>d. r = Inl d \<and> e = Domain d)"
  by (cases r) (auto simp: domain_def)

lemma replan_guarding_guards: "s \<in> set replan_guarding \<longleftrightarrow> ReplanStatus_guards s"
  by (cases s) (simp_all add: replan_guarding_def ReplanStatus_guards_def ReplanStatus_is_closed_def)

lemma guards_not_closed: "ReplanStatus_guards s \<Longrightarrow> \<not> ReplanStatus_is_closed s"
  by (simp add: ReplanStatus_guards_def)

text \<open>A row as every write leaves it.\<close>

definition op_row_ok :: "ReplanOperation \<Rightarrow> bool" where
  "op_row_ok op \<longleftrightarrow>
    (op_closed_at op = None \<longleftrightarrow> \<not> ReplanStatus_is_closed (op_status op))
    \<and> (ReplanStatus_needs_snapshot (op_status op) \<longrightarrow> op_snapshot_id op \<noteq> None)
    \<and> (op_return_phase op \<noteq> None \<longleftrightarrow> op_status op = ReplanStatus.Blocked)
    \<and> 1 \<le> op_generation op"

definition board_ok :: "ReplanOperation list \<Rightarrow> bool" where
  "board_ok ops \<longleftrightarrow> distinct (map op_id ops) \<and> (\<forall>op \<in> set ops. op_row_ok op)
    \<and> (\<forall>a \<in> set ops. \<forall>b \<in> set ops. op_closed_at a = None \<longrightarrow> op_closed_at b = None
        \<longrightarrow> op_task_id a = op_task_id b \<longrightarrow> op_id a = op_id b)"

lemma board_ok_Nil [simp]: "board_ok []"
  by (simp add: board_ok_def)

lemma read_operation_Inr: "read_operation ops i = Inr op \<Longrightarrow> op \<in> set ops \<and> op_id op = i"
  by (auto simp: read_operation_def split: option.splits dest: find_Some_in)

lemma map_op_id_update [simp]: "map op_id (update_operation ops row) = map op_id ops"
  by (induction ops) (auto simp: update_operation_def)

lemma set_update_operation:
  "set (update_operation ops row) = {o' \<in> set ops. op_id o' \<noteq> op_id row}
    \<union> (if op_id row \<in> op_id ` set ops then {row} else {})"
  by (auto simp: update_operation_def intro: rev_image_eqI)

lemma board_ok_update:
  assumes "board_ok ops" "op \<in> set ops" "op_id row = op_id op" "op_task_id row = op_task_id op" "op_row_ok row"
    and "op_closed_at row = None \<Longrightarrow> op_closed_at op = None
      \<or> (\<forall>o' \<in> set ops. op_task_id o' = op_task_id op \<longrightarrow> op_closed_at o' = None \<longrightarrow> op_id o' = op_id op)"
  shows "board_ok (update_operation ops row)" "row \<in> set (update_operation ops row)"
proof -
  have alone: "op_id o' = op_id row" if "op_closed_at row = None" "o' \<in> set ops" "op_closed_at o' = None"
    "op_task_id o' = op_task_id row" for o'
    using assms that unfolding board_ok_def by metis
  show "row \<in> set (update_operation ops row)" using assms(2,3) by (auto simp: set_update_operation)
  have "op_row_ok o'" if "o' \<in> set (update_operation ops row)" for o'
    using that assms(1,5) by (auto simp: set_update_operation board_ok_def split: if_splits)
  moreover have "op_id a = op_id b" if "a \<in> set (update_operation ops row)" "b \<in> set (update_operation ops row)"
    "op_closed_at a = None" "op_closed_at b = None" "op_task_id a = op_task_id b" for a b
  proof -
    note ab = that
    consider "a = row" | "a \<in> set ops" "b = row" | "a \<in> set ops" "b \<in> set ops"
      using ab(1,2) by (auto simp: set_update_operation split: if_splits)
    then show ?thesis
    proof cases
      case 1
      with that alone [of b] show ?thesis by (auto simp: set_update_operation split: if_splits)
    next
      case 2
      with that alone [of a] show ?thesis by auto
    next
      case 3
      with that assms(1) show ?thesis unfolding board_ok_def by blast
    qed
  qed
  ultimately show "board_ok (update_operation ops row)"
    using assms(1) unfolding board_ok_def map_op_id_update by blast
qed

text \<open>Rows are never lost, generations never fall, and what was applied stays so.\<close>

definition later :: "ReplanOperation list \<Rightarrow> ReplanOperation list \<Rightarrow> bool" where
  "later ops ops' \<longleftrightarrow>
    (\<forall>op \<in> set ops. \<exists>op' \<in> set ops'. op_id op' = op_id op \<and> op_generation op \<le> op_generation op'
      \<and> (op_status op = ReplanStatus.Applied \<longrightarrow> op_status op' = ReplanStatus.Applied))"

lemma later_refl [simp]: "later ops ops"
  by (auto simp: later_def)

lemma later_trans: "later a b \<Longrightarrow> later b c \<Longrightarrow> later a c"
  unfolding later_def by (metis order_trans)

lemma board_ids: "board_ok ops \<Longrightarrow> a \<in> set ops \<Longrightarrow> b \<in> set ops \<Longrightarrow> op_id a = op_id b \<Longrightarrow> a = b"
  by (auto simp: board_ok_def distinct_map dest: inj_onD)

lemma later_update:
  assumes "board_ok ops" "op \<in> set ops" "op_id row = op_id op" "op_generation op \<le> op_generation row"
    and "op_status op = ReplanStatus.Applied \<Longrightarrow> op_status row = ReplanStatus.Applied"
  shows "later ops (update_operation ops row)"
  unfolding later_def
proof
  fix a assume a: "a \<in> set ops"
  show "\<exists>op' \<in> set (update_operation ops row). op_id op' = op_id a \<and> op_generation a \<le> op_generation op'
    \<and> (op_status a = ReplanStatus.Applied \<longrightarrow> op_status op' = ReplanStatus.Applied)"
  proof (cases "op_id a = op_id row")
    case True
    then have "a = op" using board_ids [OF assms(1) a assms(2)] assms(3) by simp
    with assms show ?thesis by (intro bexI [of _ row]) (auto simp: set_update_operation)
  next
    case False
    with a show ?thesis by (intro bexI [of _ a]) (auto simp: set_update_operation)
  qed
qed

lemma applied_is_final: "\<not> ReplanStatus_can_move_to ReplanStatus.Applied to"
  by (simp add: ReplanStatus_can_move_to_def)

lemma generation_after_mono: "generation \<le> generation_after from to generation"
  by (simp add: generation_after_def)

text \<open>A move that is allowed leaves a row that is.\<close>

lemma check_move_as_Inr:
  "check_move_as op generation step apply_it = Inr u \<longleftrightarrow>
    op_generation op = generation \<and> ReplanStatus_can_move_to (op_status op) (move_to step)
    \<and> (apply_it \<or> \<not> move_to step \<in> {ReplanStatus.Applying, ReplanStatus.Applied})
    \<and> (\<not> ReplanStatus_needs_snapshot (move_to step) \<or> move_snapshot_id step \<noteq> None \<or> op_snapshot_id op \<noteq> None)
    \<and> \<not> blank (move_reason step)"
  unfolding check_move_as_def by (simp only: and_then_eq_Inr require_eq_Inr) auto

lemma moved_row_ok:
  "op_row_ok op \<Longrightarrow> check_move_as op generation step apply_it = Inr u \<Longrightarrow> op_row_ok (moved_row op step now)"
  by (auto simp: check_move_as_Inr op_row_ok_def moved_row_def generation_after_def split: option.splits)

lemma op_row_ok_request [simp]: "op_row_ok (op\<lparr>op_request_id := r\<rparr>) = op_row_ok op"
  by (simp add: op_row_ok_def)

lemma move_in_as_cases:
  assumes "move_in_as facts ops i generation step now apply_it = Inr (ops', row, eff)"
  obtains op where "op \<in> set ops" "op_id op = i"
    and "check_move_as op generation step apply_it = Inr ()"
    and "row = (moved_row op step now)\<lparr>op_request_id := moved_request facts op (move_effects facts op step)\<rparr>"
    and "ops' = update_operation ops row" "eff = move_effects facts op step"
    and "needs_task_alone (op_status op) (move_to step) \<longrightarrow>
      (\<forall>o' \<in> set ops. op_task_id o' = op_task_id op \<longrightarrow> op_closed_at o' = None \<longrightarrow> op_id o' = i)"
proof -
  from assms obtain op where op: "read_operation ops i = Inr op"
    "(if apply_it then check_apply_move op generation step else check_move op generation step) = Inr ()"
    "(if needs_task_alone (op_status op) (move_to step)
      then find (\<lambda>other. op_task_id other = op_task_id op \<and> op_closed_at other = None \<and> op_id other \<noteq> i) ops = None
      else True)"
    "row = (moved_row op step now)\<lparr>op_request_id := moved_request facts op (move_effects facts op step)\<rparr>"
    "ops' = update_operation ops row" "eff = move_effects facts op step"
    unfolding move_in_as_def Let_def
    by (auto simp: and_then_eq_Inr split: if_splits option.splits)
  have "check_move_as op generation step apply_it = Inr ()"
    using op(2) by (simp add: check_apply_move_def check_move_def split: if_splits)
  moreover have "\<forall>o' \<in> set ops. op_task_id o' = op_task_id op \<longrightarrow> op_closed_at o' = None \<longrightarrow> op_id o' = i"
    if "needs_task_alone (op_status op) (move_to step)"
    using op(3) that by (auto simp: find_None_iff)
  ultimately show thesis using that [OF _ _ _ op(4-6)] read_operation_Inr [OF op(1)] by blast
qed

lemma move_in_as_ok:
  assumes "board_ok ops" "move_in_as facts ops i generation step now apply_it = Inr (ops', row, eff)"
  shows "board_ok ops'" "map op_id ops' = map op_id ops" "row \<in> set ops'"
    "op_id row = i" "op_status row = move_to step"
    "{o' \<in> set ops. op_id o' \<noteq> i} \<subseteq> set ops'" "later ops ops'"
proof -
  from assms(2) obtain op where op: "op \<in> set ops" "op_id op = i"
    "check_move_as op generation step apply_it = Inr ()"
    "row = (moved_row op step now)\<lparr>op_request_id := moved_request facts op (move_effects facts op step)\<rparr>"
    "ops' = update_operation ops row" "eff = move_effects facts op step"
    "needs_task_alone (op_status op) (move_to step) \<longrightarrow>
      (\<forall>o' \<in> set ops. op_task_id o' = op_task_id op \<longrightarrow> op_closed_at o' = None \<longrightarrow> op_id o' = i)"
    by (rule move_in_as_cases)
  have row: "op_id row = op_id op" "op_task_id row = op_task_id op" "op_status row = move_to step"
    "op_closed_at row = (if ReplanStatus_is_closed (move_to step) then Some now else None)"
    by (simp_all add: op(4) moved_row_def)
  have "op_generation op \<le> op_generation row"
    using generation_after_mono by (simp add: op(4) moved_row_def)
  moreover have "op_status op \<noteq> ReplanStatus.Applied"
    using op(3) applied_is_final by (auto simp: check_move_as_Inr)
  ultimately show "later ops ops'" using later_update [OF assms(1) op(1) row(1)] by (simp add: op(5))
  have ok: "op_row_ok op" using assms(1) op(1) by (simp add: board_ok_def)
  have row_ok: "op_row_ok row" using moved_row_ok [OF ok op(3)] by (simp add: op(4))
  have alone: "op_closed_at op = None
      \<or> (\<forall>o' \<in> set ops. op_task_id o' = op_task_id op \<longrightarrow> op_closed_at o' = None \<longrightarrow> op_id o' = op_id op)"
    if "op_closed_at row = None"
  proof (cases "ReplanStatus_guards (op_status op)")
    case True
    with ok show ?thesis by (auto simp: op_row_ok_def dest: guards_not_closed)
  next
    case False
    with that row(4) have "needs_task_alone (op_status op) (move_to step)"
      by (simp add: needs_task_alone_def split: if_splits)
    from this op(7) op(2) show ?thesis by simp
  qed
  from board_ok_update [OF assms(1) op(1) row(1,2) row_ok alone]
  show "board_ok ops'" "row \<in> set ops'" by (simp_all add: op(5))
  show "map op_id ops' = map op_id ops" by (simp add: op(5))
  show "op_id row = i" "op_status row = move_to step" using row op(2) by simp_all
  show "{o' \<in> set ops. op_id o' \<noteq> i} \<subseteq> set ops'" using row(1) op(2) by (auto simp: op(5) set_update_operation)
qed

lemma move_each_ok:
  "board_ok ops \<Longrightarrow> move_each facts step now others ops = Inr (ops', effs) \<Longrightarrow>
    board_ok ops' \<and> map op_id ops' = map op_id ops \<and> {o' \<in> set ops. op_id o' \<notin> op_id ` set others} \<subseteq> set ops' \<and> later ops ops'"
proof (induction others arbitrary: ops effs)
  case (Cons other others)
  from Cons.prems(2) obtain ops1 row eff effs1 where
    m: "move_in_as facts ops (op_id other) (op_generation other) step now False = Inr (ops1, row, eff)"
    and e: "move_each facts step now others ops1 = Inr (ops', effs1)"
    by (auto simp: and_then_eq_Inr move_in_def)
  note ok = move_in_as_ok [OF Cons.prems(1) m]
  from Cons.IH [OF ok(1) e] ok(2,6) later_trans [OF ok(7)] show ?case by auto
qed simp

lemma carry_open_to_ok:
  assumes "board_ok ops" "carry_open_to facts ops task run now = Inr (ops', effs, carried)"
  shows "board_ok ops'" "map op_id ops' = map op_id ops" "later ops ops'"
proof -
  let ?carry = "carry (open_operations ops task) run"
    and ?others = "filter (\<lambda>op. op_id op \<in> set (carry_superseded (carry (open_operations ops task) run)))
      (open_operations ops task)"
  have "board_ok ops' \<and> map op_id ops' = map op_id ops \<and> later ops ops'"
  proof (cases "carry_kept ?carry")
    case None
    with assms show ?thesis by (simp add: carry_open_to_def Let_def)
  next
    case (Some kept)
    with assms(2) obtain step ops1 effs1 where
      e: "move_each facts step now ?others ops = Inr (ops1, effs1)"
      and r: "(case carry_moved ?carry of None \<Rightarrow> Inr (ops1, effs1, None)
          | Some (i, generation) \<Rightarrow> (case find (\<lambda>op. op_id op = i) (open_operations ops task) of
              None \<Rightarrow> Inr (ops1, effs1, None)
            | Some op \<Rightarrow> Inr (update_operation ops1 (carried_row op run generation now), effs1, Some op)))
        = (Inr (ops', effs, carried) :: (ReplanOperation list \<times> MoveEffects list \<times> ReplanOperation option) stored)"
      by (auto simp: carry_open_to_def Let_def and_then_eq_Inr)
    note ok = move_each_ok [OF assms(1) e]
    show ?thesis
    proof (cases "ops' = ops1")
      case True
      with ok show ?thesis by simp
    next
      case False
      obtain i generation where mv: "carry_moved ?carry = Some (i, generation)"
        using False r by (cases "carry_moved ?carry") auto
      obtain op where f: "find (\<lambda>op. op_id op = i) (open_operations ops task) = Some op"
        using False r mv by (cases "find (\<lambda>op. op_id op = i) (open_operations ops task)") auto
      have upd: "ops' = update_operation ops1 (carried_row op run generation now)" using r mv f by simp
      note op = mv f upd
      from find_Some_in [OF op(2)] have in_open: "op \<in> set (open_operations ops task)" "op_id op = i" by auto
      obtain k where k: "current (open_operations ops task) = Some k" "i = op_id k" "generation = op_generation k + 1"
        using op(1) by (auto simp: carry_def split: option.splits if_splits)
      then have "i \<notin> set (carry_superseded ?carry)" by (auto simp: carry_def)
      then have "op \<in> set ops1" using ok in_open by (auto simp: open_operations_def)
      have "k \<in> set (open_operations ops task)"
        using k(1) by (auto simp: current_def split: option.splits if_splits dest: find_Some_in)
      then have "k = op" using in_open k(2) assms(1)
        by (auto simp: open_operations_def board_ok_def distinct_map dest: inj_onD)
      have "op_row_ok op" using assms(1) in_open by (simp add: open_operations_def board_ok_def)
      then have "op_row_ok (carried_row op run generation now)"
        using k(3) \<open>k = op\<close> by (simp add: op_row_ok_def carried_row_def)
      moreover have "later ops1 ops'"
        using later_update [of ops1 op "carried_row op run generation now"] ok \<open>op \<in> set ops1\<close> op(3) k(3) \<open>k = op\<close>
        by (simp add: carried_row_def)
      ultimately show ?thesis
        using board_ok_update [of ops1 op "carried_row op run generation now"] ok \<open>op \<in> set ops1\<close> op(3)
          later_trans [of ops ops1 ops']
        by (simp add: carried_row_def)
    qed
  qed
  then show "board_ok ops'" "map op_id ops' = map op_id ops" "later ops ops'" by simp_all
qed

lemma board_row: "board_ok ops \<Longrightarrow> op \<in> set ops \<Longrightarrow> op_row_ok op"
  by (simp add: board_ok_def)

lemma op_row_ok_updates [simp]:
  "op_row_ok (op\<lparr>op_request_id := r, op_updated_at := now\<rparr>) = op_row_ok op"
  "op_row_ok op \<Longrightarrow> op_row_ok (op\<lparr>op_generation := op_generation op + 1, op_updated_at := now\<rparr>)"
  by (simp_all add: op_row_ok_def)

lemma board_ok_request:
  assumes "board_ok ops" "op \<in> set ops"
  shows "board_ok (update_operation ops (op\<lparr>op_request_id := r, op_updated_at := now\<rparr>))"
    and "board_ok (update_operation ops (op\<lparr>op_request_id := r\<rparr>))"
    and "later ops (update_operation ops (op\<lparr>op_request_id := r, op_updated_at := now\<rparr>))"
    and "later ops (update_operation ops (op\<lparr>op_request_id := r\<rparr>))"
  using later_update [OF assms, of "op\<lparr>op_request_id := r, op_updated_at := now\<rparr>"]
    later_update [OF assms, of "op\<lparr>op_request_id := r\<rparr>"]
     board_ok_update(1) [OF assms, of "op\<lparr>op_request_id := r, op_updated_at := now\<rparr>"]
    board_ok_update(1) [OF assms, of "op\<lparr>op_request_id := r\<rparr>"] board_row [OF assms]
  by simp_all

lemma board_ok_new:
  assumes "board_ok ops" "open_operations ops task = []" "rf_new_id rf \<notin> op_id ` set ops"
  shows "board_ok (ops @ [new_operation rf task new origin by_role by_id now])"
proof -
  let ?n = "new_operation rf task new origin by_role by_id now"
  have "op_row_ok ?n"
    by (simp add: op_row_ok_def new_operation_def ReplanStatus_is_closed_def ReplanStatus_needs_snapshot_def)
  then have rows: "\<forall>op \<in> set (ops @ [?n]). op_row_ok op" using assms(1) by (simp add: board_ok_def)
  have n: "op_id ?n = rf_new_id rf" "op_task_id ?n = task" by (simp_all add: new_operation_def)
  have closed: "op_closed_at o' \<noteq> None" if "o' \<in> set ops" "op_task_id o' = task" for o'
    using assms(2) that by (auto simp: open_operations_def filter_empty_conv)
  have "op_id a = op_id b" if "a \<in> set (ops @ [?n])" "b \<in> set (ops @ [?n])"
    "op_closed_at a = None" "op_closed_at b = None" "op_task_id a = op_task_id b" for a b
  proof (cases "a \<in> set ops \<and> b \<in> set ops")
    case True
    with that assms(1) show ?thesis unfolding board_ok_def by blast
  next
    case False
    with that closed n(2) have "a = ?n" "b = ?n" by (metis Un_iff empty_iff list.set(1,2) set_append singletonD insertE)+
    then show ?thesis by simp
  qed
  moreover have "distinct (map op_id (ops @ [?n]))" using assms(1,3) by (simp add: board_ok_def n)
  ultimately show ?thesis using rows unfolding board_ok_def by blast
qed

lemma current_None [simp]: "current open_ops = None \<longleftrightarrow> open_ops = []"
  by (auto simp: current_def split: option.splits)

lemma carry_to_latest_ok:
  assumes "board_ok ops" "carry_to_latest facts rf ops task run now = Inr (ops', effs)"
  shows "board_ok ops' \<and> map op_id ops' = map op_id ops \<and> later ops ops'"
proof (cases "rf_latest rf = run")
  case True
  with assms(2) obtain carried where "carry_open_to facts ops task run now = Inr (ops', effs, carried)"
    by (auto simp: carry_to_latest_def and_then_eq_Inr)
  from carry_open_to_ok [OF assms(1) this] show ?thesis by simp
qed (use assms in \<open>simp add: carry_to_latest_def\<close>)

lemma join_or_open_ok:
  assumes "board_ok ops" "rf_new_id rf \<notin> op_id ` set ops"
    and "join_or_open rf ops task s new origin by_role by_id now = Inr (ops', i, created)"
  shows "board_ok ops' \<and> later ops ops'"
proof (cases "request_on (current (open_operations ops task)) (nr_run new)")
  case OpenNew
  then have "open_operations ops task = []" by (auto simp: request_on_def split: option.splits if_splits)
  moreover have "ops' = ops @ [new_operation rf task new origin by_role by_id now]"
    using assms(3) OpenNew by (auto simp: join_or_open_def and_then_eq_Inr)
  moreover have "later ops (ops @ [new_operation rf task new origin by_role by_id now])"
    by (auto simp: later_def)
  ultimately show ?thesis using board_ok_new [OF assms(1) _ assms(2)] by blast
qed (use assms in \<open>simp_all add: join_or_open_def\<close>)

lemma with_person_request_ok:
  assumes "board_ok ops" "with_person_request facts ops i origin now = Inr (ops', op)"
  shows "board_ok ops' \<and> later ops ops'"
proof -
  from assms(2) obtain row where "read_operation ops i = Inr row"
    "ops' = ops \<or> ops' = update_operation ops (row\<lparr>op_request_id := Some (facts_new_request facts), op_updated_at := now\<rparr>)"
    by (auto simp: with_person_request_def and_then_eq_Inr Let_def split: if_splits)
  with read_operation_Inr board_ok_request(1,3) [OF assms(1)] assms(1) later_refl show ?thesis by blast
qed

lemma record_replan_ok:
  assumes "board_ok ops" "rf_new_id rf \<notin> op_id ` set ops"
    and "record_replan facts rf ops new origin by_role by_id now = Inr (ops', op, created, effs)"
  shows "board_ok ops' \<and> later ops ops'"
proof -
  from assms(3) obtain task s ops1 effs1 ops2 i created2 where
    c: "carry_to_latest facts rf ops task (nr_run new) now = Inr (ops1, effs1)"
    and j: "join_or_open rf ops1 task s new origin by_role by_id now = Inr (ops2, i, created2)"
    and p: "with_person_request facts ops2 i origin now = Inr (ops', op)"
    unfolding record_replan_def by (auto simp: and_then_eq_Inr)
  note ok1 = carry_to_latest_ok [OF assms(1) c]
  then have "op_id ` set ops1 = op_id ` set ops" by (metis set_map)
  then have ok2: "board_ok ops2" "later ops1 ops2" using join_or_open_ok [OF _ _ j] ok1 assms(2) by simp_all
  from with_person_request_ok [OF this(1) p] ok1 later_trans [OF _ ok2(2)] show ?thesis
    by (meson later_trans)
qed

lemma reopen_blocked_ok:
  assumes "board_ok ops" "reopen_blocked facts ops i generation why now = Inr (ops', is_done)"
  shows "board_ok ops' \<and> later ops ops'"
proof -
  from assms(2) obtain op where op: "read_operation ops i = Inr op"
    by (auto simp: reopen_blocked_def and_then_eq_Inr)
  show ?thesis
  proof (cases "list_ex (\<lambda>other. ReplanStatus_guards (op_status other)) (open_operations ops (op_task_id op))")
    case True
    with assms op show ?thesis by (simp add: reopen_blocked_def)
  next
    case False
    with assms(2) op obtain step others ops1 effs step' row eff where
      e: "move_each facts step now others ops = Inr (ops1, effs)"
      and m: "move_in_as facts ops1 i generation step' now False = Inr (ops', row, eff)"
      by (auto simp: reopen_blocked_def and_then_eq_Inr move_in_def simp del: move_each.simps)
    from move_each_ok [OF assms(1) e] move_in_as_ok(1,7) [OF _ m] show ?thesis
      by (meson later_trans)
  qed
qed

lemma replan_again_ok:
  assumes "board_ok ops" "replan_again facts ops op reason now = Inr (ops', row)"
  shows "board_ok ops' \<and> later ops ops'"
proof -
  from assms(2) obtain ops1 moved eff step where
    m: "move_in_as facts ops (op_id op) (op_generation op) step now False = Inr (ops1, moved, eff)"
    and r: "ops' = ops1 \<or> ops' = update_operation ops1 (moved\<lparr>op_request_id := Some (facts_new_request facts)\<rparr>)"
    unfolding replan_again_def Let_def move_in_def
    by (auto simp: and_then_eq_Inr split: option.splits if_splits)
  note ok = move_in_as_ok [OF assms(1) m]
  from r ok(1,7) board_ok_request(2,4) [OF ok(1,3)] show ?thesis by (meson later_trans)
qed

lemma board_ok_raised:
  assumes "board_ok ops" "op \<in> set ops"
  shows "board_ok (update_operation ops (op\<lparr>op_generation := op_generation op + 1, op_updated_at := now\<rparr>))"
    and "later ops (update_operation ops (op\<lparr>op_generation := op_generation op + 1, op_updated_at := now\<rparr>))"
  using later_update [OF assms, of "op\<lparr>op_generation := op_generation op + 1, op_updated_at := now\<rparr>"]
    board_ok_update(1) [OF assms, of "op\<lparr>op_generation := op_generation op + 1, op_updated_at := now\<rparr>"]
    board_row [OF assms] by simp_all

lemma resolve_replan_ok:
  assumes "board_ok ops" "resolve_replan facts children_of ops resolve problem by_role now = Inr (ops', row)"
  shows "board_ok ops' \<and> later ops ops'"
proof -
  from assms(2) obtain op to reason where op: "read_operation ops (res_operation resolve) = Inr op"
    and r: "(if to = ReplanStatus.Parked
        then replan_again facts (update_operation ops (op\<lparr>op_generation := op_generation op + 1, op_updated_at := now\<rparr>))
          (op\<lparr>op_generation := op_generation op + 1, op_updated_at := now\<rparr>) reason now
        else and_then (move_in facts (update_operation ops (op\<lparr>op_generation := op_generation op + 1, op_updated_at := now\<rparr>))
            (op_id op) (op_generation op + 1)
            \<lparr>move_to = to, move_reason = reason, move_snapshot_id = None, move_diagnosis = None\<rparr> now)
          (\<lambda>(ops, moved, _). Inr (ops, moved))) = Inr (ops', row)"
    unfolding resolve_replan_def Let_def by (auto simp only: and_then_eq_Inr)
  have ok: "board_ok (update_operation ops (op\<lparr>op_generation := op_generation op + 1, op_updated_at := now\<rparr>))"
    and raised: "later ops (update_operation ops (op\<lparr>op_generation := op_generation op + 1, op_updated_at := now\<rparr>))"
    using board_ok_raised [OF assms(1)] read_operation_Inr [OF op] by blast+
  show ?thesis
  proof (cases "to = ReplanStatus.Parked")
    case True
    with r replan_again_ok [OF ok] later_trans [OF raised] show ?thesis by auto
  next
    case False
    with r obtain eff step where "move_in_as facts
        (update_operation ops (op\<lparr>op_generation := op_generation op + 1, op_updated_at := now\<rparr>))
        (op_id op) (op_generation op + 1) step now False = Inr (ops', row, eff)"
      unfolding move_in_def by (auto simp: and_then_eq_Inr)
    from move_in_as_ok(1,7) [OF ok this] later_trans [OF raised] show ?thesis by blast
  qed
qed

lemma replan_step_ok:
  assumes "replan_step ops ops'" "board_ok ops"
  shows "board_ok ops' \<and> later ops ops'"
  using assms(1)
proof cases
  case requested
  from record_replan_ok [OF assms(2) this(2,1)] show ?thesis .
next
  case moved
  from move_in_as_ok(1,7) [OF assms(2) this] show ?thesis by simp
next
  case carried
  from carry_open_to_ok(1,3) [OF assms(2) this] show ?thesis by simp
next
  case reopened
  from reopen_blocked_ok [OF assms(2) this] show ?thesis .
next
  case resolved
  from resolve_replan_ok [OF assms(2) this] show ?thesis .
next
  case applied_again
  from replan_again_ok [OF assms(2) this(2)] show ?thesis .
qed

lemma replan_steps_ok:
  "replan_step\<^sup>*\<^sup>* ops ops' \<Longrightarrow> board_ok ops \<Longrightarrow> board_ok ops' \<and> later ops ops'"
proof (induction rule: rtranclp_induct)
  case (step b c)
  with replan_step_ok [of b c] later_trans [of ops b c] show ?case by blast
qed simp

section \<open>An example\<close>

text \<open>A worker's request on task 7, then the pause's fence.\<close>

definition example_facts :: ReplanFacts where
  "example_facts = \<lparr>facts_hold = (\<lambda>_. None), facts_task_status = (\<lambda>_. TaskStatus.InProgress),
    facts_latest_run = (\<lambda>_. None), facts_progress_after = (\<lambda>_ _. None), facts_person_joined = (\<lambda>_. False),
    facts_auto_parks = (\<lambda>_. 0), facts_task_version = (\<lambda>_. ''v''), facts_planner_open = (\<lambda>_. False),
    facts_request_open = (\<lambda>_. False), facts_declined_at_close = (\<lambda>_ _. False),
    facts_new_request = RequestId 1\<rparr>"

definition example_request :: RequestFacts where
  "example_request = \<lparr>rf_run = Some (TaskId 7, RunStatus.Running), rf_latest = RunId ''r'',
    rf_task_status = TaskStatus.InProgress, rf_goal = None,
    rf_conditions = \<lparr>oc_title = ''t'', oc_description = [], oc_acceptance = [], oc_paths = [],
      oc_verify = [], oc_evidence = [], oc_predecessors = [], oc_successors = [], oc_goal = None\<rparr>,
    rf_version = ''v'', rf_new_id = ReplanId 1\<rparr>"

definition example_new :: NewReplan where
  "example_new = \<lparr>nr_run = RunId ''r'', nr_reason = ''too big'', nr_evidence = []\<rparr>"

definition example_operation :: ReplanOperation where
  "example_operation = new_operation example_request (TaskId 7) example_new ReplanOrigin.Worker ''worker'' ''w'' 0"

definition example_pause :: ReplanMove where
  "example_pause = \<lparr>move_to = ReplanStatus.PauseRequested, move_reason = ''split it'',
    move_snapshot_id = None, move_diagnosis = None\<rparr>"

lemma example_requested:
  "record_replan example_facts example_request [] example_new ReplanOrigin.Worker ''worker'' ''w'' 0
    = Inr ([example_operation], example_operation, True, [])"
  by code_simp

lemma example_reachable: "replan_step\<^sup>*\<^sup>* [] [example_operation]"
  by (rule r_into_rtranclp, rule requested [OF example_requested]) simp

lemma example_paused:
  "move_in_as example_facts [example_operation] (ReplanId 1) 1 example_pause 5 False
    = Inr ([moved_row example_operation example_pause 5], moved_row example_operation example_pause 5,
        \<lparr>eff_released = None, eff_declined = None, eff_renewed = None, eff_recorded = None\<rparr>)"
  by code_simp

section \<open>Lemmas: lists of one, texts that are not blank\<close>

lemma distinct_all_same:
  assumes "distinct xs" "\<And>a b. a \<in> set xs \<Longrightarrow> b \<in> set xs \<Longrightarrow> a = b"
  shows "xs = [] \<or> (\<exists>x. xs = [x])"
proof (cases xs)
  case (Cons x ys)
  have "ys = []"
  proof (rule ccontr)
    assume "ys \<noteq> []"
    then obtain y where "y \<in> set ys" by (cases ys) auto
    with assms Cons show False by (metis distinct.simps(2) list.set_intros(1,2))
  qed
  with Cons show ?thesis by simp
qed simp

lemma set_trim_start:
  assumes "\<And>w. w \<in> set whitespace_utf8 \<Longrightarrow> c \<notin> set w"
  shows "c \<in> set s \<Longrightarrow> c \<in> set (trim_start s)"
proof (induction s rule: trim_start.induct)
  case (1 s)
  show ?case
  proof (cases "ws_prefix s = 0")
    case False
    then obtain w where w: "w \<in> set whitespace_utf8" "take (length w) s = w" "ws_prefix s = length w"
      by (auto simp: ws_prefix_def split: option.splits dest: find_Some_in)
    have "c \<notin> set (take (ws_prefix s) s)" using assms w by simp
    then have "c \<in> set (drop (ws_prefix s) s)"
      using "1.prems" by (metis Un_iff append_take_drop_id set_append)
    with "1.IH" [OF False] False show ?thesis by (subst trim_start.simps) simp
  qed (use "1.prems" in \<open>simp add: trim_start.simps\<close>)
qed

lemma set_trim_end:
  assumes "\<And>w. w \<in> set whitespace_utf8 \<Longrightarrow> c \<notin> set w"
  shows "c \<in> set s \<Longrightarrow> c \<in> set (trim_end s)"
proof (induction s rule: trim_end.induct)
  case (1 s)
  show ?case
  proof (cases "ws_suffix s = 0")
    case False
    then obtain w where w: "w \<in> set whitespace_utf8" "drop (length s - length w) s = w" "ws_suffix s = length w"
      by (auto simp: ws_suffix_def split: option.splits dest: find_Some_in)
    have "c \<notin> set (drop (length s - ws_suffix s) s)" using assms w by simp
    then have "c \<in> set (take (length s - ws_suffix s) s)"
      using "1.prems" by (metis Un_iff append_take_drop_id set_append)
    with "1.IH" [OF False] False show ?thesis by (subst trim_end.simps) simp
  qed (use "1.prems" in \<open>simp add: trim_end.simps\<close>)
qed

lemma not_blank: "CHR ''c'' \<in> set s \<Longrightarrow> \<not> blank s"
proof -
  have no: "CHR ''c'' \<notin> set w" if "w \<in> set whitespace_utf8" for w
    using that by (auto simp: whitespace_utf8_def)
  assume "CHR ''c'' \<in> set s"
  with set_trim_end [OF no] set_trim_start [OF no] show ?thesis by (fastforce simp: blank_def trim_def)
qed

section \<open>Properties\<close>

text \<open>C31. However requests, moves, claims of new runs, failed restores and a person's resolutions
  interleave, a task has at most one open replanning operation, and what guards its steps is that
  operation once its pause's fence is up.\<close>

theorem one_open_operation_per_task:
  assumes "replan_step\<^sup>*\<^sup>* [] ops"
  shows "length (open_operations ops task) \<le> 1
    \<and> guard_of ops task = Option.bind (open_operation_of ops task) op_guard"
proof -
  have ok: "board_ok ops" using replan_steps_ok [OF assms] by simp
  let ?open = "open_operations ops task"
  have same: "a = b" if "a \<in> set ?open" "b \<in> set ?open" for a b
  proof -
    have "op_id a = op_id b" using that ok unfolding board_ok_def open_operations_def by auto
    with that board_ids [OF ok, of a b] show ?thesis by (auto simp: open_operations_def)
  qed
  have "distinct ?open"
    using ok by (auto simp: open_operations_def board_ok_def distinct_map)
  then have one: "?open = [] \<or> (\<exists>op. ?open = [op])"
    using same by (rule distinct_all_same)
  have guarding: "op \<in> set ?open" if "op \<in> set ops" "op_task_id op = task" "ReplanStatus_guards (op_status op)" for op
    using that board_row [OF ok that(1)] by (auto simp: open_operations_def op_row_ok_def dest: guards_not_closed)
  have "guard_of ops task = Option.bind (open_operation_of ops task) op_guard"
  proof (cases "find (\<lambda>op. op_task_id op = task \<and> op_status op \<in> set replan_guarding) ops")
    case None
    then have "\<not> ReplanStatus_guards (op_status op)" if "op \<in> set ?open" for op
      using that by (auto simp: find_None_iff replan_guarding_guards open_operations_def)
    with one None show ?thesis
      by (auto simp: guard_of_def open_operation_of_def current_def op_guard_def)
  next
    case (Some op)
    then have op: "op \<in> set ops" "op_task_id op = task" "ReplanStatus_guards (op_status op)"
      by (auto dest: find_Some_in simp: replan_guarding_guards)
    with guarding one have "?open = [op]" by fastforce
    with Some op show ?thesis
      by (simp add: guard_of_def open_operation_of_def current_def op_guard_def)
  qed
  with one show ?thesis by auto
qed

lemma one_open_operation_per_task_witness:
  "length (open_operations [example_operation] (TaskId 7)) \<le> 1
    \<and> guard_of [example_operation] (TaskId 7) = None"
proof -
  have "open_operation_of [example_operation] (TaskId 7) = Some example_operation"
    "op_guard example_operation = None"
    by code_simp+
  with one_open_operation_per_task [OF example_reachable, of "TaskId 7"] show ?thesis by simp
qed

text \<open>C32. The fence: once a move has begun a diagnosis or requested the pause, every later move
  decided under the generation read before it is refused, whatever happened to the table since.\<close>

theorem stale_writer_refused:
  assumes "replan_step\<^sup>*\<^sup>* [] ops" "move_in_as facts ops i generation step now apply_it = Inr (ops1, row, eff)"
    and "move_to step \<in> {ReplanStatus.PauseRequested, ReplanStatus.Diagnosing}"
    and "replan_step\<^sup>*\<^sup>* ops1 ops2"
  shows "\<exists>actual. move_in_as facts' ops2 i generation step' now' apply_it'
    = Inl (Domain (ReplanGenerationStale i generation actual))"
proof -
  have ok: "board_ok ops" using replan_steps_ok [OF assms(1)] by simp
  obtain op where op: "check_move_as op generation step apply_it = Inr ()"
    "row = (moved_row op step now)\<lparr>op_request_id := moved_request facts op (move_effects facts op step)\<rparr>"
    by (rule move_in_as_cases [OF assms(2)])
  then have "\<not> ReplanStatus_guards (op_status op) \<or> move_to step = ReplanStatus.Diagnosing" "op_generation op = generation"
    using assms(3) by (cases "op_status op"; auto simp: check_move_as_Inr ReplanStatus_can_move_to_def
        ReplanStatus_guards_def ReplanStatus_is_closed_def)+
  then have gen: "generation < op_generation row"
    using assms(3) by (auto simp: op(2) moved_row_def generation_after_def)
  note ok1 = move_in_as_ok [OF ok assms(2)]
  have ok2: "board_ok ops2" "later ops1 ops2" using replan_steps_ok [OF assms(4) ok1(1)] by simp_all
  then obtain op2 where op2: "op2 \<in> set ops2" "op_id op2 = i" "op_generation row \<le> op_generation op2"
    using ok1(3,4) unfolding later_def by auto
  have "read_operation ops2 i = Inr op2"
  proof (cases "find (\<lambda>op. op_id op = i) ops2")
    case None
    with op2 show ?thesis by (auto simp: find_None_iff)
  next
    case (Some x)
    with board_ids [OF ok2(1), of x op2] op2 show ?thesis
      by (auto simp: read_operation_def dest: find_Some_in)
  qed
  moreover have "op_generation op2 \<noteq> generation" using gen op2(3) by simp
  ultimately show ?thesis
    using op2(2) by (simp add: move_in_as_def check_apply_move_def check_move_def check_move_as_def
        and_then_require domain_def)
qed

lemma stale_writer_refused_witness:
  "\<exists>actual. move_in_as example_facts [moved_row example_operation example_pause 5] (ReplanId 1) 1
    example_pause 6 False = Inl (Domain (ReplanGenerationStale (ReplanId 1) 1 actual))"
  by (rule stale_writer_refused [OF example_reachable example_paused _ rtranclp.rtrancl_refl])
    (simp add: example_pause_def)

text \<open>A move without a diagnosis that the domain allows is carried out.\<close>

lemma move_in_succeeds:
  assumes "read_operation ops i = Inr op" "check_move op generation step = Inr ()"
    and "move_diagnosis step = None" "move_to step \<noteq> ReplanStatus.Diagnosing"
    and "\<not> needs_task_alone (op_status op) (move_to step)"
  shows "\<exists>ops' row eff. move_in facts ops i generation step now = Inr (ops', row, eff)
    \<and> op_id row = op_id op \<and> op_status row = move_to step"
  using assms by (simp add: move_in_def move_in_as_def Let_def moved_row_def)

text \<open>The row under a raised fence is found, and a move the rules choose for a resolution can be made
  from it.\<close>

lemma raised_row_read:
  assumes "board_ok ops" "op \<in> set ops"
    and "raised = op\<lparr>op_generation := op_generation op + 1, op_updated_at := now\<rparr>"
  shows "read_operation (update_operation ops raised) (op_id op) = Inr raised"
proof -
  have "raised \<in> set (update_operation ops raised)" "board_ok (update_operation ops raised)"
    using board_ok_update(2) [OF assms(1,2), of raised] board_ok_raised [OF assms(1,2)] board_row [OF assms(1,2)]
    unfolding assms(3) by simp_all
  then show ?thesis using assms(3)
    by (auto simp: read_operation_def find_None_iff split: option.splits dest!: find_Some_in dest: board_ids)
qed

lemma resolve_to_targets:
  assumes "resolve_to op generation resolution children problem = Inr to"
  shows "op_status op = ReplanStatus.Blocked" "to \<noteq> ReplanStatus.Diagnosing"
    and "to \<in> {ReplanStatus.ContinuingAfterPark,
      ReplanStatus.Withdrawn, ReplanStatus.Parked, ReplanStatus.Snapshotting, ReplanStatus.Quiescing}"
    and "to = ReplanStatus.Parked \<longrightarrow> op_snapshot_id op \<noteq> None"
  using assms by (auto simp: resolve_to_def Let_def split: if_splits option.splits ReplanResolution.splits)


text \<open>The operation of the example, held blocked at its save, and a person's choice to continue.\<close>

definition example_blocking_move :: ReplanMove where
  "example_blocking_move = \<lparr>move_to = ReplanStatus.Blocked, move_reason = ''no disk'',
    move_snapshot_id = None, move_diagnosis = None\<rparr>"

definition example_blocked :: ReplanOperation where
  "example_blocked = moved_row (moved_row example_operation example_pause 5) example_blocking_move 6"

definition example_resolve :: ResolveReplan where
  "example_resolve = \<lparr>res_operation = ReplanId 1, res_generation = 2,
    res_resolution = ReplanResolution.Continue, res_reason = ''go on''\<rparr>"

lemma example_blocked_reachable: "replan_step\<^sup>*\<^sup>* [] [example_blocked]"
proof -
  have "move_in_as example_facts [moved_row example_operation example_pause 5] (ReplanId 1) 2
      example_blocking_move 6 False
    = Inr ([example_blocked], example_blocked,
        \<lparr>eff_released = None, eff_declined = None, eff_renewed = None, eff_recorded = None\<rparr>)"
    by code_simp
  with example_reachable show ?thesis
    by (meson rtranclp.rtrancl_into_rtrancl moved example_paused)
qed


text \<open>The loop over the mappings, from any two sets.\<close>

definition deleted_ordinals :: "ConditionMapping list \<Rightarrow> nat list" where
  "deleted_ordinals ms = map map_ordinal (filter (\<lambda>m. map_child_task_id m = None) ms)"

definition mapped_ordinals :: "ConditionMapping list \<Rightarrow> nat set" where
  "mapped_ordinals ms = map_ordinal ` set (filter (\<lambda>m. map_child_task_id m \<noteq> None) ms)"

lemma check_mappings_loop_iff:
  "deleted \<inter> mapped = {} \<Longrightarrow> check_mappings_loop operation deleted mapped ms = Inr () \<longleftrightarrow>
    distinct (deleted_ordinals ms) \<and> set (deleted_ordinals ms) \<inter> deleted = {}
    \<and> (deleted \<union> set (deleted_ordinals ms)) \<inter> (mapped \<union> mapped_ordinals ms) = {}"
proof (induction ms arbitrary: deleted mapped)
  case Nil
  then show ?case by (auto simp: deleted_ordinals_def mapped_ordinals_def)
next
  case (Cons m ms)
  show ?case
  proof (cases "map_child_task_id m = None")
    case True
    then have d: "deleted_ordinals (m # ms) = map_ordinal m # deleted_ordinals ms"
      "mapped_ordinals (m # ms) = mapped_ordinals ms"
      by (simp_all add: deleted_ordinals_def mapped_ordinals_def)
    show ?thesis
    proof (cases "map_ordinal m \<in> deleted \<or> map_ordinal m \<in> mapped")
      case True
      with \<open>map_child_task_id m = None\<close> show ?thesis
        by (auto simp: d Let_def and_then_require)
    next
      case False
      then have "insert (map_ordinal m) deleted \<inter> mapped = {}" using Cons.prems by auto
      moreover have "check_mappings_loop operation deleted mapped (m # ms)
        = check_mappings_loop operation (insert (map_ordinal m) deleted) mapped ms"
        using False True by (simp add: Let_def and_then_require)
      ultimately show ?thesis
        using Cons.IH [of "insert (map_ordinal m) deleted" mapped] False True by (auto simp: d)
    qed
  next
    case False
    then have d: "deleted_ordinals (m # ms) = deleted_ordinals ms"
      "mapped_ordinals (m # ms) = insert (map_ordinal m) (mapped_ordinals ms)"
      by (auto simp: deleted_ordinals_def mapped_ordinals_def)
    show ?thesis
    proof (cases "map_ordinal m \<in> deleted")
      case True
      with False show ?thesis by (auto simp: d Let_def and_then_require)
    next
      case new: False
      then have "deleted \<inter> insert (map_ordinal m) mapped = {}" using Cons.prems by auto
      moreover have "check_mappings_loop operation deleted mapped (m # ms)
        = check_mappings_loop operation deleted (insert (map_ordinal m) mapped) ms"
        using False new by (auto simp: Let_def and_then_require)
      ultimately show ?thesis
        using Cons.IH [of deleted "insert (map_ordinal m) mapped"] False new by (auto simp: d)
    qed
  qed
qed

text \<open>Condition mappings are taken exactly when, over those recorded and those added together,
  no acceptance item is deleted twice and no deleted item goes to a child task, in whatever order
  they were written.\<close>

theorem check_mappings_accepts_iff:
  "check_mappings operation existing added = Inr () \<longleftrightarrow>
    distinct (deleted_ordinals (existing @ added))
    \<and> set (deleted_ordinals (existing @ added)) \<inter> mapped_ordinals (existing @ added) = {}"
  using check_mappings_loop_iff [of "{}" "{}" operation "existing @ added"] by (simp add: check_mappings_def)

end
