(* ===== verification/Task_Hold.thy ===== *)
theory Task_Hold
  imports Replan_Operation Claim_Order
begin

text \<open>
  Holds of tasks: \<^verbatim>\<open>src/domain/task_hold.rs\<close>. A hold is a person's mark that keeps the runtime
  from moving a task on; it settles when the task's run rests, its release chooses how the task goes
  on, and a result that arrived meanwhile is applied only if nothing moved. The guard a hold puts on
  the steps of its task is in \<open>Replan_Operation\<close>.

  Events are what the readers restore of them: a turn's record, or an ID and the name of a kind.
  Times are seconds as \<open>int\<close>s, saturated where the code saturates.

  Shown: a hold never settles over a run that goes, a release ends exactly the runs that cannot go on,
  a kept result is applied only when neither the task nor its run moved, and reminders come no
  earlier than due and at least a day apart.
\<close>

section \<open>The hold\<close>

record TaskHold =
  th_id :: HoldId
  th_task_id :: TaskId
  th_run_id :: "RunId option"
  th_reason :: string
  th_until :: "int option"
  th_by_role :: string
  th_by_id :: string
  th_created_at :: int
  th_settled_at :: "int option"

definition hold_state :: "TaskHold \<Rightarrow> HoldState" where
  "hold_state h = (if th_settled_at h \<noteq> None then HoldState.Held else HoldState.Settling)"

definition hold_guard :: "TaskHold \<Rightarrow> HoldGuard" where
  "hold_guard h = \<lparr>hg_task = th_task_id h, hg_hold = th_id h\<rparr>"

datatype HoldTarget = TargetTask TaskId | TargetRun RunId

definition HoldTarget_requested :: "HoldTarget \<Rightarrow> string" where
  "HoldTarget_requested t = (case t of TargetTask _ \<Rightarrow> ''task'' | TargetRun _ \<Rightarrow> ''run'')"

definition check_hold :: "TaskId \<Rightarrow> TaskStatus \<Rightarrow> TaskHold option \<Rightarrow> string \<Rightarrow> unit result" where
  "check_hold task s open_hold reason =
    and_then (require (\<not> blank reason) HoldReasonEmpty) (\<lambda>_.
    and_then (require (s \<in> {TaskStatus.Ready, TaskStatus.Submitted, TaskStatus.InProgress})
      (TaskNotHoldable task s)) (\<lambda>_.
    case open_hold of Some h \<Rightarrow> Inl (TaskAlreadyHeld task (th_id h)) | None \<Rightarrow> Inr ()))"

section \<open>The wait of the run\<close>

definition RunStatus_is_unfinished :: "RunStatus \<Rightarrow> bool" where
  "RunStatus_is_unfinished s \<longleftrightarrow> s \<in> {RunStatus.Claimed, RunStatus.Starting, RunStatus.Running,
     RunStatus.Validating, RunStatus.AwaitingIntegration, RunStatus.Integrating, RunStatus.NeedsSession}"

definition run_wait :: "RunStatus option \<Rightarrow> bool \<Rightarrow> RunHoldWait" where
  "run_wait s leased = (case s of
     None \<Rightarrow> RunHoldWait.NoWait
   | Some s \<Rightarrow>
       if s \<in> {RunStatus.Claimed, RunStatus.Starting, RunStatus.Running, RunStatus.Integrating}
       then RunHoldWait.Settling
       else if s \<in> {RunStatus.Validating, RunStatus.AwaitingIntegration, RunStatus.NeedsSession,
           RunStatus.Failed, RunStatus.Interrupted}
       then (if leased then RunHoldWait.Settling else RunHoldWait.Settled)
       else RunHoldWait.NoWait)"

definition held_state :: "RunHoldWait \<Rightarrow> HoldState" where
  "held_state w = (case w of RunHoldWait.Settling \<Rightarrow> HoldState.Settling | _ \<Rightarrow> HoldState.Held)"

record RestWriter =
  rw_park_blocked :: bool
  rw_registered_process :: bool
  rw_checked :: bool

definition RestWriter_may_run :: "RestWriter \<Rightarrow> bool" where
  "RestWriter_may_run w \<longleftrightarrow> \<not> rw_checked w \<and> (rw_park_blocked w \<or> rw_registered_process w)"

definition rest_wait :: "RunStatus option \<Rightarrow> bool \<Rightarrow> RestWriter \<Rightarrow> RunHoldWait" where
  "rest_wait s leased writer = run_wait s (leased \<or> RestWriter_may_run writer)"

definition settles_at_rest :: "RunStatus \<Rightarrow> bool \<Rightarrow> bool \<Rightarrow> RestWriter \<Rightarrow> bool" where
  "settles_at_rest s leased latest writer \<longleftrightarrow>
    latest \<and> rest_wait (Some s) leased writer = RunHoldWait.Settled"

definition check_release :: "TaskId \<Rightarrow> TaskHold option \<Rightarrow> RunHoldWait \<Rightarrow> unit result" where
  "check_release task open_hold w = (case open_hold of
     None \<Rightarrow> Inl (TaskNotHeld task)
   | Some h \<Rightarrow> require (w \<noteq> RunHoldWait.Settling) (HoldNotSettled task (th_id h)))"

section \<open>The release\<close>

definition ReleaseDecision_new_run :: "ReleaseDecision \<Rightarrow> bool" where
  "ReleaseDecision_new_run d \<longleftrightarrow> d \<in> {ReleaseDecision.RetryInherit, ReleaseDecision.RetryFresh}"

definition ReleaseDecision_continuation :: "ReleaseDecision \<Rightarrow> string" where
  "ReleaseDecision_continuation d = (case d of
     ReleaseDecision.Claim \<Rightarrow> ''claim''
   | ReleaseDecision.Resume \<Rightarrow> ''continue''
   | _ \<Rightarrow> ''new_run'')"

record ReleaseChoice =
  choice_provider :: "Provider option"
  choice_model :: "string option"

record ReleaseFacts =
  rel_task :: TaskStatus
  rel_run :: "RunStatus option"
  rel_run_provider :: "Provider option"
  rel_session :: bool
  rel_kept :: bool

definition ends_run :: "ReleaseFacts \<Rightarrow> ReleaseChoice \<Rightarrow> bool" where
  "ends_run facts choice = (case rel_run facts of
     None \<Rightarrow> False
   | Some run \<Rightarrow>
      (let other_provider = (case choice_provider choice of
           Some p \<Rightarrow> Some p \<noteq> rel_run_provider facts | None \<Rightarrow> False)
       in rel_task facts = TaskStatus.InProgress
         \<and> (if run \<in> {RunStatus.Failed, RunStatus.Interrupted}
            then choice_provider choice \<noteq> None \<or> choice_model choice \<noteq> None \<or> \<not> rel_kept facts
            else if RunStatus_is_unfinished run then \<not> rel_session facts \<or> other_provider
            else False)))"

definition release_decision :: "ReleaseFacts \<Rightarrow> ReleaseChoice \<Rightarrow> bool \<Rightarrow> ReleaseDecision" where
  "release_decision facts choice own_commits =
    (if rel_task facts \<noteq> TaskStatus.InProgress then ReleaseDecision.Claim
     else if \<not> ends_run facts choice then ReleaseDecision.Resume
     else if own_commits then ReleaseDecision.RetryInherit
     else ReleaseDecision.RetryFresh)"

definition new_run_reason :: "ReleaseFacts \<Rightarrow> Provider option \<Rightarrow> string" where
  "new_run_reason facts provider =
    (let no_session = ''the hold was released and the run had no session to go on in'';
         by_provider = (case provider of
           Some p \<Rightarrow> if Some p \<noteq> rel_run_provider facts
             then ''the hold was released with the provider changed to '' @ Provider_as_str p
               @ '', which cannot go on in the run's session''
             else no_session
         | None \<Rightarrow> no_session)
     in case rel_run facts of
       Some run \<Rightarrow> if run \<in> {RunStatus.Failed, RunStatus.Interrupted}
         then ''the hold was released and the run had stopped ('' @ RunStatus_as_str run @ '')''
         else by_provider
     | None \<Rightarrow> by_provider)"

text \<open>The turns of a run as the execution context restores them.\<close>

datatype RecordedTurn =
  Started "nat option"
| Finished "nat option" bool
| Session "string option"

definition session_to_resume :: "RecordedTurn list \<Rightarrow> bool" where
  "session_to_resume turns =
    (let since = (case rposition (\<lambda>turn. turn = Session None) turns of
         None \<Rightarrow> turns | Some gone \<Rightarrow> drop (gone + 1) turns);
       ended = (\<lambda>started. list_ex (\<lambda>turn. case turn of
           Finished t _ \<Rightarrow> t = started | _ \<Rightarrow> False) since)
     in list_ex (\<lambda>turn. case turn of
         Finished _ answered \<Rightarrow> answered
       | Session s \<Rightarrow> s \<noteq> None
       | Started t \<Rightarrow> \<not> ended t) since)"

section \<open>Kept results\<close>

record ProgressVersion =
  pv_task_status :: TaskStatus
  pv_task_updated_at :: string
  pv_run_status :: RunStatus
  pv_last_event :: "EventId option"

definition NOT_PROGRESS :: "string list" where
  "NOT_PROGRESS = [''task_held'', ''task_hold_reminded'', ''task_released'', ''task_hold_ended'',
    ''hold_deferred'', ''hold_result_kept'', ''hold_result_applied'', ''hold_result_discarded'',
    ''lease_acquired'', ''lease_released'', ''workspace_closed'']"

definition ProgressVersion_of ::
  "TaskStatus \<Rightarrow> string \<Rightarrow> RunStatus \<Rightarrow> (EventId \<times> string) list \<Rightarrow> ProgressVersion" where
  "ProgressVersion_of task_st updated_at run_st events =
    \<lparr>pv_task_status = task_st, pv_task_updated_at = updated_at, pv_run_status = run_st,
     pv_last_event = map_option fst (find (\<lambda>(_, kind). kind \<notin> set NOT_PROGRESS) (rev events))\<rparr>"

record ReleaseReadAt =
  rr_hold :: HoldId
  rr_run :: RunId
  rr_version :: ProgressVersion

definition check_release_read ::
  "TaskId \<Rightarrow> HoldId \<Rightarrow> bool \<Rightarrow> ReleaseReadAt option \<Rightarrow> ReleaseReadAt option \<Rightarrow> unit result" where
  "check_release_read task hold ends read now =
    (if \<not> ends \<and> read = None then Inr ()
     else require (read \<noteq> None \<and> read = now) (ReleaseReadMoved task hold))"

record KeptResult =
  kept_source :: "KeptSource option"
  kept_ask :: "AskId option"

definition ask_to_close :: "KeptResult \<Rightarrow> AskId option" where
  "ask_to_close k = (if kept_source k = Some KeptSource.TriageAnswer then kept_ask k else None)"

datatype Disposition = Apply | DiscardResult DiscardReason

definition HoldEnd_of :: "TaskStatus \<Rightarrow> HoldEnd option" where
  "HoldEnd_of s = (case s of
     TaskStatus.Completed \<Rightarrow> Some HoldEnd.Completed
   | TaskStatus.Canceled \<Rightarrow> Some HoldEnd.Canceled
   | TaskStatus.Replaced \<Rightarrow> Some HoldEnd.Replaced
   | _ \<Rightarrow> None)"

definition HoldEnd_kept_result :: "HoldEnd \<Rightarrow> Disposition" where
  "HoldEnd_kept_result e = DiscardResult DiscardReason.TaskEnded"

definition disposition :: "KeptSource \<Rightarrow> ProgressVersion \<Rightarrow> ProgressVersion \<Rightarrow> Disposition" where
  "disposition source kept now = (case HoldEnd_of (pv_task_status now) of
     Some e \<Rightarrow> HoldEnd_kept_result e
   | None \<Rightarrow>
      if source = KeptSource.LiveVerdict then DiscardResult DiscardReason.LiveSession
      else if kept = now then Apply
      else DiscardResult DiscardReason.Changed)"

section \<open>Reminders\<close>

definition HOLD_REMIND_SECS :: int where "HOLD_REMIND_SECS = 24 * 60 * 60"

definition first_due :: "TaskHold \<Rightarrow> int" where
  "first_due h = (case th_until h of
     Some u \<Rightarrow> u | None \<Rightarrow> saturating (th_created_at h + HOLD_REMIND_SECS))"

definition hold_overdue :: "TaskHold \<Rightarrow> int \<Rightarrow> HoldReminder option" where
  "hold_overdue h now =
    (if now < first_due h then None
     else if th_until h \<noteq> None then Some HoldReminder.UntilPassed
     else Some HoldReminder.LongHeld)"

definition reminder_due :: "TaskHold \<Rightarrow> int option \<Rightarrow> int \<Rightarrow> HoldReminder option" where
  "reminder_due h last_told now =
    (case (hold_overdue h now, last_told) of
       (Some _, Some l) \<Rightarrow>
         if now < saturating (l + HOLD_REMIND_SECS) then None else hold_overdue h now
     | (cause, _) \<Rightarrow> cause)"

section \<open>Lemmas\<close>

lemma find_append: "find P (xs @ ys) = (case find P xs of Some x \<Rightarrow> Some x | None \<Rightarrow> find P ys)"
  by (induction xs) auto

lemma saturating_mono: "x \<le> y \<Longrightarrow> saturating x \<le> saturating y"
  by (auto simp: saturating_def i64_MAX_def i64_MIN_def)

lemma saturating_le: "i64_MIN \<le> x \<Longrightarrow> saturating x \<le> x"
  by (auto simp: saturating_def i64_MAX_def i64_MIN_def)

text \<open>A hold taken while its run's step goes, or a writer of it may still run, settles later; one
  taken at rest is held at once.\<close>

lemma held_state_rest:
  "held_state (rest_wait s leased writer) = HoldState.Held \<longleftrightarrow>
    (case s of None \<Rightarrow> True
     | Some s \<Rightarrow> s \<in> {RunStatus.Integrated, RunStatus.Succeeded, RunStatus.Replaced}
         \<or> s \<in> {RunStatus.Validating, RunStatus.AwaitingIntegration, RunStatus.NeedsSession,
               RunStatus.Failed, RunStatus.Interrupted} \<and> \<not> leased \<and> \<not> RestWriter_may_run writer)"
proof (cases s)
  case None
  then show ?thesis by (simp add: held_state_def rest_wait_def run_wait_def)
next
  case (Some r)
  then show ?thesis by (cases r) (simp_all add: held_state_def rest_wait_def run_wait_def)
qed

text \<open>A hold that settles at its run's rest is one a release is not refused for.\<close>

lemma settles_at_rest_releasable:
  "settles_at_rest s leased latest writer \<Longrightarrow>
    check_release task (Some h) (rest_wait (Some s) leased writer) = Inr ()"
  by (simp add: settles_at_rest_def check_release_def)

lemma release_resumes_iff:
  "release_decision facts choice own = ReleaseDecision.Resume \<longleftrightarrow>
    rel_task facts = TaskStatus.InProgress \<and> \<not> ends_run facts choice"
  by (simp add: release_decision_def)

section \<open>Properties\<close>

text \<open>A result kept by a hold is applied at its release exactly when the task goes on, it is not a
  verdict on a live session, and nothing of the run was recorded since it was kept but the hold's own
  records, leases and closed workspaces.\<close>

lemma kept_result_applied_iff:
  assumes "distinct (map fst (events @ since))"
  shows "disposition source (ProgressVersion_of t u r events) (ProgressVersion_of t u r (events @ since)) = Apply
    \<longleftrightarrow> HoldEnd_of t = None \<and> source \<noteq> KeptSource.LiveVerdict
      \<and> snd ` set since \<subseteq> set NOT_PROGRESS"
proof -
  let ?P = "\<lambda>(_ :: EventId, kind). kind \<notin> set NOT_PROGRESS"
  have "pv_last_event (ProgressVersion_of t u r events) = pv_last_event (ProgressVersion_of t u r (events @ since))
    \<longleftrightarrow> find ?P (rev since) = None"
  proof (cases "find ?P (rev since)")
    case None
    then show ?thesis by (simp add: ProgressVersion_of_def find_append)
  next
    case (Some e)
    then have "fst e \<in> set (map fst since)" using find_Some_in [OF Some] by simp
    moreover have "x \<in> set (map fst events)" if "map_option fst (find ?P (rev events)) = Some x" for x
    proof -
      from that obtain y where y: "find ?P (rev events) = Some y" "fst y = x" by blast
      from find_Some_in [OF y(1)] y(2) show ?thesis by auto
    qed
    ultimately have "map_option fst (find ?P (rev events)) \<noteq> Some (fst e)"
      using assms by auto
    with Some show ?thesis by (auto simp: ProgressVersion_of_def find_append)
  qed
  then have "ProgressVersion_of t u r events = ProgressVersion_of t u r (events @ since)
      \<longleftrightarrow> snd ` set since \<subseteq> set NOT_PROGRESS"
    by (auto simp: ProgressVersion_of_def find_None_iff)
  then show ?thesis
    by (auto simp: disposition_def HoldEnd_kept_result_def ProgressVersion_of_def split: option.splits)
qed

text \<open>Reminders of a hold: none before it is first due; after one, none for a day; and one when
  both have passed.\<close>

theorem reminder_due_iff:
  "(\<exists>cause. reminder_due h told now = Some cause) \<longleftrightarrow>
    first_due h \<le> now \<and> (case told of None \<Rightarrow> True | Some l \<Rightarrow> saturating (l + HOLD_REMIND_SECS) \<le> now)"
  by (auto simp: reminder_due_def hold_overdue_def split: option.splits if_splits)

end
