(* ===== verification/Replacement_Plan.thy ===== *)
theory Replacement_Plan
  imports Replan_Operation Scope "HOL-Library.AList"
begin

text \<open>
  The replacement plan of a replanning operation and what its apply checks:
  \<^verbatim>\<open>src/domain/replan_plan.rs\<close> (\<open>check_plan\<close> and its five groups of rules) and the apply part of
  \<^verbatim>\<open>src/domain/replan_apply.rs\<close> (\<open>successor_edges\<close>, \<open>closes_loop\<close>, \<open>apply_problems\<close>, \<open>mappings_of\<close>
  of the store).

  A problem is its code and the task it is about, a refused apply the recovery it calls for; their
  texts, which no rule reads, are left out. The queue as the check reads it is the record
  \<open>PlanContext\<close>, with its maps as partial functions. The two searches for a loop share one loop over
  a stack, \<open>loops_back\<close>, total by the pair of the vertices not seen and the length of the stack.

  Shown: a plan is accepted exactly when the replacement it describes is complete, the conditions
  of the replaced task are all kept or deleted by a person, and the searches find exactly the loops
  there are.
\<close>

section \<open>Enumerations\<close>

datatype PlanChoice =
  Split
| Redistribute

primrec PlanChoice_as_str :: "PlanChoice \<Rightarrow> string" where
  "PlanChoice_as_str PlanChoice.Split = ''split''"
| "PlanChoice_as_str PlanChoice.Redistribute = ''redistribute''"

definition PlanChoice_all :: "PlanChoice list" where
  "PlanChoice_all = [PlanChoice.Split, PlanChoice.Redistribute]"

datatype ItemDisposition =
  Split
| Redistribute
| Landed
| Deleted

primrec ItemDisposition_as_str :: "ItemDisposition \<Rightarrow> string" where
  "ItemDisposition_as_str ItemDisposition.Split = ''split''"
| "ItemDisposition_as_str ItemDisposition.Redistribute = ''redistribute''"
| "ItemDisposition_as_str ItemDisposition.Landed = ''landed''"
| "ItemDisposition_as_str ItemDisposition.Deleted = ''deleted''"

definition ItemDisposition_all :: "ItemDisposition list" where
  "ItemDisposition_all = [ItemDisposition.Split, ItemDisposition.Redistribute, ItemDisposition.Landed,
     ItemDisposition.Deleted]"

datatype CarrySource =
  Base
| SnapshotHead
| SnapshotDiff

primrec CarrySource_as_str :: "CarrySource \<Rightarrow> string" where
  "CarrySource_as_str CarrySource.Base = ''base''"
| "CarrySource_as_str CarrySource.SnapshotHead = ''snapshot_head''"
| "CarrySource_as_str CarrySource.SnapshotDiff = ''snapshot_diff''"

definition CarrySource_all :: "CarrySource list" where
  "CarrySource_all = [CarrySource.Base, CarrySource.SnapshotHead, CarrySource.SnapshotDiff]"

datatype PlanProblemCode =
  OperationMismatch | NotWithPlanner | VersionStale | BlankRationale
| NoChildren | ChildUnknown | ChildNotMember | ChildNotPending
| MemberNotChild | OriginalAsChild | GoalMismatch | ItemUnmapped
| ItemUnknown | ItemRepeated | ChildItemMissing | DeletionUnauthorized
| LandedUnproven | ChildHoldsNothing | VerificationWeakened | EvidenceDropped
| PathsMissing | CarryUnclear | PredecessorDropped | DependencyCycle
| SuccessorUnmapped | SuccessorUnknown | SuccessorNeedsUnclear | SuccessorStarted

primrec PlanProblemCode_as_str :: "PlanProblemCode \<Rightarrow> string" where
  "PlanProblemCode_as_str PlanProblemCode.OperationMismatch = ''operation_mismatch''"
| "PlanProblemCode_as_str PlanProblemCode.NotWithPlanner = ''not_with_planner''"
| "PlanProblemCode_as_str PlanProblemCode.VersionStale = ''version_stale''"
| "PlanProblemCode_as_str PlanProblemCode.BlankRationale = ''blank_rationale''"
| "PlanProblemCode_as_str PlanProblemCode.NoChildren = ''no_children''"
| "PlanProblemCode_as_str PlanProblemCode.ChildUnknown = ''child_unknown''"
| "PlanProblemCode_as_str PlanProblemCode.ChildNotMember = ''child_not_member''"
| "PlanProblemCode_as_str PlanProblemCode.ChildNotPending = ''child_not_pending''"
| "PlanProblemCode_as_str PlanProblemCode.MemberNotChild = ''member_not_child''"
| "PlanProblemCode_as_str PlanProblemCode.OriginalAsChild = ''original_as_child''"
| "PlanProblemCode_as_str PlanProblemCode.GoalMismatch = ''goal_mismatch''"
| "PlanProblemCode_as_str PlanProblemCode.ItemUnmapped = ''item_unmapped''"
| "PlanProblemCode_as_str PlanProblemCode.ItemUnknown = ''item_unknown''"
| "PlanProblemCode_as_str PlanProblemCode.ItemRepeated = ''item_repeated''"
| "PlanProblemCode_as_str PlanProblemCode.ChildItemMissing = ''child_item_missing''"
| "PlanProblemCode_as_str PlanProblemCode.DeletionUnauthorized = ''deletion_unauthorized''"
| "PlanProblemCode_as_str PlanProblemCode.LandedUnproven = ''landed_unproven''"
| "PlanProblemCode_as_str PlanProblemCode.ChildHoldsNothing = ''child_holds_nothing''"
| "PlanProblemCode_as_str PlanProblemCode.VerificationWeakened = ''verification_weakened''"
| "PlanProblemCode_as_str PlanProblemCode.EvidenceDropped = ''evidence_dropped''"
| "PlanProblemCode_as_str PlanProblemCode.PathsMissing = ''paths_missing''"
| "PlanProblemCode_as_str PlanProblemCode.CarryUnclear = ''carry_unclear''"
| "PlanProblemCode_as_str PlanProblemCode.PredecessorDropped = ''predecessor_dropped''"
| "PlanProblemCode_as_str PlanProblemCode.DependencyCycle = ''dependency_cycle''"
| "PlanProblemCode_as_str PlanProblemCode.SuccessorUnmapped = ''successor_unmapped''"
| "PlanProblemCode_as_str PlanProblemCode.SuccessorUnknown = ''successor_unknown''"
| "PlanProblemCode_as_str PlanProblemCode.SuccessorNeedsUnclear = ''successor_needs_unclear''"
| "PlanProblemCode_as_str PlanProblemCode.SuccessorStarted = ''successor_started''"

definition PlanProblemCode_all :: "PlanProblemCode list" where
  "PlanProblemCode_all = [PlanProblemCode.OperationMismatch, PlanProblemCode.NotWithPlanner, PlanProblemCode.VersionStale,
     PlanProblemCode.BlankRationale, PlanProblemCode.NoChildren, PlanProblemCode.ChildUnknown,
     PlanProblemCode.ChildNotMember, PlanProblemCode.ChildNotPending, PlanProblemCode.MemberNotChild,
     PlanProblemCode.OriginalAsChild, PlanProblemCode.GoalMismatch, PlanProblemCode.ItemUnmapped,
     PlanProblemCode.ItemUnknown, PlanProblemCode.ItemRepeated, PlanProblemCode.ChildItemMissing,
     PlanProblemCode.DeletionUnauthorized, PlanProblemCode.LandedUnproven, PlanProblemCode.ChildHoldsNothing,
     PlanProblemCode.VerificationWeakened, PlanProblemCode.EvidenceDropped, PlanProblemCode.PathsMissing,
     PlanProblemCode.CarryUnclear, PlanProblemCode.PredecessorDropped, PlanProblemCode.DependencyCycle,
     PlanProblemCode.SuccessorUnmapped, PlanProblemCode.SuccessorUnknown, PlanProblemCode.SuccessorNeedsUnclear,
     PlanProblemCode.SuccessorStarted]"

interpretation PlanChoice_enum: string_enum PlanChoice_all PlanChoice_as_str
proof unfold_locales
  show "distinct (map PlanChoice_as_str PlanChoice_all)" by (simp add: PlanChoice_all_def)
  show "x \<in> set PlanChoice_all" for x by (cases x) (simp_all add: PlanChoice_all_def)
qed

interpretation ItemDisposition_enum: string_enum ItemDisposition_all ItemDisposition_as_str
proof unfold_locales
  show "distinct (map ItemDisposition_as_str ItemDisposition_all)" by (simp add: ItemDisposition_all_def)
  show "x \<in> set ItemDisposition_all" for x by (cases x) (simp_all add: ItemDisposition_all_def)
qed

interpretation CarrySource_enum: string_enum CarrySource_all CarrySource_as_str
proof unfold_locales
  show "distinct (map CarrySource_as_str CarrySource_all)" by (simp add: CarrySource_all_def)
  show "x \<in> set CarrySource_all" for x by (cases x) (simp_all add: CarrySource_all_def)
qed

interpretation PlanProblemCode_enum: string_enum PlanProblemCode_all PlanProblemCode_as_str
proof unfold_locales
  show "distinct (map PlanProblemCode_as_str PlanProblemCode_all)" by (simp add: PlanProblemCode_all_def)
  show "x \<in> set PlanProblemCode_all" for x by (cases x) (simp_all add: PlanProblemCode_all_def)
qed

section \<open>The plan\<close>

record PlanChild =
  child_task_id :: TaskId
  child_carry :: CarrySource
  child_order :: "nat option"

record ChildItem =
  held_task_id :: TaskId
  held_ordinal :: nat

record PlanMapping =
  pm_ordinal :: nat
  pm_hash :: string
  pm_disposition :: ItemDisposition
  pm_children :: "ChildItem list"
  pm_landed_task_id :: "TaskId option"
  pm_authority_ask_id :: "AskId option"
  pm_reason :: "string option"

record PlanSuccessor =
  ps_task_id :: TaskId
  ps_needs :: "TaskId list"
  ps_reason :: "string option"

record ReplacementPlan =
  plan_operation_id :: ReplanId
  plan_task_version :: string
  plan_goal_acceptance_version :: "int option"
  plan_choice :: PlanChoice
  plan_rationale :: string
  plan_children :: "PlanChild list"
  plan_mappings :: "PlanMapping list"
  plan_successors :: "PlanSuccessor list"

definition child_ids :: "ReplacementPlan \<Rightarrow> TaskId list" where
  "child_ids plan = map child_task_id (plan_children plan)"

record PlanProblem =
  problem_code :: PlanProblemCode
  problem_task :: "TaskId option"

abbreviation problem :: "PlanProblemCode \<Rightarrow> TaskId option \<Rightarrow> PlanProblem" where
  "problem code task \<equiv> \<lparr>problem_code = code, problem_task = task\<rparr>"

text \<open>\<open>if condition { push(..) }\<close>.\<close>

definition push_if :: "bool \<Rightarrow> 'a \<Rightarrow> 'a list" where
  "push_if condition x = (if condition then [x] else [])"

record PlanTask =
  pt_status :: TaskStatus
  pt_goal_id :: "GoalId option"
  pt_acceptance :: "AcceptanceItem list"
  pt_verify :: "string list"
  pt_paths :: "string list"
  pt_evidence :: "EvidenceCheck list"
  pt_depends_on :: "TaskId list"

record DeletionAuthority =
  da_about_operation :: bool
  da_scope :: bool
  da_answered_by_person :: bool
  da_answer :: string
  da_options :: "string list"

text \<open>\<open>chars().take(n)\<close>, over UTF-8 bytes.\<close>

fun take_chars :: "nat \<Rightarrow> string \<Rightarrow> string" where
  "take_chars 0 s = []"
| "take_chars (Suc n) s = (case s of [] \<Rightarrow> []
     | b # _ \<Rightarrow> take (char_width b) s @ take_chars n (drop (char_width b) s))"

definition deletion_token :: "AcceptanceItem \<Rightarrow> string" where
  "deletion_token item = ''delete:'' @ show_nat (item_ordinal item) @ '':'' @ take_chars 12 (item_hash item)"

definition approves_deletion :: "DeletionAuthority \<Rightarrow> AcceptanceItem \<Rightarrow> bool" where
  "approves_deletion authority item \<longleftrightarrow>
    (let token = deletion_token item
     in trim (da_answer authority) = token \<and> token \<in> set (da_options authority))"

record PlanContext =
  ctx_operation :: ReplanOperation
  ctx_task_version_now :: string
  ctx_goal_acceptance_version_now :: "int option"
  ctx_members :: "TaskId list"
  ctx_tasks :: "TaskId \<rightharpoonup> PlanTask"
  ctx_downstream :: "TaskId set"
  ctx_authorities :: "AskId \<rightharpoonup> DeletionAuthority"

datatype PlanReviewAction =
  AddDependency (action_task_id: TaskId) (action_depends_on: TaskId)
| LowerPriority (action_task_id: TaskId) (action_priority: Priority)
| CancelDuplicate (action_task_id: TaskId) (action_duplicate_of: TaskId)

definition after_action :: "PlanReviewAction \<Rightarrow> PlanContext \<Rightarrow> PlanContext" where
  "after_action action ctx =
    (if action_task_id action \<notin> set (ctx_members ctx) then ctx
     else case action of
       CancelDuplicate task _ \<Rightarrow> (case ctx_tasks ctx task of
           Some t \<Rightarrow> ctx\<lparr>ctx_tasks := (ctx_tasks ctx)(task \<mapsto> t\<lparr>pt_status := TaskStatus.Canceled\<rparr>)\<rparr>
         | None \<Rightarrow> ctx)
     | AddDependency task depends_on \<Rightarrow> (case ctx_tasks ctx task of
           Some t \<Rightarrow> if depends_on \<in> set (pt_depends_on t) then ctx
             else ctx\<lparr>ctx_tasks := (ctx_tasks ctx)
               (task \<mapsto> t\<lparr>pt_depends_on := pt_depends_on t @ [depends_on]\<rparr>)\<rparr>
         | None \<Rightarrow> ctx)
     | LowerPriority _ _ \<Rightarrow> ctx)"

definition after_actions :: "PlanReviewAction list \<Rightarrow> PlanContext \<Rightarrow> PlanContext" where
  "after_actions actions ctx = fold after_action actions ctx"

section \<open>The search for a loop\<close>

definition waits_of :: "('n \<times> 'n list) list \<Rightarrow> 'n \<Rightarrow> 'n list" where
  "waits_of graph x = (case map_of graph x of Some ys \<Rightarrow> ys | None \<Rightarrow> [])"

text \<open>Whether the walk from the vertices on the stack, entering each vertex that may be entered
  once, comes to \<open>start\<close>.\<close>

function loops_back ::
  "('n \<Rightarrow> bool) \<Rightarrow> ('n \<times> 'n list) list \<Rightarrow> 'n \<Rightarrow> 'n list \<Rightarrow> 'n set \<Rightarrow> bool" where
  "loops_back enter graph start stack seen =
    (if stack = [] then False
     else if last stack = start then True
     else if enter (last stack) \<and> last stack \<notin> seen
       then loops_back enter graph start (butlast stack @ waits_of graph (last stack))
         (insert (last stack) seen)
     else loops_back enter graph start (butlast stack) seen)"
  by pat_completeness auto
termination
proof (relation "measures [\<lambda>(_, graph, _, _, seen). card (fst ` set graph - seen),
    \<lambda>(_, _, _, stack, _). length stack]")
  fix enter :: "'n \<Rightarrow> bool" and graph :: "('n \<times> 'n list) list" and start :: 'n and stack seen
  assume "stack \<noteq> []" and "enter (last stack) \<and> last stack \<notin> seen"
  show "((enter, graph, start, butlast stack @ waits_of graph (last stack), insert (last stack) seen),
      (enter, graph, start, stack, seen))
    \<in> measures [\<lambda>(_, graph, _, _, seen). card (fst ` set graph - seen), \<lambda>(_, _, _, stack, _). length stack]"
  proof (cases "last stack \<in> fst ` set graph")
    case True
    then have "fst ` set graph - insert (last stack) seen \<subset> fst ` set graph - seen"
      using \<open>enter (last stack) \<and> last stack \<notin> seen\<close> by auto
    then have "card (fst ` set graph - insert (last stack) seen) < card (fst ` set graph - seen)"
      by (intro psubset_card_mono) auto
    then show ?thesis by simp
  next
    case False
    then have "waits_of graph (last stack) = []"
      by (auto simp: waits_of_def image_iff dest!: map_of_SomeD split: option.splits)
    moreover have "fst ` set graph - insert (last stack) seen = fst ` set graph - seen"
      using False by auto
    ultimately show ?thesis using \<open>stack \<noteq> []\<close> by simp
  qed
qed auto

declare loops_back.simps [simp del]


section \<open>The rules of a plan\<close>

text \<open>A child that may not take what the plan gives it.\<close>

definition check_child :: "PlanContext \<Rightarrow> TaskId \<Rightarrow> PlanProblem list" where
  "check_child ctx child =
    (let op = ctx_operation ctx in
     push_if (child = op_task_id op) (problem OriginalAsChild (Some child))
     @ push_if (child \<notin> set (ctx_members ctx)) (problem ChildNotMember (Some child))
     @ (case ctx_tasks ctx child of
          None \<Rightarrow> [problem ChildUnknown (Some child)]
        | Some task \<Rightarrow> push_if (pt_goal_id task \<noteq> op_goal_id op) (problem GoalMismatch (Some child))
            @ push_if (\<not> pt_status task \<in> {TaskStatus.Draft, TaskStatus.Submitted})
                (problem ChildNotPending (Some child))))"

definition plan_items :: "PlanContext \<Rightarrow> nat \<rightharpoonup> AcceptanceItem" where
  "plan_items ctx = map_of (rev (map (\<lambda>item. (item_ordinal item, item))
     (oc_acceptance (op_conditions (ctx_operation ctx)))))"

definition child_item_exists :: "PlanContext \<Rightarrow> TaskId set \<Rightarrow> ChildItem \<Rightarrow> bool" where
  "child_item_exists ctx children held \<longleftrightarrow>
    held_task_id held \<in> children
    \<and> (case ctx_tasks ctx (held_task_id held) of
         Some task \<Rightarrow> list_ex (\<lambda>item. item_ordinal item = held_ordinal held) (pt_acceptance task)
       | None \<Rightarrow> False)"

definition deletion_authorized :: "PlanContext \<Rightarrow> AcceptanceItem \<Rightarrow> PlanMapping \<Rightarrow> bool" where
  "deletion_authorized ctx item m =
    (case Option.bind (pm_authority_ask_id m) (ctx_authorities ctx) of
       Some authority \<Rightarrow> da_about_operation authority \<and> da_scope authority
         \<and> da_answered_by_person authority \<and> approves_deletion authority item
     | None \<Rightarrow> False)"

definition landed_proven :: "PlanContext \<Rightarrow> PlanMapping \<Rightarrow> bool" where
  "landed_proven ctx m =
    (case Option.bind (option_filter (\<lambda>task. task \<noteq> op_task_id (ctx_operation ctx))
        (pm_landed_task_id m)) (ctx_tasks ctx) of
       Some task \<Rightarrow> pt_status task = TaskStatus.Completed | None \<Rightarrow> False)"

text \<open>What the body of the loop over the mappings finds of a mapping taken for the first time.\<close>

definition check_mapping :: "PlanContext \<Rightarrow> TaskId set \<Rightarrow> AcceptanceItem \<Rightarrow> PlanMapping \<Rightarrow> PlanProblem list" where
  "check_mapping ctx children item m =
    concat (map (\<lambda>held. push_if (\<not> child_item_exists ctx children held)
      (problem ChildItemMissing (Some (held_task_id held)))) (pm_children m))
    @ (if pm_disposition m = ItemDisposition.Deleted then
         push_if (pm_children m \<noteq> []) (problem DeletionUnauthorized None)
         @ push_if (\<not> deletion_authorized ctx item m) (problem DeletionUnauthorized None)
       else
         push_if (pm_children m = []) (problem ItemUnmapped None)
         @ push_if (pm_disposition m = ItemDisposition.Landed \<and> \<not> landed_proven ctx m)
             (problem LandedUnproven None))"

text \<open>The loop over the mappings with its sets of ordinals seen and children that hold an item.\<close>

fun item_loop ::
  "PlanContext \<Rightarrow> TaskId set \<Rightarrow> nat set \<Rightarrow> TaskId set \<Rightarrow> PlanMapping list
    \<Rightarrow> PlanProblem list \<times> nat set \<times> TaskId set" where
  "item_loop ctx children seen holding [] = ([], seen, holding)"
| "item_loop ctx children seen holding (m # ms) =
    (case plan_items ctx (pm_ordinal m) of
       None \<Rightarrow> (let (problems, rest) = item_loop ctx children seen holding ms
         in (problem ItemUnknown None # problems, rest))
     | Some item \<Rightarrow>
        (let stale = push_if (item_hash item \<noteq> pm_hash m) (problem VersionStale None) in
         if pm_ordinal m \<in> seen then
           (let (problems, rest) = item_loop ctx children seen holding ms
            in (stale @ [problem ItemRepeated None] @ problems, rest))
         else
           (let (problems, rest) = item_loop ctx children (insert (pm_ordinal m) seen)
                (holding \<union> set (map held_task_id (pm_children m))) ms
            in (stale @ check_mapping ctx children item m @ problems, rest))))"

definition check_items :: "ReplacementPlan \<Rightarrow> PlanContext \<Rightarrow> TaskId list \<Rightarrow> PlanProblem list" where
  "check_items plan ctx children =
    (let (problems, seen, holding) = item_loop ctx (set children) {} {} (plan_mappings plan)
     in problems
        @ concat (map (\<lambda>ordinal. push_if (ordinal \<notin> seen) (problem ItemUnmapped None))
            (sorted_list_of_set (set (map item_ordinal (oc_acceptance (op_conditions (ctx_operation ctx)))))))
        @ concat (map (\<lambda>child. push_if (child \<notin> holding) (problem ChildHoldsNothing (Some child))) children))"

definition check_checks :: "PlanContext \<Rightarrow> TaskId list \<Rightarrow> PlanProblem list" where
  "check_checks ctx children =
    (let conditions = op_conditions (ctx_operation ctx);
         known = List.map_filter (ctx_tasks ctx) children
     in concat (map (\<lambda>check. push_if (\<not> list_ex (\<lambda>task. check \<in> set (pt_evidence task)) known)
            (problem EvidenceDropped None)) (oc_evidence conditions))
        @ concat (map (\<lambda>child. case ctx_tasks ctx child of
            None \<Rightarrow> []
          | Some task \<Rightarrow>
              concat (map (\<lambda>command. push_if (command \<notin> set (pt_verify task))
                (problem VerificationWeakened (Some child))) (oc_verify conditions))
              @ push_if (pt_verify task = []) (problem VerificationWeakened (Some child))
              @ push_if (oc_paths conditions \<noteq> [] \<and> pt_paths task = [])
                  (problem PathsMissing (Some child))) children))"

text \<open>The children that take saved work, with the order each takes it in.\<close>

definition taking :: "ReplacementPlan \<Rightarrow> PlanChild list" where
  "taking plan = filter (\<lambda>child. child_carry child \<noteq> CarrySource.Base) (plan_children plan)"

fun order_loop :: "nat set \<Rightarrow> PlanChild list \<Rightarrow> PlanProblem list" where
  "order_loop orders [] = []"
| "order_loop orders (child # others) = (case child_order child of
     None \<Rightarrow> problem CarryUnclear (Some (child_task_id child)) # order_loop orders others
   | Some order \<Rightarrow>
       push_if (order \<in> orders) (problem CarryUnclear (Some (child_task_id child)))
       @ order_loop (insert order orders) others)"

definition takers :: "ReplacementPlan \<Rightarrow> CarrySource \<Rightarrow> TaskId list" where
  "takers plan source = map child_task_id (filter (\<lambda>child. child_carry child = source) (plan_children plan))"

fun named_loop :: "TaskId set \<Rightarrow> PlanChild list \<Rightarrow> PlanProblem list" where
  "named_loop named [] = []"
| "named_loop named (child # others) =
    push_if (child_task_id child \<in> named) (problem CarryUnclear (Some (child_task_id child)))
    @ named_loop (insert (child_task_id child) named) others"

fun taken_twice :: "TaskId list \<Rightarrow> PlanProblem list" where
  "taken_twice (_ # second # _) = [problem CarryUnclear (Some second)]"
| "taken_twice _ = []"

text \<open>The sources in the order of their names, as the map of the takers is walked.\<close>

definition check_carry :: "ReplacementPlan \<Rightarrow> PlanProblem list" where
  "check_carry plan =
    order_loop {} (taking plan)
    @ concat (map (\<lambda>source. taken_twice (takers plan source))
        [CarrySource.SnapshotDiff, CarrySource.SnapshotHead])
    @ named_loop {} (plan_children plan)"

definition task_ended :: "PlanContext \<Rightarrow> TaskId \<Rightarrow> bool" where
  "task_ended ctx i = (case ctx_tasks ctx i of
     Some task \<Rightarrow> pt_status task \<in> {TaskStatus.Completed, TaskStatus.Canceled} | None \<Rightarrow> False)"

text \<open>What a task the context has waits for, nothing for another.\<close>

definition waits_in :: "PlanContext \<Rightarrow> TaskId \<Rightarrow> TaskId list" where
  "waits_in ctx i = (case ctx_tasks ctx i of Some task \<Rightarrow> pt_depends_on task | None \<Rightarrow> [])"

definition check_dependencies :: "PlanContext \<Rightarrow> TaskId list \<Rightarrow> PlanProblem list" where
  "check_dependencies ctx children =
    (let op = ctx_operation ctx
     in concat (map (\<lambda>child. case ctx_tasks ctx child of
            None \<Rightarrow> []
          | Some task \<Rightarrow>
              concat (map (\<lambda>predecessor. push_if
                  (\<not> task_ended ctx predecessor \<and> predecessor \<notin> set (pt_depends_on task))
                  (problem PredecessorDropped (Some child)))
                (oc_predecessors (op_conditions op)))
              @ concat (map (\<lambda>on. push_if (on = op_task_id op \<or> on \<in> ctx_downstream ctx)
                  (problem PlanProblemCode.DependencyCycle (Some child)))
                (pt_depends_on task))) children)
        @ concat (map (\<lambda>start. push_if
              (loops_back (\<lambda>next. next \<in> set children) (map (\<lambda>c. (c, waits_in ctx c)) children) start
                (waits_in ctx start) {})
              (problem PlanProblemCode.DependencyCycle (Some start))) children))"

definition reason_given :: "string option \<Rightarrow> bool" where
  "reason_given reason = (case reason of None \<Rightarrow> False | Some r \<Rightarrow> \<not> blank r)"

fun successor_loop ::
  "PlanContext \<Rightarrow> TaskId set \<Rightarrow> TaskId set \<Rightarrow> TaskId set \<Rightarrow> PlanSuccessor list \<Rightarrow> PlanProblem list \<times> TaskId set"
where
  "successor_loop ctx children original listed [] = ([], listed)"
| "successor_loop ctx children original listed (s # ss) =
    (let i = ps_task_id s in
     if i \<notin> original \<or> i \<in> listed then
       (let (problems, listed) = successor_loop ctx children original listed ss
        in (problem SuccessorUnknown (Some i) # problems, listed))
     else
       (let needs = set (ps_needs s);
            found = (if needs = {} \<or> \<not> needs \<subseteq> children then [problem SuccessorNeedsUnclear (Some i)]
                else push_if (card needs < card children \<and> \<not> reason_given (ps_reason s))
                  (problem SuccessorNeedsUnclear (Some i)))
              @ (case ctx_tasks ctx i of
                  Some task \<Rightarrow> push_if
                    (\<not> pt_status task \<in> {TaskStatus.Draft, TaskStatus.Submitted, TaskStatus.Ready}
                      \<and> \<not> TaskStatus_is_terminal (pt_status task))
                    (problem SuccessorStarted (Some i))
                | None \<Rightarrow> []);
            (problems, listed) = successor_loop ctx children original (insert i listed) ss
        in (found @ problems, listed)))"

definition check_successors :: "ReplacementPlan \<Rightarrow> PlanContext \<Rightarrow> TaskId list \<Rightarrow> PlanProblem list" where
  "check_successors plan ctx children =
    (let original = set (oc_successors (op_conditions (ctx_operation ctx)));
         (problems, listed) = successor_loop ctx (set children) original {} (plan_successors plan)
     in problems @ map (\<lambda>i. problem SuccessorUnmapped (Some i)) (sorted_list_of_set (original - listed)))"

definition check_plan :: "ReplacementPlan \<Rightarrow> PlanContext \<Rightarrow> PlanProblem list" where
  "check_plan plan ctx =
    (let op = ctx_operation ctx; children = sorted_list_of_set (set (child_ids plan)) in
     push_if (plan_operation_id plan \<noteq> op_id op) (problem OperationMismatch None)
     @ push_if (\<not> ReplanStatus_hands_to_planner (op_status op)) (problem NotWithPlanner None)
     @ push_if (plan_task_version plan \<noteq> op_task_version op
          \<or> ctx_task_version_now ctx \<noteq> op_task_version op) (problem VersionStale None)
     @ push_if (plan_goal_acceptance_version plan \<noteq> op_goal_acceptance_version op
          \<or> ctx_goal_acceptance_version_now ctx \<noteq> op_goal_acceptance_version op) (problem VersionStale None)
     @ push_if (blank (plan_rationale plan)) (problem BlankRationale None)
     @ push_if (children = []) (problem NoChildren None)
     @ concat (map (check_child ctx) children)
     @ concat (map (\<lambda>member. push_if (member \<notin> set children) (problem MemberNotChild (Some member)))
         (ctx_members ctx))
     @ check_items plan ctx children
     @ check_checks ctx children
     @ check_carry plan
     @ check_dependencies ctx children
     @ check_successors plan ctx children)"

section \<open>The apply\<close>

definition successor_edges :: "ReplacementPlan \<Rightarrow> TaskId list \<Rightarrow> (TaskId \<times> TaskId list) list" where
  "successor_edges plan successors = map (\<lambda>successor. (successor,
     case find (\<lambda>listed. ps_task_id listed = successor) (plan_successors plan) of
       Some listed \<Rightarrow> ps_needs listed | None \<Rightarrow> child_ids plan)) successors"

datatype WaitNode = Task TaskId | Goal GoalId

type_synonym wait_graph = "(WaitNode \<times> WaitNode list) list"

text \<open>An edge joins the graph, its vertex made when it is not there.\<close>

definition add_wait :: "WaitNode \<Rightarrow> WaitNode list \<Rightarrow> wait_graph \<Rightarrow> wait_graph" where
  "add_wait node needs graph = AList.update node (push_new (waits_of graph node) needs) graph"

definition with_edges :: "(TaskId \<times> TaskId list) list \<Rightarrow> wait_graph \<Rightarrow> wait_graph" where
  "with_edges edges graph =
    fold (\<lambda>(task, needs). add_wait (WaitNode.Task task) (map WaitNode.Task needs)) edges graph"

definition closes_loop :: "wait_graph \<Rightarrow> (TaskId \<times> TaskId list) list \<Rightarrow> TaskId option" where
  "closes_loop waits edges =
    (let graph = with_edges edges waits
     in find (\<lambda>task. loops_back (\<lambda>_. True) graph (WaitNode.Task task) (waits_of graph (WaitNode.Task task)) {})
          (map fst edges))"

record PlanRevision =
  rev_revision :: int
  rev_proposal_id :: ProposalId
  rev_plan :: ReplacementPlan
  rev_hash :: string
  rev_approved_at :: "int option"

record ApplyState =
  ap_operation :: ReplanOperation
  ap_generation :: int
  ap_plan :: "PlanRevision option"
  ap_proposal :: "ProposalStatus option"
  ap_task :: TaskStatus
  ap_run :: RunStatus
  ap_run_leased :: bool
  ap_children :: "(TaskId \<times> TaskStatus) list"
  ap_child_versions :: "(TaskId \<times> string) list"
  ap_approved_children :: "(TaskId \<rightharpoonup> string) option"
  ap_successors :: "(TaskId \<times> TaskStatus) list"
  ap_plan_problems :: "PlanProblem list"

datatype ApplyRecovery = Retry | Replan | Person

text \<open>The derived order, which is that of the declaration.\<close>

primrec ApplyRecovery_rank :: "ApplyRecovery \<Rightarrow> nat" where
  "ApplyRecovery_rank ApplyRecovery.Retry = 0"
| "ApplyRecovery_rank ApplyRecovery.Replan = 1"
| "ApplyRecovery_rank ApplyRecovery.Person = 2"

lemma ApplyRecovery_rank_eq [simp]: "ApplyRecovery_rank x = ApplyRecovery_rank y \<longleftrightarrow> x = y"
  by (cases x; cases y) auto

instantiation ApplyRecovery :: linorder
begin

definition less_eq_ApplyRecovery :: "ApplyRecovery \<Rightarrow> ApplyRecovery \<Rightarrow> bool" where
  "less_eq_ApplyRecovery x y \<longleftrightarrow> ApplyRecovery_rank x \<le> ApplyRecovery_rank y"

definition less_ApplyRecovery :: "ApplyRecovery \<Rightarrow> ApplyRecovery \<Rightarrow> bool" where
  "less_ApplyRecovery x y \<longleftrightarrow> ApplyRecovery_rank x < ApplyRecovery_rank y"

instance
  by standard (auto simp: less_eq_ApplyRecovery_def less_ApplyRecovery_def intro: antisym
      simp flip: ApplyRecovery_rank_eq)

end

text \<open>\<open>Iterator::max\<close>.\<close>

definition recovery_of :: "ApplyRecovery list \<Rightarrow> ApplyRecovery option" where
  "recovery_of problems = (if problems = [] then None else Some (Max (set problems)))"

definition apply_waiting :: "ReplanOperation \<Rightarrow> bool" where
  "apply_waiting op \<longleftrightarrow> op_status op \<in> {ReplanStatus.Reviewing, ReplanStatus.Applying}
    \<or> op_status op = ReplanStatus.Blocked \<and> op_return_phase op = Some ReplanStatus.Applying"

definition apply_problems :: "ApplyState \<Rightarrow> ApplyRecovery list" where
  "apply_problems st =
    (let op = ap_operation st in
     push_if (op_generation op \<noteq> ap_generation st) ApplyRecovery.Retry
     @ push_if (\<not> apply_waiting op) ApplyRecovery.Retry
     @ (case ap_plan st of
          None \<Rightarrow> [ApplyRecovery.Replan]
        | Some plan \<Rightarrow> push_if (rev_approved_at plan = None) ApplyRecovery.Replan
            @ push_if (op_proposal_id op \<noteq> Some (rev_proposal_id plan)) ApplyRecovery.Replan
            @ push_if (ap_proposal st \<noteq> Some ProposalStatus.Accepted) ApplyRecovery.Replan)
     @ map (\<lambda>_. ApplyRecovery.Replan)
         (filter (\<lambda>p. problem_code p \<noteq> NotWithPlanner) (ap_plan_problems st))
     @ push_if (ap_task st \<noteq> TaskStatus.InProgress) ApplyRecovery.Retry
     @ push_if (ap_run st \<noteq> RunStatus.NeedsSession \<or> ap_run_leased st) ApplyRecovery.Retry
     @ concat (map (\<lambda>(child, status). push_if (status \<noteq> TaskStatus.Submitted) ApplyRecovery.Replan)
         (ap_children st))
     @ (if (case ap_plan st of Some plan \<Rightarrow> rev_approved_at plan \<noteq> None | None \<Rightarrow> False)
        then (case ap_approved_children st of
            None \<Rightarrow> [ApplyRecovery.Replan]
          | Some approved \<Rightarrow> concat (map (\<lambda>(child, now). push_if (approved child \<noteq> Some now) ApplyRecovery.Replan)
              (ap_child_versions st)))
        else [])
     @ concat (map (\<lambda>(successor, status). push_if
         (\<not> status \<in> {TaskStatus.Draft, TaskStatus.Submitted, TaskStatus.Ready}) ApplyRecovery.Replan)
         (ap_successors st)))"

text \<open>The rows of the condition mappings an applied plan records.\<close>

definition mapping_rows :: "PlanMapping \<Rightarrow> ConditionMapping list" where
  "mapping_rows m =
    (if pm_disposition m = ItemDisposition.Deleted then
       [\<lparr>map_ordinal = pm_ordinal m, map_hash = pm_hash m, map_child_task_id = None,
         map_child_ordinal = None, map_disposition = ItemDisposition_as_str (pm_disposition m)\<rparr>]
     else map (\<lambda>held. \<lparr>map_ordinal = pm_ordinal m, map_hash = pm_hash m,
         map_child_task_id = Some (held_task_id held), map_child_ordinal = Some (held_ordinal held),
         map_disposition = ItemDisposition_as_str (pm_disposition m)\<rparr>) (pm_children m))"

definition mappings_of :: "ReplacementPlan \<Rightarrow> ConditionMapping list" where
  "mappings_of plan = concat (map mapping_rows (plan_mappings plan))"

section \<open>What an accepted plan is\<close>

definition plan_current :: "ReplacementPlan \<Rightarrow> PlanContext \<Rightarrow> bool" where
  "plan_current plan ctx \<longleftrightarrow>
    (let op = ctx_operation ctx in
     plan_operation_id plan = op_id op \<and> ReplanStatus_hands_to_planner (op_status op)
     \<and> plan_task_version plan = op_task_version op \<and> ctx_task_version_now ctx = op_task_version op
     \<and> plan_goal_acceptance_version plan = op_goal_acceptance_version op
     \<and> ctx_goal_acceptance_version_now ctx = op_goal_acceptance_version op
     \<and> \<not> blank (plan_rationale plan))"

text \<open>The children are the tasks of the proposal, pending tasks of the replaced task's goal.\<close>

definition children_pending :: "ReplacementPlan \<Rightarrow> PlanContext \<Rightarrow> bool" where
  "children_pending plan ctx \<longleftrightarrow>
    child_ids plan \<noteq> [] \<and> set (child_ids plan) = set (ctx_members ctx)
    \<and> op_task_id (ctx_operation ctx) \<notin> set (child_ids plan)
    \<and> (\<forall>child \<in> set (child_ids plan). \<exists>task. ctx_tasks ctx child = Some task
        \<and> pt_goal_id task = op_goal_id (ctx_operation ctx)
        \<and> pt_status task \<in> {TaskStatus.Draft, TaskStatus.Submitted})"

text \<open>A mapping that is right for the item it names: deleted by a person's answer with the item's
  token, or held by items of children.\<close>

definition mapping_right :: "PlanContext \<Rightarrow> TaskId set \<Rightarrow> AcceptanceItem \<Rightarrow> PlanMapping \<Rightarrow> bool" where
  "mapping_right ctx children item m \<longleftrightarrow> item_hash item = pm_hash m \<and>
    (if pm_disposition m = ItemDisposition.Deleted then
       pm_children m = [] \<and> (\<exists>ask authority. pm_authority_ask_id m = Some ask
         \<and> ctx_authorities ctx ask = Some authority
         \<and> da_about_operation authority \<and> da_scope authority \<and> da_answered_by_person authority
         \<and> trim (da_answer authority) = deletion_token item
         \<and> deletion_token item \<in> set (da_options authority))
     else
       pm_children m \<noteq> []
       \<and> (\<forall>held \<in> set (pm_children m). held_task_id held \<in> children
           \<and> (\<exists>task. ctx_tasks ctx (held_task_id held) = Some task
               \<and> held_ordinal held \<in> item_ordinal ` set (pt_acceptance task)))
       \<and> (pm_disposition m = ItemDisposition.Landed \<longrightarrow>
           (\<exists>landed task. pm_landed_task_id m = Some landed \<and> landed \<noteq> op_task_id (ctx_operation ctx)
             \<and> ctx_tasks ctx landed = Some task \<and> pt_status task = TaskStatus.Completed)))"

text \<open>Every item is mapped once, rightly, and every child holds one.\<close>

definition items_covered :: "ReplacementPlan \<Rightarrow> PlanContext \<Rightarrow> bool" where
  "items_covered plan ctx \<longleftrightarrow>
    distinct (map pm_ordinal (plan_mappings plan))
    \<and> pm_ordinal ` set (plan_mappings plan)
      = item_ordinal ` set (oc_acceptance (op_conditions (ctx_operation ctx)))
    \<and> (\<forall>m \<in> set (plan_mappings plan). \<exists>item. plan_items ctx (pm_ordinal m) = Some item
        \<and> mapping_right ctx (set (child_ids plan)) item m)
    \<and> (\<forall>child \<in> set (child_ids plan).
        \<exists>m \<in> set (plan_mappings plan). child \<in> held_task_id ` set (pm_children m))"

definition checks_kept :: "ReplacementPlan \<Rightarrow> PlanContext \<Rightarrow> bool" where
  "checks_kept plan ctx \<longleftrightarrow>
    (let conditions = op_conditions (ctx_operation ctx) in
     (\<forall>check \<in> set (oc_evidence conditions). \<exists>child \<in> set (child_ids plan). \<exists>task.
        ctx_tasks ctx child = Some task \<and> check \<in> set (pt_evidence task))
     \<and> (\<forall>child \<in> set (child_ids plan). \<forall>task. ctx_tasks ctx child = Some task \<longrightarrow>
        set (oc_verify conditions) \<subseteq> set (pt_verify task) \<and> pt_verify task \<noteq> []
        \<and> (oc_paths conditions \<noteq> [] \<longrightarrow> pt_paths task \<noteq> [])))"

text \<open>Each child once; each saved part to one child at most; an order of their own for the takers.\<close>

definition carry_clear :: "ReplacementPlan \<Rightarrow> bool" where
  "carry_clear plan \<longleftrightarrow>
    distinct (child_ids plan)
    \<and> (\<forall>source \<in> {CarrySource.SnapshotDiff, CarrySource.SnapshotHead}. length (takers plan source) \<le> 1)
    \<and> None \<notin> set (map child_order (taking plan)) \<and> distinct (map child_order (taking plan))"

definition child_waits :: "ReplacementPlan \<Rightarrow> PlanContext \<Rightarrow> (TaskId \<times> TaskId) set" where
  "child_waits plan ctx = {(x, y). x \<in> set (child_ids plan) \<and> y \<in> set (waits_in ctx x)}"

definition dependencies_sound :: "ReplacementPlan \<Rightarrow> PlanContext \<Rightarrow> bool" where
  "dependencies_sound plan ctx \<longleftrightarrow>
    (let op = ctx_operation ctx in
     (\<forall>child \<in> set (child_ids plan). \<forall>task. ctx_tasks ctx child = Some task \<longrightarrow>
        (\<forall>p \<in> set (oc_predecessors (op_conditions op)).
           task_ended ctx p \<or> p \<in> set (pt_depends_on task))
        \<and> set (pt_depends_on task) \<inter> insert (op_task_id op) (ctx_downstream ctx) = {})
     \<and> acyclic (child_waits plan ctx))"

definition successors_mapped :: "ReplacementPlan \<Rightarrow> PlanContext \<Rightarrow> bool" where
  "successors_mapped plan ctx \<longleftrightarrow>
    distinct (map ps_task_id (plan_successors plan))
    \<and> ps_task_id ` set (plan_successors plan) = set (oc_successors (op_conditions (ctx_operation ctx)))
    \<and> (\<forall>s \<in> set (plan_successors plan).
        ps_needs s \<noteq> [] \<and> set (ps_needs s) \<subseteq> set (child_ids plan)
        \<and> (set (ps_needs s) = set (child_ids plan) \<or> reason_given (ps_reason s))
        \<and> (\<forall>task. ctx_tasks ctx (ps_task_id s) = Some task \<longrightarrow> pt_status task \<noteq> TaskStatus.InProgress))"

section \<open>Lemmas: the search\<close>

definition entered :: "('n \<Rightarrow> bool) \<Rightarrow> ('n \<times> 'n list) list \<Rightarrow> ('n \<times> 'n) set" where
  "entered enter graph = {(x, y). enter x \<and> y \<in> set (waits_of graph x)}"

text \<open>What the search leaves out without looking further: it is neither entered nor the start.\<close>

abbreviation left_out :: "('n \<Rightarrow> bool) \<Rightarrow> 'n \<Rightarrow> 'n set" where
  "left_out enter start \<equiv> {z. \<not> enter z \<and> z \<noteq> start}"

lemma left_out_no_path:
  "(z, start) \<in> (entered enter graph)\<^sup>* \<Longrightarrow> z \<notin> left_out enter start"
  by (induction rule: converse_rtrancl_induct) (auto simp: entered_def)

lemma seen_leads_to_stack:
  assumes "(x, start) \<in> (entered enter graph)\<^sup>*" and "x \<in> seen" "start \<notin> seen"
    and "\<forall>x \<in> seen. entered enter graph `` {x} \<subseteq> seen \<union> S \<union> left_out enter start"
  shows "\<exists>s \<in> S. (s, start) \<in> (entered enter graph)\<^sup>*"
  using assms
proof (induction rule: converse_rtrancl_induct)
  case (step y z)
  have "z \<notin> left_out enter start" using left_out_no_path [OF step.hyps(2)] .
  then have "z \<in> seen \<union> S" using step.hyps(1) step.prems by blast
  then show ?case using step by blast
qed simp

lemma loops_back_iff:
  assumes "start \<notin> seen"
    and "\<forall>x \<in> seen. entered enter graph `` {x} \<subseteq> seen \<union> set stack \<union> left_out enter start"
  shows "loops_back enter graph start stack seen
    \<longleftrightarrow> (\<exists>s \<in> set stack. (s, start) \<in> (entered enter graph)\<^sup>*)"
  using assms
proof (induction enter graph start stack seen rule: loops_back.induct)
  case (1 enter graph start stack seen)
  let ?E = "entered enter graph"
  show ?case
  proof (cases "stack = []")
    case False
    then obtain rest x where stack: "stack = rest @ [x]" by (cases stack rule: rev_cases) auto
    consider "x = start" | "x \<noteq> start" "enter x" "x \<notin> seen" | "x \<noteq> start" "\<not> (enter x \<and> x \<notin> seen)"
      by blast
    then show ?thesis
    proof cases
      case 1
      then show ?thesis by (subst loops_back.simps) (auto simp: stack)
    next
      case 2
      have succ: "?E `` {x} = set (waits_of graph x)" using 2 by (auto simp: entered_def)
      have "\<forall>y \<in> insert x seen. ?E `` {y}
          \<subseteq> insert x seen \<union> set (rest @ waits_of graph x) \<union> left_out enter start"
        using "1.prems"(2) succ by (auto simp: stack)
      moreover have "start \<notin> insert x seen" using 2 "1.prems"(1) by auto
      ultimately have "loops_back enter graph start (rest @ waits_of graph x) (insert x seen)
        \<longleftrightarrow> (\<exists>s \<in> set (rest @ waits_of graph x). (s, start) \<in> ?E\<^sup>*)"
        using "1.IH"(1) False 2 by (simp add: stack)
      moreover have "(x, start) \<in> ?E\<^sup>* \<longleftrightarrow> (\<exists>s \<in> set (waits_of graph x). (s, start) \<in> ?E\<^sup>*)"
        using 2(1) succ by (metis Image_singleton_iff converse_rtranclE converse_rtrancl_into_rtrancl)
      ultimately show ?thesis using 2 by (subst loops_back.simps) (auto simp: stack)
    next
      case 3
      then have out: "x \<in> seen \<or> x \<in> left_out enter start" by auto
      have closed: "\<forall>y \<in> seen. ?E `` {y} \<subseteq> seen \<union> set rest \<union> left_out enter start"
        using "1.prems"(2) 3 by (auto simp: stack)
      have "\<exists>s \<in> set rest. (s, start) \<in> ?E\<^sup>*" if path: "(x, start) \<in> ?E\<^sup>*"
        using out left_out_no_path [OF path] seen_leads_to_stack [OF path _ "1.prems"(1) closed] by blast
      moreover have "loops_back enter graph start rest seen
        \<longleftrightarrow> (\<exists>s \<in> set rest. (s, start) \<in> ?E\<^sup>*)"
        using "1.IH"(2) False 3 "1.prems"(1) closed by (simp add: stack)
      ultimately show ?thesis using 3 by (subst loops_back.simps) (auto simp: stack)
    qed
  qed (simp add: loops_back.simps)
qed

text \<open>Started from what \<open>start\<close> waits for, the search tells whether it waits for itself.\<close>

lemma loops_back_trancl:
  assumes "enter start"
  shows "loops_back enter graph start (waits_of graph start) {} \<longleftrightarrow> (start, start) \<in> (entered enter graph)\<^sup>+"
proof -
  have "(start, start) \<in> (entered enter graph)\<^sup>+
    \<longleftrightarrow> (\<exists>s \<in> set (waits_of graph start). (s, start) \<in> (entered enter graph)\<^sup>*)"
    using assms by (auto simp: entered_def trancl_unfold_left)
  then show ?thesis by (simp add: loops_back_iff)
qed


section \<open>Lemmas: the rules\<close>

lemma push_if_Nil [simp]: "push_if c x = [] \<longleftrightarrow> \<not> c"
  by (simp add: push_if_def)

lemma concat_push_if_Nil [simp]: "concat (map (\<lambda>x. push_if (P x) (f x)) xs) = [] \<longleftrightarrow> (\<forall>x \<in> set xs. \<not> P x)"
  by auto

lemma plan_items_dom: "dom (plan_items ctx) = item_ordinal ` set (oc_acceptance (op_conditions (ctx_operation ctx)))"
  by (simp add: plan_items_def dom_map_of_conv_image_fst image_image)

lemma deletion_authorized_iff:
  "deletion_authorized ctx item m \<longleftrightarrow> (\<exists>ask authority. pm_authority_ask_id m = Some ask
     \<and> ctx_authorities ctx ask = Some authority
     \<and> da_about_operation authority \<and> da_scope authority \<and> da_answered_by_person authority
     \<and> trim (da_answer authority) = deletion_token item \<and> deletion_token item \<in> set (da_options authority))"
  by (cases "pm_authority_ask_id m")
    (auto simp: deletion_authorized_def approves_deletion_def Let_def split: option.splits)

lemma landed_proven_iff:
  "landed_proven ctx m \<longleftrightarrow> (\<exists>landed task. pm_landed_task_id m = Some landed
     \<and> landed \<noteq> op_task_id (ctx_operation ctx) \<and> ctx_tasks ctx landed = Some task
     \<and> pt_status task = TaskStatus.Completed)"
  by (cases "pm_landed_task_id m") (auto simp: landed_proven_def option_filter_def split: option.splits)

lemma child_item_exists_iff:
  "child_item_exists ctx C held \<longleftrightarrow> held_task_id held \<in> C
    \<and> (\<exists>task. ctx_tasks ctx (held_task_id held) = Some task
        \<and> held_ordinal held \<in> item_ordinal ` set (pt_acceptance task))"
  by (auto simp: child_item_exists_def list_ex_iff intro: rev_image_eqI split: option.splits)

lemma check_mapping_Nil:
  "check_mapping ctx C item m = [] \<and> item_hash item = pm_hash m \<longleftrightarrow> mapping_right ctx C item m"
  by (auto simp: check_mapping_def mapping_right_def deletion_authorized_iff landed_proven_iff
      child_item_exists_iff)

lemma item_loop_Nil:
  "fst (item_loop ctx C seen holding ms) = [] \<longleftrightarrow>
    distinct (map pm_ordinal ms) \<and> pm_ordinal ` set ms \<inter> seen = {}
    \<and> (\<forall>m \<in> set ms. \<exists>item. plan_items ctx (pm_ordinal m) = Some item \<and> mapping_right ctx C item m)"
proof (induction ms arbitrary: seen holding)
  case (Cons m ms)
  show ?case
  proof (cases "plan_items ctx (pm_ordinal m)")
    case None
    then show ?thesis by (simp add: split_def Let_def)
  next
    case (Some item)
    then show ?thesis
      using Cons.IH [of "insert (pm_ordinal m) seen" "holding \<union> held_task_id ` set (pm_children m)"]
        check_mapping_Nil [of ctx C item m]
      by (cases "pm_ordinal m \<in> seen") (auto simp: split_def Let_def)
  qed
qed simp

lemma item_loop_sets:
  "fst (item_loop ctx C seen holding ms) = [] \<Longrightarrow> snd (item_loop ctx C seen holding ms) =
    (seen \<union> pm_ordinal ` set ms, holding \<union> (\<Union>m \<in> set ms. held_task_id ` set (pm_children m)))"
proof (induction ms arbitrary: seen holding)
  case (Cons m ms)
  then obtain item where "plan_items ctx (pm_ordinal m) = Some item" "pm_ordinal m \<notin> seen"
    by (auto simp: item_loop_Nil simp del: item_loop.simps)
  with Cons show ?case by (auto simp: split_def Let_def)
qed simp

lemma check_items_Nil:
  assumes "set children = set (child_ids plan)"
  shows "check_items plan ctx children = [] \<longleftrightarrow> items_covered plan ctx"
proof -
  let ?loop = "item_loop ctx (set children) {} {} (plan_mappings plan)"
  let ?items = "item_ordinal ` set (oc_acceptance (op_conditions (ctx_operation ctx)))"
  let ?mapped = "pm_ordinal ` set (plan_mappings plan)"
  let ?held = "\<Union>m \<in> set (plan_mappings plan). held_task_id ` set (pm_children m)"
  have "check_items plan ctx children = [] \<longleftrightarrow> fst ?loop = []
      \<and> ?items \<subseteq> fst (snd ?loop) \<and> set children \<subseteq> snd (snd ?loop)"
    by (auto simp: check_items_def split_def Let_def)
  also have "\<dots> \<longleftrightarrow> fst ?loop = [] \<and> ?items \<subseteq> ?mapped \<and> set children \<subseteq> ?held"
  proof (cases "fst ?loop = []")
    case True
    have sets: "snd ?loop = (?mapped, ?held)"
      using item_loop_sets [OF True] by (simp only: Un_empty_left)
    show ?thesis by (simp only: sets fst_conv snd_conv)
  qed (simp only: simp_thms)
  also have "\<dots> \<longleftrightarrow> items_covered plan ctx"
  proof -
    have "?mapped \<subseteq> dom (plan_items ctx)" if "fst ?loop = []"
    proof
      fix ordinal assume "ordinal \<in> ?mapped"
      then obtain m where "m \<in> set (plan_mappings plan)" "ordinal = pm_ordinal m" by blast
      then show "ordinal \<in> dom (plan_items ctx)" using that unfolding item_loop_Nil by blast
    qed
    then have "?mapped \<subseteq> ?items" if "fst ?loop = []" using that by (simp only: plan_items_dom)
    moreover have "set children \<subseteq> ?held \<longleftrightarrow> (\<forall>child \<in> set (child_ids plan).
        \<exists>m \<in> set (plan_mappings plan). child \<in> held_task_id ` set (pm_children m))"
      using assms by blast
    ultimately show ?thesis
      unfolding items_covered_def item_loop_Nil assms by blast
  qed
  finally show ?thesis .
qed

lemma set_known: "task \<in> set (List.map_filter f xs) \<longleftrightarrow> (\<exists>x \<in> set xs. f x = Some task)"
  by (induction xs) (auto simp: List.map_filter_simps split: option.splits)

lemma check_checks_Nil:
  assumes "set children = set (child_ids plan)"
  shows "check_checks ctx children = [] \<longleftrightarrow> checks_kept plan ctx"
proof -
  have "(case ctx_tasks ctx child of None \<Rightarrow> [] | Some task \<Rightarrow>
      concat (map (\<lambda>command. push_if (command \<notin> set (pt_verify task))
        (problem VerificationWeakened (Some child))) verify)
      @ push_if (pt_verify task = []) (problem VerificationWeakened (Some child))
      @ push_if (paths \<noteq> [] \<and> pt_paths task = []) (problem PathsMissing (Some child))) = []
    \<longleftrightarrow> (\<forall>task. ctx_tasks ctx child = Some task \<longrightarrow>
        set verify \<subseteq> set (pt_verify task) \<and> pt_verify task \<noteq> [] \<and> (paths \<noteq> [] \<longrightarrow> pt_paths task \<noteq> []))"
    for child verify and paths :: "string list"
    by (auto split: option.splits)
  moreover have "list_ex (\<lambda>task. check \<in> set (pt_evidence task)) (List.map_filter (ctx_tasks ctx) children)
      \<longleftrightarrow> (\<exists>child \<in> set (child_ids plan). \<exists>task. ctx_tasks ctx child = Some task
          \<and> check \<in> set (pt_evidence task))" for check
    unfolding list_ex_iff Bex_def set_known assms [symmetric] by blast
  ultimately show ?thesis
    unfolding check_checks_def checks_kept_def Let_def append_is_Nil_conv concat_push_if_Nil
      concat_eq_Nil_conv set_map ball_simps assms
    by simp
qed

lemma order_loop_Nil:
  "order_loop orders cs = [] \<longleftrightarrow> None \<notin> set (map child_order cs) \<and> distinct (map child_order cs)
    \<and> Some ` orders \<inter> set (map child_order cs) = {}"
  by (induction orders cs rule: order_loop.induct) (auto split: option.splits)

lemma named_loop_Nil:
  "named_loop named cs = [] \<longleftrightarrow> distinct (map child_task_id cs) \<and> named \<inter> child_task_id ` set cs = {}"
  by (induction named cs rule: named_loop.induct) auto

lemma taken_twice_Nil [simp]: "taken_twice xs = [] \<longleftrightarrow> length xs \<le> 1"
  by (cases xs rule: taken_twice.cases) auto

lemma check_carry_Nil: "check_carry plan = [] \<longleftrightarrow> carry_clear plan"
  by (auto simp: check_carry_def carry_clear_def order_loop_Nil named_loop_Nil child_ids_def)

lemma child_search:
  assumes "start \<in> set children"
  shows "loops_back (\<lambda>next. next \<in> set children) (map (\<lambda>c. (c, waits_in ctx c)) children) start
      (waits_in ctx start) {}
    \<longleftrightarrow> (start, start) \<in> {(x, y). x \<in> set children \<and> y \<in> set (waits_in ctx x)}\<^sup>+"
proof -
  let ?graph = "map (\<lambda>c. (c, waits_in ctx c)) children"
  have waits: "waits_of ?graph x = (if x \<in> set children then waits_in ctx x else [])" for x
    by (simp add: waits_of_def map_of_map_restrict)
  have "loops_back (\<lambda>next. next \<in> set children) ?graph start (waits_of ?graph start) {}
    \<longleftrightarrow> (start, start) \<in> (entered (\<lambda>next. next \<in> set children) ?graph)\<^sup>+"
    using assms by (rule loops_back_trancl)
  moreover have "entered (\<lambda>next. next \<in> set children) ?graph
    = {(x, y). x \<in> set children \<and> y \<in> set (waits_in ctx x)}"
    by (auto simp: entered_def waits)
  ultimately show ?thesis using assms by (simp add: waits)
qed

lemma trancl_source: "(x, y) \<in> r\<^sup>+ \<Longrightarrow> \<exists>z. (x, z) \<in> r"
  by (induction rule: trancl_induct) auto

lemma check_dependencies_Nil:
  assumes children: "set children = set (child_ids plan)"
  shows "check_dependencies ctx children = [] \<longleftrightarrow> dependencies_sound plan ctx"
proof -
  let ?E = "{(x, y). x \<in> set children \<and> y \<in> set (waits_in ctx x)}"
  have acyclic: "(\<forall>start \<in> set children. (start, start) \<notin> ?E\<^sup>+) \<longleftrightarrow> acyclic (child_waits plan ctx)"
    using trancl_source [of _ _ ?E] unfolding acyclic_def child_waits_def children by blast
  have "(case ctx_tasks ctx child of None \<Rightarrow> [] | Some task \<Rightarrow>
      concat (map (\<lambda>predecessor. push_if
          (\<not> task_ended ctx predecessor \<and> predecessor \<notin> set (pt_depends_on task))
          (problem PredecessorDropped (Some child))) predecessors)
      @ concat (map (\<lambda>on. push_if (on = i \<or> on \<in> D)
          (problem PlanProblemCode.DependencyCycle (Some child))) (pt_depends_on task))) = []
    \<longleftrightarrow> (\<forall>task. ctx_tasks ctx child = Some task \<longrightarrow>
        (\<forall>p \<in> set predecessors. task_ended ctx p \<or> p \<in> set (pt_depends_on task))
        \<and> set (pt_depends_on task) \<inter> insert i D = {})" for child predecessors i D
    by (auto split: option.splits)
  then show ?thesis
    unfolding check_dependencies_def dependencies_sound_def Let_def append_is_Nil_conv
      concat_push_if_Nil concat_eq_Nil_conv set_map ball_simps acyclic [symmetric] children [symmetric]
    using child_search [of _ children ctx] by simp
qed

lemma successor_loop_Nil:
  assumes "finite C"
  shows "fst (successor_loop ctx C original listed ss) = [] \<longleftrightarrow>
    distinct (map ps_task_id ss) \<and> ps_task_id ` set ss \<inter> listed = {} \<and> ps_task_id ` set ss \<subseteq> original
    \<and> (\<forall>s \<in> set ss. ps_needs s \<noteq> [] \<and> set (ps_needs s) \<subseteq> C \<and> (set (ps_needs s) = C \<or> reason_given (ps_reason s))
        \<and> (\<forall>task. ctx_tasks ctx (ps_task_id s) = Some task \<longrightarrow> pt_status task \<noteq> TaskStatus.InProgress))"
proof (induction ss arbitrary: listed)
  case (Cons s ss)
  have needs: "set (ps_needs s) \<subseteq> C \<Longrightarrow> card (set (ps_needs s)) < card C \<longleftrightarrow> set (ps_needs s) \<noteq> C"
    using assms by (metis card_subset_eq nat_neq_iff psubsetI psubset_card_mono)
  have started: "\<not> t \<in> {TaskStatus.Draft, TaskStatus.Submitted, TaskStatus.Ready}
      \<and> \<not> TaskStatus_is_terminal t \<longleftrightarrow> t = TaskStatus.InProgress" for t
    by (cases t) (auto simp: TaskStatus_is_terminal_def)
  show ?case
    using Cons.IH [of "insert (ps_task_id s) listed"] needs
    by (auto simp: split_def Let_def started simp del: insert_iff split: option.splits)
qed simp

lemma successor_loop_listed:
  "fst (successor_loop ctx C original listed ss) = [] \<Longrightarrow>
    snd (successor_loop ctx C original listed ss) = listed \<union> ps_task_id ` set ss"
  by (induction ss arbitrary: listed) (auto simp: split_def Let_def split: if_splits)

lemma check_successors_Nil:
  assumes "set children = set (child_ids plan)"
  shows "check_successors plan ctx children = [] \<longleftrightarrow> successors_mapped plan ctx"
proof -
  let ?original = "set (oc_successors (op_conditions (ctx_operation ctx)))"
  let ?loop = "successor_loop ctx (set children) ?original {} (plan_successors plan)"
  have "check_successors plan ctx children = [] \<longleftrightarrow> fst ?loop = [] \<and> ?original - snd ?loop = {}"
    by (simp add: check_successors_def split_def Let_def)
  also have "\<dots> \<longleftrightarrow> fst ?loop = [] \<and> ?original \<subseteq> ps_task_id ` set (plan_successors plan)"
    using successor_loop_listed [of ctx "set children" ?original "{}" "plan_successors plan"]
    by (cases "fst ?loop = []") auto
  also have "\<dots> \<longleftrightarrow> successors_mapped plan ctx"
    unfolding successors_mapped_def using assms by (auto simp: successor_loop_Nil)
  finally show ?thesis .
qed

lemma check_child_Nil:
  "check_child ctx child = [] \<longleftrightarrow> child \<noteq> op_task_id (ctx_operation ctx) \<and> child \<in> set (ctx_members ctx)
    \<and> (\<exists>task. ctx_tasks ctx child = Some task \<and> pt_goal_id task = op_goal_id (ctx_operation ctx)
        \<and> pt_status task \<in> {TaskStatus.Draft, TaskStatus.Submitted})"
  by (auto simp: check_child_def Let_def split: option.splits)

lemma check_plan_Nil:
  "check_plan plan ctx = [] \<longleftrightarrow> plan_current plan ctx \<and> children_pending plan ctx
    \<and> items_covered plan ctx \<and> checks_kept plan ctx \<and> carry_clear plan
    \<and> dependencies_sound plan ctx \<and> successors_mapped plan ctx"
proof -
  let ?children = "sorted_list_of_set (set (child_ids plan))"
  have set_children: "set ?children = set (child_ids plan)" by simp
  have "concat (map (check_child ctx) ?children) = []
      \<and> concat (map (\<lambda>member. push_if (member \<notin> set ?children) (problem MemberNotChild (Some member)))
          (ctx_members ctx)) = [] \<and> ?children \<noteq> []
    \<longleftrightarrow> children_pending plan ctx"
    unfolding concat_push_if_Nil concat_eq_Nil_conv set_map ball_simps check_child_Nil set_children
    by (auto simp: children_pending_def)
  then show ?thesis
    unfolding check_plan_def Let_def append_is_Nil_conv push_if_Nil
      check_items_Nil [OF set_children] check_checks_Nil [OF set_children] check_carry_Nil
      check_dependencies_Nil [OF set_children] check_successors_Nil [OF set_children] plan_current_def
    by blast
qed

section \<open>Lemmas: loops of the wait graph\<close>

definition waits_rel :: "wait_graph \<Rightarrow> (WaitNode \<times> WaitNode) set" where
  "waits_rel graph = {(x, y). y \<in> set (waits_of graph x)}"

text \<open>The edges a list of new waits stands for.\<close>

definition edges_rel :: "(TaskId \<times> TaskId list) list \<Rightarrow> (WaitNode \<times> WaitNode) set" where
  "edges_rel edges = {(WaitNode.Task t, WaitNode.Task c) | t c. \<exists>needs. (t, needs) \<in> set edges \<and> c \<in> set needs}"

lemma entered_all: "entered (\<lambda>_. True) graph = waits_rel graph"
  by (simp add: entered_def waits_rel_def)

lemma waits_of_add_wait:
  "set (waits_of (add_wait node needs graph) x)
    = set (waits_of graph x) \<union> (if x = node then set needs else {})"
proof (cases "x = node")
  case True
  then have "waits_of (add_wait node needs graph) x = push_new (waits_of graph node) needs"
    by (simp add: add_wait_def waits_of_def AList.update_conv')
  then show ?thesis using True by (simp add: set_push_new)
next
  case False
  then have "waits_of (add_wait node needs graph) x = waits_of graph x"
    by (simp add: add_wait_def waits_of_def AList.update_conv')
  then show ?thesis using False by simp
qed

lemma waits_rel_with_edges: "waits_rel (with_edges edges graph) = waits_rel graph \<union> edges_rel edges"
proof (induction edges arbitrary: graph)
  case Nil
  then show ?case by (simp add: with_edges_def edges_rel_def)
next
  case (Cons e edges)
  obtain t needs where e: "e = (t, needs)" by (cases e)
  have "waits_rel (add_wait (WaitNode.Task t) (map WaitNode.Task needs) graph)
      = waits_rel graph \<union> {(WaitNode.Task t, WaitNode.Task c) | c. c \<in> set needs}"
    by (auto simp: waits_rel_def waits_of_add_wait split: if_splits)
  moreover have "edges_rel ((t, needs) # edges)
      = {(WaitNode.Task t, WaitNode.Task c) | c. c \<in> set needs} \<union> edges_rel edges"
    by (auto simp: edges_rel_def)
  moreover have "with_edges ((t, needs) # edges) graph
      = with_edges edges (add_wait (WaitNode.Task t) (map WaitNode.Task needs) graph)"
    by (simp add: with_edges_def)
  ultimately show ?case using Cons.IH by (auto simp: e)
qed

lemma closes_loop_None:
  "closes_loop waits edges = None \<longleftrightarrow>
    (\<forall>t \<in> fst ` set edges. (WaitNode.Task t, WaitNode.Task t) \<notin> (waits_rel waits \<union> edges_rel edges)\<^sup>+)"
  by (auto simp: closes_loop_def Let_def find_None_iff loops_back_trancl entered_all waits_rel_with_edges)

lemma closes_loop_Some:
  "closes_loop waits edges = Some t \<Longrightarrow> t \<in> fst ` set edges
    \<and> (WaitNode.Task t, WaitNode.Task t) \<in> (waits_rel waits \<union> edges_rel edges)\<^sup>+"
  unfolding closes_loop_def Let_def
  by (drule find_Some_in) (auto simp: loops_back_trancl entered_all waits_rel_with_edges)

text \<open>New edges make no loop when none of their sources is in one.\<close>

lemma trancl_avoids:
  assumes "(x, y) \<in> (r \<union> s)\<^sup>+"
  shows "(x, y) \<in> r\<^sup>+ \<or> (\<exists>u \<in> fst ` s. (x, u) \<in> (r \<union> s)\<^sup>* \<and> (u, y) \<in> (r \<union> s)\<^sup>+)"
  using assms
proof (induction rule: trancl_induct)
  case (base y)
  show ?case
  proof (cases "(x, y) \<in> r")
    case False
    then have "x \<in> fst ` s" "(x, y) \<in> (r \<union> s)\<^sup>+" using base by force+
    then show ?thesis by blast
  qed auto
next
  case (step y z)
  show ?case
  proof (cases "\<exists>u \<in> fst ` s. (x, u) \<in> (r \<union> s)\<^sup>* \<and> (u, y) \<in> (r \<union> s)\<^sup>+")
    case True
    then show ?thesis using step.hyps(2) by (meson trancl_into_trancl)
  next
    case False
    then have "(x, y) \<in> r\<^sup>+" using step.IH by blast
    show ?thesis
    proof (cases "(y, z) \<in> r")
      case True
      then show ?thesis using \<open>(x, y) \<in> r\<^sup>+\<close> by auto
    next
      case False
      then have "y \<in> fst ` s" "(y, z) \<in> (r \<union> s)\<^sup>+" using step.hyps(2) by force+
      moreover have "(x, y) \<in> (r \<union> s)\<^sup>*" using step.hyps(1) by auto
      ultimately show ?thesis by blast
    qed
  qed
qed

lemma acyclic_closes_loop:
  assumes "acyclic (waits_rel waits)"
  shows "closes_loop waits edges = None \<longleftrightarrow> acyclic (waits_rel waits \<union> edges_rel edges)"
proof
  let ?r = "waits_rel waits" and ?s = "edges_rel edges"
  assume none: "closes_loop waits edges = None"
  show "acyclic (?r \<union> ?s)"
    unfolding acyclic_def
  proof (intro allI notI)
    fix x assume loop: "(x, x) \<in> (?r \<union> ?s)\<^sup>+"
    moreover have "(x, x) \<notin> ?r\<^sup>+" using assms by (simp add: acyclic_def)
    ultimately obtain u where "u \<in> fst ` ?s" "(x, u) \<in> (?r \<union> ?s)\<^sup>*" "(u, x) \<in> (?r \<union> ?s)\<^sup>+"
      using trancl_avoids [of x x ?r ?s] by blast
    then have "(u, u) \<in> (?r \<union> ?s)\<^sup>+" by simp
    moreover obtain t where "u = WaitNode.Task t" "t \<in> fst ` set edges"
      using \<open>u \<in> fst ` ?s\<close> by (force simp: edges_rel_def)
    ultimately show False using none unfolding closes_loop_None by blast
  qed
qed (simp add: closes_loop_None acyclic_def)

section \<open>Lemmas: the apply\<close>

definition approved_plan_holds :: "ApplyState \<Rightarrow> bool" where
  "approved_plan_holds st \<longleftrightarrow>
    (\<exists>plan. ap_plan st = Some plan \<and> rev_approved_at plan \<noteq> None
      \<and> op_proposal_id (ap_operation st) = Some (rev_proposal_id plan))
    \<and> ap_proposal st = Some ProposalStatus.Accepted
    \<and> problem_code ` set (ap_plan_problems st) \<subseteq> {NotWithPlanner}
    \<and> snd ` set (ap_children st) \<subseteq> {TaskStatus.Submitted}
    \<and> (\<exists>approved. ap_approved_children st = Some approved
        \<and> (\<forall>(child, now) \<in> set (ap_child_versions st). approved child = Some now))
    \<and> snd ` set (ap_successors st) \<subseteq> {TaskStatus.Draft, TaskStatus.Submitted, TaskStatus.Ready}"

definition queue_at_rest :: "ApplyState \<Rightarrow> bool" where
  "queue_at_rest st \<longleftrightarrow> op_generation (ap_operation st) = ap_generation st
    \<and> apply_waiting (ap_operation st) \<and> ap_task st = TaskStatus.InProgress
    \<and> ap_run st = RunStatus.NeedsSession \<and> \<not> ap_run_leased st"

lemma set_push_if [simp]: "x \<in> set (push_if c y) \<longleftrightarrow> c \<and> x = y"
  by (auto simp: push_if_def)

lemma set_push_pairs [simp]:
  "x \<in> set (concat (map (\<lambda>(a, b). push_if (P a b) y) xs)) \<longleftrightarrow> x = y \<and> (\<exists>(a, b) \<in> set xs. P a b)"
  by (induction xs) auto

lemma no_person_recovery: "ApplyRecovery.Person \<notin> set (apply_problems st)"
  by (auto simp: apply_problems_def Let_def split: option.splits if_splits)

lemma retry_recovery: "ApplyRecovery.Retry \<in> set (apply_problems st) \<longleftrightarrow> \<not> queue_at_rest st"
  by (auto simp: apply_problems_def queue_at_rest_def Let_def split: option.splits if_splits)

lemma replan_recovery: "ApplyRecovery.Replan \<in> set (apply_problems st) \<longleftrightarrow> \<not> approved_plan_holds st"
proof -
  have status: "(\<exists>(a, b) \<in> set xs. b \<notin> A) \<longleftrightarrow> \<not> snd ` set xs \<subseteq> A"
    for xs :: "(TaskId \<times> TaskStatus) list" and A by force
  have submitted: "(\<exists>(a, b) \<in> set xs. b \<noteq> s) \<longleftrightarrow> \<not> snd ` set xs \<subseteq> {s}"
    for xs :: "(TaskId \<times> TaskStatus) list" and s by force
  have "ApplyRecovery.Replan \<in> set (map (\<lambda>_. ApplyRecovery.Replan)
      (filter (\<lambda>p. problem_code p \<noteq> NotWithPlanner) ps))
    \<longleftrightarrow> \<not> problem_code ` set ps \<subseteq> {NotWithPlanner}" for ps by auto
  then show ?thesis
    unfolding apply_problems_def approved_plan_holds_def Let_def set_append Un_iff set_push_pairs
      set_push_if status submitted
    by (cases "ap_plan st"; cases "ap_approved_children st") auto
qed

lemma recovery_of_Max:
  assumes "ApplyRecovery.Person \<notin> set ps"
  shows "recovery_of ps = (if ApplyRecovery.Replan \<in> set ps then Some ApplyRecovery.Replan
    else if ApplyRecovery.Retry \<in> set ps then Some ApplyRecovery.Retry else None)"
proof -
  have not_person: "x = ApplyRecovery.Retry \<or> x = ApplyRecovery.Replan" if "x \<in> set ps" for x
    using assms that by (cases x) auto
  consider "ApplyRecovery.Replan \<in> set ps" | "ApplyRecovery.Replan \<notin> set ps" "ApplyRecovery.Retry \<in> set ps"
    | "ps = []" using not_person by (cases ps) auto
  then show ?thesis
  proof cases
    case 1
    then have "Max (set ps) = ApplyRecovery.Replan"
      using not_person by (intro Max_eqI) (force simp: less_eq_ApplyRecovery_def)+
    with 1 show ?thesis by (auto simp: recovery_of_def)
  next
    case 2
    then have "Max (set ps) = ApplyRecovery.Retry"
      using not_person by (intro Max_eqI) (force simp: less_eq_ApplyRecovery_def)+
    with 2 show ?thesis by (auto simp: recovery_of_def)
  qed (simp add: recovery_of_def)
qed

text \<open>An example: task 7, whose two acceptance items are split between tasks 8 and 9, the second
  after the first; task 12 waits for both in its place.\<close>

definition example_conditions :: OriginalConditions where
  "example_conditions = \<lparr>oc_title = ''t'', oc_description = [],
    oc_acceptance = [\<lparr>item_ordinal = 1, item_text = ''a'', item_hash = ''ha''\<rparr>,
      \<lparr>item_ordinal = 2, item_text = ''b'', item_hash = ''hb''\<rparr>],
    oc_paths = [], oc_verify = [''make''], oc_evidence = [], oc_predecessors = [TaskId 3],
    oc_successors = [TaskId 12], oc_goal = None\<rparr>"

definition example_planned :: ReplanOperation where
  "example_planned = example_operation\<lparr>op_status := ReplanStatus.Planning,
    op_conditions := example_conditions\<rparr>"

definition example_child :: "TaskId list \<Rightarrow> PlanTask" where
  "example_child waits = \<lparr>pt_status = TaskStatus.Submitted, pt_goal_id = None,
    pt_acceptance = [\<lparr>item_ordinal = 1, item_text = ''c'', item_hash = ''hc''\<rparr>],
    pt_verify = [''make''], pt_paths = [], pt_evidence = [], pt_depends_on = waits\<rparr>"

definition example_context :: PlanContext where
  "example_context = \<lparr>ctx_operation = example_planned, ctx_task_version_now = ''v'',
    ctx_goal_acceptance_version_now = None, ctx_members = [TaskId 8, TaskId 9],
    ctx_tasks = [TaskId 8 \<mapsto> example_child [TaskId 3], TaskId 9 \<mapsto> example_child [TaskId 3, TaskId 8]],
    ctx_downstream = {TaskId 12}, ctx_authorities = Map.empty\<rparr>"

definition example_mapping :: "nat \<Rightarrow> string \<Rightarrow> int \<Rightarrow> PlanMapping" where
  "example_mapping ordinal hash child = \<lparr>pm_ordinal = ordinal, pm_hash = hash,
    pm_disposition = ItemDisposition.Split,
    pm_children = [\<lparr>held_task_id = TaskId child, held_ordinal = 1\<rparr>],
    pm_landed_task_id = None, pm_authority_ask_id = None, pm_reason = None\<rparr>"

definition example_plan :: ReplacementPlan where
  "example_plan = \<lparr>plan_operation_id = ReplanId 1, plan_task_version = ''v'',
    plan_goal_acceptance_version = None, plan_choice = PlanChoice.Split, plan_rationale = ''two parts'',
    plan_children = [\<lparr>child_task_id = TaskId 8, child_carry = CarrySource.SnapshotHead, child_order = Some 1\<rparr>,
      \<lparr>child_task_id = TaskId 9, child_carry = CarrySource.Base, child_order = None\<rparr>],
    plan_mappings = [example_mapping 1 ''ha'' 8, example_mapping 2 ''hb'' 9],
    plan_successors = [\<lparr>ps_task_id = TaskId 12, ps_needs = [TaskId 8, TaskId 9], ps_reason = None\<rparr>]\<rparr>"

lemma example_plan_accepted: "check_plan example_plan example_context = []"
  by code_simp

section \<open>Properties\<close>

text \<open>C34. A replacement plan is accepted exactly when it is complete: made on the conditions as they
  are; its children are the pending tasks of its proposal, in the replaced task's goal; each
  acceptance item is mapped once, to items of children or deleted by a person's answer with the
  item's token, and each child holds one; the verification commands and evidence are kept; no saved
  part goes to two children; each child keeps the predecessors, waits for nothing downstream and
  the children wait for one another without a loop; each successor is given children to wait for.\<close>

theorem plan_accepted_iff:
  "check_plan plan ctx = [] \<longleftrightarrow> plan_current plan ctx \<and> children_pending plan ctx
    \<and> items_covered plan ctx \<and> checks_kept plan ctx \<and> carry_clear plan
    \<and> dependencies_sound plan ctx \<and> successors_mapped plan ctx"
  by (rule check_plan_Nil)

text \<open>C35. No acceptance item of a replaced task is lost: under an accepted plan each item is either
  held by an acceptance item of a child task that is there, or deleted by an answer a person gave
  to a scope ask about the operation, which is the item's own token and was offered as an option.\<close>

theorem no_condition_is_lost:
  assumes "check_plan plan ctx = []"
    and "item \<in> set (oc_acceptance (op_conditions (ctx_operation ctx)))"
    and "plan_items ctx (item_ordinal item) = Some item"
  shows "(\<exists>m \<in> set (plan_mappings plan). pm_ordinal m = item_ordinal item \<and> pm_hash m = item_hash item
      \<and> (\<exists>held \<in> set (pm_children m). \<exists>task. held_task_id held \<in> set (child_ids plan)
          \<and> ctx_tasks ctx (held_task_id held) = Some task
          \<and> held_ordinal held \<in> item_ordinal ` set (pt_acceptance task)))
    \<or> (\<exists>authority \<in> ran (ctx_authorities ctx). da_about_operation authority \<and> da_scope authority
        \<and> da_answered_by_person authority \<and> trim (da_answer authority) = deletion_token item
        \<and> deletion_token item \<in> set (da_options authority))"
proof -
  have covered: "items_covered plan ctx" using assms(1) by (simp add: check_plan_Nil)
  then obtain m where m: "m \<in> set (plan_mappings plan)" "pm_ordinal m = item_ordinal item"
    using assms(2) unfolding items_covered_def by (metis imageE imageI)
  then have right: "mapping_right ctx (set (child_ids plan)) item m"
    using covered assms(3) unfolding items_covered_def by force
  show ?thesis
  proof (cases "pm_disposition m = ItemDisposition.Deleted")
    case True
    then show ?thesis using right by (auto simp: mapping_right_def ran_def)
  next
    case False
    with right have "\<exists>held \<in> set (pm_children m). \<exists>task. held_task_id held \<in> set (child_ids plan)
        \<and> ctx_tasks ctx (held_task_id held) = Some task
        \<and> held_ordinal held \<in> item_ordinal ` set (pt_acceptance task)" "pm_hash m = item_hash item"
      by (auto simp: mapping_right_def neq_Nil_conv)
    with m show ?thesis by blast
  qed
qed

lemma no_condition_is_lost_witness:
  "(\<exists>m \<in> set (plan_mappings example_plan). pm_ordinal m = 1 \<and> pm_hash m = ''ha''
      \<and> (\<exists>held \<in> set (pm_children m). \<exists>task. held_task_id held \<in> set (child_ids example_plan)
          \<and> ctx_tasks example_context (held_task_id held) = Some task
          \<and> held_ordinal held \<in> item_ordinal ` set (pt_acceptance task)))
    \<or> (\<exists>authority \<in> ran (ctx_authorities example_context). da_about_operation authority)"
proof -
  let ?item = "\<lparr>item_ordinal = 1, item_text = ''a'', item_hash = ''ha''\<rparr>"
  have "?item \<in> set (oc_acceptance (op_conditions (ctx_operation example_context)))"
    "plan_items example_context (item_ordinal ?item) = Some ?item"
    by code_simp+
  from no_condition_is_lost [OF example_plan_accepted this] show ?thesis by fastforce
qed

text \<open>Applying an accepted plan never fails on its condition mappings: the rows it writes delete
  no item twice and map no deleted item, which is what the table demands of them.\<close>

lemma accepted_mappings_are_recorded:
  assumes "check_plan plan ctx = []"
  shows "check_mappings operation [] (mappings_of plan) = Inr ()"
proof -
  have covered: "items_covered plan ctx" using assms by (simp add: check_plan_Nil)
  have rows: "deleted_ordinals (concat (map mapping_rows ms))
      = map pm_ordinal (filter (\<lambda>m. pm_disposition m = ItemDisposition.Deleted) ms)"
    "mapped_ordinals (concat (map mapping_rows ms))
      \<subseteq> pm_ordinal ` {m \<in> set ms. pm_disposition m \<noteq> ItemDisposition.Deleted}" for ms
    by (induction ms) (auto simp: deleted_ordinals_def mapped_ordinals_def mapping_rows_def)
  have "distinct (map pm_ordinal (plan_mappings plan))" using covered by (simp add: items_covered_def)
  then have "inj_on pm_ordinal (set (plan_mappings plan))"
    "distinct (map pm_ordinal (filter (\<lambda>m. pm_disposition m = ItemDisposition.Deleted) (plan_mappings plan)))"
    by (simp_all add: distinct_map inj_on_def)
  with rows [of "plan_mappings plan"] show ?thesis
    unfolding check_mappings_def mappings_of_def
    by (subst check_mappings_loop_iff) (auto dest: inj_onD)
qed

text \<open>C36. The search for a loop is exact: over a wait graph without one, giving successors the
  children to wait for is refused exactly when some task would then wait for itself, through tasks
  or goals.\<close>

theorem closes_loop_exact:
  assumes "acyclic (waits_rel waits)"
  shows "closes_loop waits edges = None \<longleftrightarrow> acyclic (waits_rel waits \<union> edges_rel edges)"
  using assms by (rule acyclic_closes_loop)

lemma closes_loop_exact_witness:
  "\<not> acyclic (waits_rel [(WaitNode.Task (TaskId 8), [WaitNode.Goal (GoalId 1)]),
      (WaitNode.Goal (GoalId 1), [WaitNode.Task (TaskId 12)])] \<union> edges_rel [(TaskId 12, [TaskId 8])])"
proof -
  let ?graph = "[(WaitNode.Task (TaskId 8), [WaitNode.Goal (GoalId 1)]),
      (WaitNode.Goal (GoalId 1), [WaitNode.Task (TaskId 12)])]"
  have "waits_rel ?graph = {(WaitNode.Task (TaskId 8), WaitNode.Goal (GoalId 1)),
      (WaitNode.Goal (GoalId 1), WaitNode.Task (TaskId 12))}"
    by (auto simp: waits_rel_def waits_of_def split: if_splits)
  then have acyclic: "acyclic (waits_rel ?graph)"
    by (simp add: acyclic_insert rtrancl_insert) (simp add: acyclic_def)
  have "closes_loop ?graph [(TaskId 12, [TaskId 8])] = Some (TaskId 12)"
    by code_simp
  with closes_loop_exact [OF acyclic, of "[(TaskId 12, [TaskId 8])]"] show ?thesis by simp
qed

text \<open>What becomes of a refused apply: it goes back to a planner whenever the approved plan no
  longer holds, it is tried again only when the plan holds and the queue is not yet at rest, and
  with neither it applies; a refusal of these checks is never left to a person.\<close>

theorem apply_recovery_iff:
  "recovery_of (apply_problems st) =
    (if \<not> approved_plan_holds st then Some ApplyRecovery.Replan
     else if \<not> queue_at_rest st then Some ApplyRecovery.Retry else None)"
  by (simp add: recovery_of_Max no_person_recovery retry_recovery replan_recovery)

end
