(* ===== verification/Queue_Store.thy ===== *)
theory Queue_Store
  imports Replacement_Plan Goal_Aggregate Run_Aggregate Dep_Graph Task_Hold
begin

text \<open>
  The queue's tables and the transactions on them that decide who waits for whom and which task is
  claimed: \<^verbatim>\<open>src/infrastructure/store_writes.rs\<close> (a new task, the edges and the search for a cycle),
  \<^verbatim>\<open>store_rows.rs\<close> (the rows and the conditions of a claimable task) and \<^verbatim>\<open>task_store.rs\<close> (reads,
  claim, transitions, moves between goals, the end of a task).

  A table is the list of its rows: \<open>tasks\<close> in the order of their IDs as they are made, the edges as
  pairs, the open holds, the operations of \<open>Replan_Operation\<close>, the runs. A row of \<open>tasks\<close> is the task
  last restored from it; what a read joins from the goal is recomputed at each read (\<open>task_row\<close>).
  What a transaction asks of tables not modelled (proposals, membership judgements, the routes and
  trials of a claim) comes in as a record of facts. A transaction that fails is \<open>Inl\<close> and writes
  nothing.
\<close>

section \<open>The tables\<close>

text \<open>A row of the plans of an operation: a revision, with the version of each child that plan review
  approved.\<close>

record PlanRow =
  row_operation :: ReplanId
  row_plan :: PlanRevision
  row_approved_children :: "(TaskId \<rightharpoonup> string) option"

text \<open>An event's kind with what its payload says of the queue.\<close>

datatype EventBody =
  EventTaskCreated "GoalId option" TaskStatus string
| EventDependencyAdded TaskId
| EventDependencyRemoved TaskId
| EventGoalDependencyAdded GoalId
| EventGoalDependencyRemoved GoalId
| EventTaskGoalChanged "GoalId option" "GoalId option"
| EventTaskPriorityChanged Priority Priority
| EventTaskStatusChanged TaskStatus TaskStatus
| EventReviewBypassed TaskStatus
| EventTaskHoldEnded HoldId
| EventTaskPathsChanged "string list" "string list"
| EventTaskEdited
| EventWorkerModeConverted
| EventProviderSwitched string
| EventRunClaimed TaskStatus TaskStatus
| EventReplanPlanSubmitted ReplanId ProposalId int
| EventReplanPlanApproved ReplanId ProposalId int
| EventReplanApplied ReplanId "TaskId list"
| EventReplanChildrenReleased ReplanId "TaskId list"

record QueueEvent =
  event_task :: TaskId
  event_run :: "RunId option"
  event_body :: EventBody

record Queue =
  q_tasks :: "Task list"
  q_goals :: "Goal list"
  q_dependencies :: "(TaskId \<times> TaskId) list"
  q_goal_dependencies :: "(TaskId \<times> GoalId) list"
  q_replacements :: "(ReplanId \<times> TaskId \<times> TaskId) list"
  q_operations :: "ReplanOperation list"
  q_mappings :: "(ReplanId \<times> ConditionMapping) list"
  q_plans :: "PlanRow list"
  q_holds :: "HoldGuard list"
  q_runs :: "TaskRun list"
  q_events :: "QueueEvent list"

definition empty_queue :: Queue where
  "empty_queue = \<lparr>q_tasks = [], q_goals = [], q_dependencies = [], q_goal_dependencies = [],
     q_replacements = [], q_operations = [], q_mappings = [], q_plans = [],
     q_holds = [], q_runs = [], q_events = []\<rparr>"

section \<open>Rows\<close>

text \<open>Rows through a conversion that may fail, as \<open>query_map\<close>: the first failure is the query's.\<close>

fun query_map :: "('a \<Rightarrow> 'e + 'b) \<Rightarrow> 'a list \<Rightarrow> 'e + 'b list" where
  "query_map f [] = Inr []"
| "query_map f (x # xs) = and_then (f x) (\<lambda>y. and_then (query_map f xs) (\<lambda>ys. Inr (y # ys)))"

definition goal_of :: "Queue \<Rightarrow> GoalId \<Rightarrow> Goal option" where
  "goal_of q i = find (\<lambda>g. goal_id g = i) (q_goals q)"

definition task_record :: "Queue \<Rightarrow> Task \<Rightarrow> Worker \<Rightarrow> TaskRecord" where
  "task_record q t worker =
    \<lparr>rec_id = task_id t, rec_title = task_title t, rec_description = task_description t,
     rec_acceptance = task_acceptance t, rec_verification_commands = task_verification_commands t,
     rec_required_evidence = task_required_evidence t, rec_paths = task_paths t,
     rec_priority = task_own_priority t,
     rec_goal_priority = map_option goal_priority (Option.bind (task_goal_id t) (goal_of q)),
     rec_change = task_change t, rec_wait_for_build = task_wait_for_build t,
     rec_execution_class = task_execution_class t, rec_worker = worker,
     rec_named_mode = task_stored_worker_mode t, rec_status = task_status t,
     rec_goal_id = task_goal_id t, rec_context = task_context t,
     rec_created_at = task_created_at t, rec_updated_at = task_updated_at t\<rparr>"

text \<open>A row with its goal's priority joined, restored.\<close>

definition task_row :: "Queue \<Rightarrow> Task \<Rightarrow> Task stored" where
  "task_row q t =
    and_then (domain (worker_resolve (Some (worker_provider (task_worker t))) (task_stored_worker_mode t)))
      (\<lambda>worker.
    and_then (domain (task_restore (task_record q t worker))) (\<lambda>r.
    Inr (task_with_record r (task_own_priority_by t)
      (map_option goal_priority_by (Option.bind (task_goal_id t) (goal_of q))) (task_origin t))))"

definition read_task :: "Queue \<Rightarrow> TaskId \<Rightarrow> Task stored" where
  "read_task q i = (case find (\<lambda>t. task_id t = i) (q_tasks q) of
     Some t \<Rightarrow> task_row q t
   | None \<Rightarrow> Inl (Refused (''task '' @ show_int (task_id_as_i64 i) @ '' does not exist'')))"

definition read_goal :: "Queue \<Rightarrow> GoalId \<Rightarrow> Goal stored" where
  "read_goal q i = (case goal_of q i of
     Some g \<Rightarrow> Inr g
   | None \<Rightarrow> Inl (Refused (''goal '' @ show_int (goal_id_as_i64 i) @ '' does not exist'')))"

text \<open>An \<open>UPDATE\<close> of the rows a condition names.\<close>

definition update_task :: "Queue \<Rightarrow> TaskId \<Rightarrow> (Task \<Rightarrow> Task) \<Rightarrow> Queue" where
  "update_task q i f = q\<lparr>q_tasks := map (\<lambda>t. if task_id t = i then f t else t) (q_tasks q)\<rparr>"

definition touch :: "Queue \<Rightarrow> TaskId \<Rightarrow> string \<Rightarrow> Queue" where
  "touch q i now = update_task q i (\<lambda>t. t\<lparr>task_updated_at := now\<rparr>)"

definition add_event :: "TaskId \<Rightarrow> RunId option \<Rightarrow> EventBody \<Rightarrow> Queue \<Rightarrow> Queue" where
  "add_event task run body q =
    q\<lparr>q_events := q_events q @ [\<lparr>event_task = task, event_run = run, event_body = body\<rparr>]\<rparr>"

section \<open>The guards of a task\<close>

definition hold_of :: "Queue \<Rightarrow> TaskId \<Rightarrow> HoldGuard option" where
  "hold_of q i = find (\<lambda>h. hg_task h = i) (q_holds q)"

definition check_task_step :: "Queue \<Rightarrow> TaskId \<Rightarrow> GuardedStep \<Rightarrow> unit stored" where
  "check_task_step q task step = domain (check_step
     \<lparr>tg_replan = guard_of (q_operations q) task, tg_hold = hold_of q task\<rparr> step)"

text \<open>The statuses of a run that has not ended, as the store's SQL lists them.\<close>

definition unfinished_statuses :: "RunStatus list" where
  "unfinished_statuses = [RunStatus.Claimed, RunStatus.Starting, RunStatus.Running,
     RunStatus.Validating, RunStatus.AwaitingIntegration, RunStatus.Integrating, RunStatus.NeedsSession]"

definition has_unfinished_run :: "Queue \<Rightarrow> TaskId \<Rightarrow> bool" where
  "has_unfinished_run q i \<longleftrightarrow>
    list_ex (\<lambda>r. run_task_id r = i \<and> run_status r \<in> set unfinished_statuses) (q_runs q)"

section \<open>Claimable tasks\<close>

definition goal_is_achieved :: "Goal \<Rightarrow> bool" where
  "goal_is_achieved g \<longleftrightarrow> goal_closed_at g \<noteq> None \<and> goal_verdict g = Some Achieved"

text \<open>The \<open>WHERE\<close> of the ready query, one conjunct per \<open>AND\<close>.\<close>

definition ready_conditions :: "Queue \<Rightarrow> Task \<Rightarrow> bool" where
  "ready_conditions q t \<longleftrightarrow>
    task_status t = TaskStatus.Ready
    \<and> \<not> list_ex (\<lambda>g. Some (goal_id g) = task_goal_id t \<and> goal_status g = GoalStatus.Draft) (q_goals q)
    \<and> \<not> list_ex (\<lambda>(i, p). i = task_id t
        \<and> list_ex (\<lambda>pt. task_id pt = p \<and> task_status pt \<noteq> TaskStatus.Completed) (q_tasks q))
        (q_dependencies q)
    \<and> \<not> list_ex (\<lambda>(i, d). i = task_id t
        \<and> list_ex (\<lambda>g. goal_id g = d \<and> \<not> goal_is_achieved g) (q_goals q)) (q_goal_dependencies q)
    \<and> \<not> has_unfinished_run q (task_id t)
    \<and> \<not> list_ex (\<lambda>op. op_task_id op = task_id t \<and> op_status op \<in> set replan_guarding) (q_operations q)"

definition ready_rows :: "Queue \<Rightarrow> Task list" where
  "ready_rows q = sort_key task_id
     (filter (\<lambda>t. ready_conditions q t \<and> hold_of q (task_id t) = None) (q_tasks q))"

definition ready_tasks :: "Queue \<Rightarrow> Task list stored" where
  "ready_tasks q = query_map (task_row q) (ready_rows q)"

text \<open>The tasks that would be claimable but for their open hold.\<close>

definition held_claims :: "Queue \<Rightarrow> HoldGuard list" where
  "held_claims q = concat (map (\<lambda>t. filter (\<lambda>h. hg_task h = task_id t) (q_holds q))
     (sort_key task_id (filter (ready_conditions q) (q_tasks q))))"

section \<open>The wait graph\<close>

definition operation_applied :: "Queue \<Rightarrow> ReplanId \<Rightarrow> bool" where
  "operation_applied q i \<longleftrightarrow>
    list_ex (\<lambda>op. op_id op = i \<and> op_status op = ReplanStatus.Applied) (q_operations q)"

text \<open>A goal waits for its tasks, but for a canceled one.\<close>

definition member_edges :: "Task list \<Rightarrow> (WaitNode \<times> WaitNode) list" where
  "member_edges ts = List.map_filter (\<lambda>t. case task_goal_id t of
       Some g \<Rightarrow> if task_status t \<noteq> TaskStatus.Canceled
         then Some (WaitNode.Goal g, WaitNode.Task (task_id t)) else None
     | None \<Rightarrow> None) ts"

definition wait_edges :: "Queue \<Rightarrow> (WaitNode \<times> WaitNode) list" where
  "wait_edges q =
    map (\<lambda>(i, p). (WaitNode.Task i, WaitNode.Task p)) (q_dependencies q)
    @ map (\<lambda>(i, g). (WaitNode.Task i, WaitNode.Goal g)) (q_goal_dependencies q)
    @ member_edges (q_tasks q)
    @ map (\<lambda>(_, from, to). (WaitNode.Task from, WaitNode.Task to))
        (filter (\<lambda>(op, _, _). operation_applied q op) (q_replacements q))"

text \<open>The rows a recursive query adds until none is new: those pending are looked up one by one.\<close>

definition new_targets :: "('n \<times> 'n) list \<Rightarrow> 'n list \<Rightarrow> 'n \<Rightarrow> 'n list" where
  "new_targets edges reached x =
    remdups (filter (\<lambda>y. y \<notin> set reached) (map snd (filter (\<lambda>e. fst e = x) edges)))"

function closure :: "('n \<times> 'n) list \<Rightarrow> 'n list \<Rightarrow> 'n list \<Rightarrow> 'n list" where
  "closure edges pending reached =
    (if pending = [] then reached
     else closure edges (butlast pending @ new_targets edges reached (last pending))
       (reached @ new_targets edges reached (last pending)))"
  by pat_completeness auto
termination
proof (relation "measures [\<lambda>(edges, _, reached). card (snd ` set edges - set reached),
    \<lambda>(_, pending, _). length pending]")
  fix edges :: "('n \<times> 'n) list" and pending reached :: "'n list"
  assume "pending \<noteq> []"
  let ?new = "new_targets edges reached (last pending)"
  show "((edges, butlast pending @ ?new, reached @ ?new), (edges, pending, reached))
    \<in> measures [\<lambda>(edges, _, reached). card (snd ` set edges - set reached), \<lambda>(_, pending, _). length pending]"
  proof (cases "?new = []")
    case True
    then show ?thesis using \<open>pending \<noteq> []\<close> by simp
  next
    case False
    then obtain y where y: "y \<in> set ?new" by (cases ?new) auto
    then have "y \<in> snd ` set edges - set reached" by (auto simp: new_targets_def)
    with y have "snd ` set edges - set (reached @ ?new) \<subset> snd ` set edges - set reached" by auto
    then have "card (snd ` set edges - set (reached @ ?new)) < card (snd ` set edges - set reached)"
      by (intro psubset_card_mono) auto
    then show ?thesis by simp
  qed
qed simp

declare closure.simps [simp del]

definition waits_for :: "Queue \<Rightarrow> WaitNode \<Rightarrow> WaitNode \<Rightarrow> bool" where
  "waits_for q from to \<longleftrightarrow> to \<in> set (closure (wait_edges q) [from] [from])"

section \<open>The unfinished tasks as the claims read them\<close>

definition unfinished_task :: "Task \<Rightarrow> bool" where
  "unfinished_task t \<longleftrightarrow> task_status t \<in> {TaskStatus.Draft, TaskStatus.Submitted, TaskStatus.Ready,
     TaskStatus.InProgress}"

definition depends_on :: "Queue \<Rightarrow> TaskId \<Rightarrow> TaskId list" where
  "depends_on q i = sort (map snd (filter (\<lambda>e. fst e = i) (q_dependencies q)))"

text \<open>A goal dependency joined with its goal's row.\<close>

definition goal_dependencies :: "Queue \<Rightarrow> TaskId \<Rightarrow> GraphGoalDependency list" where
  "goal_dependencies q i =
    map (\<lambda>g. \<lparr>gd_goal_id = goal_id g, gd_verdict = goal_verdict g\<rparr>)
      (sort_key goal_id (filter (\<lambda>g. (i, goal_id g) \<in> set (q_goal_dependencies q)) (q_goals q)))"

definition graph_task :: "Queue \<Rightarrow> Task \<Rightarrow> GraphTask stored" where
  "graph_task q t =
    and_then (case task_goal_id t of
        Some g \<Rightarrow> and_then (read_goal q g) (\<lambda>goal. Inr (Some (goal_status goal)))
      | None \<Rightarrow> Inr None) (\<lambda>status.
    Inr \<lparr>gt_id = task_id t, gt_status = task_status t, gt_priority = task_priority t,
      gt_priority_source = task_priority_source t, gt_priority_by = task_priority_by t,
      gt_execution_class = task_execution_class t, gt_title = task_title t,
      gt_goal_id = task_goal_id t, gt_goal_status = status, gt_depends_on = depends_on q (task_id t),
      gt_goal_dependencies = goal_dependencies q (task_id t)\<rparr>)"

definition canceled_predecessors :: "Queue \<Rightarrow> TaskId list" where
  "canceled_predecessors q = remdups_adj (sort (map snd (filter (\<lambda>(i, p).
     list_ex (\<lambda>t. task_id t = i \<and> unfinished_task t) (q_tasks q)
     \<and> list_ex (\<lambda>t. task_id t = p \<and> task_status t = TaskStatus.Canceled) (q_tasks q))
     (q_dependencies q))))"

definition read_graph_input :: "Queue \<Rightarrow> GraphInput stored" where
  "read_graph_input q =
    and_then (query_map (task_row q) (sort_key task_id (filter unfinished_task (q_tasks q)))) (\<lambda>tasks.
    and_then (query_map (graph_task q) tasks) (\<lambda>tasks.
    Inr \<lparr>gi_tasks = tasks, gi_candidates = map task_id (ready_rows q),
      gi_canceled = canceled_predecessors q\<rparr>))"

text \<open>The outer \<open>None\<close> is a search that does not end; \<open>Queue_Refinement\<close> shows the queue never
  comes to one.\<close>

definition claim_order :: "Queue \<Rightarrow> TaskId list stored option" where
  "claim_order q = (case read_graph_input q of
     Inl e \<Rightarrow> Some (Inl e)
   | Inr input \<Rightarrow> map_option (\<lambda>graph. Inr (dg_candidates graph)) (dependency_graph input None))"

section \<open>Lemmas: rows\<close>

lemma query_map_Inr: "query_map f xs = Inr ys \<longleftrightarrow> list_all2 (\<lambda>x y. f x = Inr y) xs ys"
  by (induction xs arbitrary: ys) (auto simp: and_then_eq_Inr list_all2_Cons1)

lemma query_map_set: "query_map f xs = Inr ys \<Longrightarrow> y \<in> set ys \<Longrightarrow> \<exists>x \<in> set xs. f x = Inr y"
  by (induction xs arbitrary: ys) (auto simp: and_then_eq_Inr)

text \<open>A restored row is the task it is the row of.\<close>

lemma task_row_fields:
  assumes "task_row q t = Inr t'"
  shows "task_id t' = task_id t" "task_status t' = task_status t" "task_goal_id t' = task_goal_id t"
    "task_wait_for_build t' = task_wait_for_build t" "task_execution_class t' = task_execution_class t"
proof -
  from assms obtain w r where "task_restore (task_record q t w) = Inr r"
    "t' = task_with_record r (task_own_priority_by t)
      (map_option goal_priority_by (Option.bind (task_goal_id t) (goal_of q))) (task_origin t)"
    unfolding task_row_def by (auto simp: and_then_eq_Inr)
  then show "task_id t' = task_id t" "task_status t' = task_status t" "task_goal_id t' = task_goal_id t"
    "task_wait_for_build t' = task_wait_for_build t" "task_execution_class t' = task_execution_class t"
    by (auto simp: task_restore_def and_then_eq_Inr task_record_def task_with_record_def case_prod_beta)
qed

text \<open>A task's status and goal, by its ID.\<close>

definition row_of :: "Queue \<Rightarrow> TaskId \<Rightarrow> Task option" where
  "row_of q i = find (\<lambda>t. task_id t = i) (q_tasks q)"

definition status_of :: "Queue \<Rightarrow> TaskId \<rightharpoonup> TaskStatus" where
  "status_of q i = map_option task_status (row_of q i)"

definition membership :: "Queue \<Rightarrow> TaskId \<rightharpoonup> GoalId" where
  "membership q i = Option.bind (row_of q i) task_goal_id"

lemma read_task_row: "read_task q i = Inr t \<longleftrightarrow> (\<exists>r. row_of q i = Some r \<and> task_row q r = Inr t)"
  by (auto simp: read_task_def row_of_def split: option.splits)

lemma row_of_Some: "row_of q i = Some t \<Longrightarrow> t \<in> set (q_tasks q) \<and> task_id t = i"
  unfolding row_of_def by (auto dest: find_Some_in)

lemma read_task_status:
  assumes "read_task q i = Inr t"
  shows "status_of q i = Some (task_status t)" "membership q i = task_goal_id t" "task_id t = i"
proof -
  from assms obtain r where r: "row_of q i = Some r" "task_row q r = Inr t" by (auto simp: read_task_row)
  from r(1) row_of_Some [OF r(1)] task_row_fields [OF r(2)]
  show "status_of q i = Some (task_status t)" "membership q i = task_goal_id t" "task_id t = i"
    by (simp_all add: status_of_def membership_def)
qed

lemma row_of_distinct:
  assumes "distinct (map task_id (q_tasks q))"
  shows "row_of q i = Some t \<longleftrightarrow> t \<in> set (q_tasks q) \<and> task_id t = i"
proof
  assume t: "t \<in> set (q_tasks q) \<and> task_id t = i"
  obtain t' where t': "row_of q i = Some t'"
    using t by (cases "row_of q i") (auto simp: row_of_def find_None_iff)
  from row_of_Some [OF t'] t assms have "t' = t" by (auto simp: distinct_map dest: inj_onD)
  with t' show "row_of q i = Some t" by simp
qed (rule row_of_Some)

lemma status_of_None: "status_of q i = None \<longleftrightarrow> i \<notin> task_id ` set (q_tasks q)"
  by (auto simp: status_of_def row_of_def find_None_iff)

section \<open>Lemmas: the closure of the wait graph\<close>

lemma set_new_targets: "set (new_targets edges reached x) = set edges `` {x} - set reached"
  by (force simp: new_targets_def)

lemma closure_keeps: "set reached \<subseteq> set (closure edges pending reached)"
proof (induction edges pending reached rule: closure.induct)
  case (1 edges pending reached)
  show ?case
  proof (cases "pending = []")
    case False
    from 1 [OF False] False show ?thesis by (subst closure.simps) auto
  qed (simp add: closure.simps)
qed

lemma closure_sound: "set (closure edges pending reached) \<subseteq> set reached \<union> (set edges)\<^sup>+ `` set pending"
proof (induction edges pending reached rule: closure.induct)
  case (1 edges pending reached)
  show ?case
  proof (cases "pending = []")
    case False
    let ?new = "new_targets edges reached (last pending)"
    have x: "last pending \<in> set pending" using False by simp
    have "(set edges)\<^sup>+ `` set (butlast pending @ ?new) \<subseteq> (set edges)\<^sup>+ `` set pending"
      using x by (auto simp: set_new_targets dest: in_set_butlastD intro: trancl_into_trancl2)
    moreover have "set ?new \<subseteq> (set edges)\<^sup>+ `` set pending" using x by (auto simp: set_new_targets)
    moreover have "set (closure edges pending reached)
        \<subseteq> set (reached @ ?new) \<union> (set edges)\<^sup>+ `` set (butlast pending @ ?new)"
      using 1 [OF False] False by (simp add: closure.simps [of edges pending reached])
    ultimately show ?thesis unfolding set_append by blast
  qed (simp add: closure.simps)
qed

lemma closure_closed:
  assumes "\<forall>x \<in> set reached. x \<in> set pending \<or> set edges `` {x} \<subseteq> set reached"
  shows "(\<forall>x \<in> set (closure edges pending reached). set edges `` {x} \<subseteq> set (closure edges pending reached))
    \<and> (\<forall>x \<in> set pending. set edges `` {x} \<subseteq> set (closure edges pending reached))"
  using assms
proof (induction edges pending reached rule: closure.induct)
  case (1 edges pending reached)
  show ?case
  proof (cases "pending = []")
    case True
    then show ?thesis using 1(2) by (simp add: closure.simps)
  next
    case False
    let ?x = "last pending" and ?new = "new_targets edges reached (last pending)"
    let ?R = "closure edges (butlast pending @ ?new) (reached @ ?new)"
    have split: "set pending = insert ?x (set (butlast pending))"
      using False by (metis append_butlast_last_id list.simps(15) rotate1.simps(2) set_rotate1)
    have next_ok: "\<forall>x \<in> set (reached @ ?new). x \<in> set (butlast pending @ ?new)
        \<or> set edges `` {x} \<subseteq> set (reached @ ?new)"
      using 1(2) split by (auto simp: set_new_targets)
    note IH = 1(1) [OF False next_ok]
    have "set edges `` {?x} \<subseteq> set ?R"
      using closure_keeps [of "reached @ ?new" edges "butlast pending @ ?new"] by (auto simp: set_new_targets)
    with IH split have "\<forall>x \<in> set pending. set edges `` {x} \<subseteq> set ?R" by auto
    with IH False show ?thesis by (simp add: closure.simps [of edges pending reached])
  qed
qed

lemma set_closure:
  assumes "\<forall>x \<in> set reached. x \<in> set pending \<or> set edges `` {x} \<subseteq> set reached"
  shows "set (closure edges pending reached) = set reached \<union> (set edges)\<^sup>+ `` set pending"
proof
  let ?R = "set (closure edges pending reached)"
  have "y \<in> ?R" if "(x, y) \<in> (set edges)\<^sup>+" "x \<in> set pending" for x y
    using that(1) closure_closed [OF assms] that(2) by (induction rule: trancl_induct) auto
  then show "set reached \<union> (set edges)\<^sup>+ `` set pending \<subseteq> ?R" using closure_keeps [of reached edges pending] by auto
qed (rule closure_sound)

lemma waits_for_iff: "waits_for q from to \<longleftrightarrow> (from, to) \<in> (set (wait_edges q))\<^sup>*"
  unfolding waits_for_def by (subst set_closure) (auto simp: rtrancl_eq_or_trancl)

end
