(* ===== verification/Queue_Tasks.thy ===== *)
theory Queue_Tasks
  imports Queue_Store
begin

text \<open>
  The transactions on the queue's tasks: a new task with its edges
  (\<^verbatim>\<open>src/infrastructure/store_writes.rs\<close>), the edges one by one, the move between goals, the
  transitions, the claim, the ends and the edits (\<^verbatim>\<open>src/infrastructure/task_store.rs\<close>).

  What a transaction asks of tables not modelled comes in with it: the priority a request was given,
  whether the proposal of a task allows it to become ready, whether a follow-up's membership was
  judged, what the command was authorized with, and of a claim the routes, the worker the trial
  assigns and the tasks a limit holds. IDs and times are the caller's, as in the code.
\<close>

section \<open>Edges\<close>

definition insert_dependency :: "Queue \<Rightarrow> TaskId \<Rightarrow> TaskId \<Rightarrow> string \<Rightarrow> Queue stored" where
  "insert_dependency q i p now =
    and_then (domain (check_not_self i p)) (\<lambda>_.
    and_then (check_task_step q i GuardedStep.Dependency) (\<lambda>_.
    and_then (check_task_step q p GuardedStep.Dependency) (\<lambda>_.
    and_then (read_task q i) (\<lambda>t.
    and_then (domain (check_dependencies_editable t)) (\<lambda>_.
    and_then (read_task q p) (\<lambda>predecessor.
    and_then (domain (check_not_replaced i p (task_status predecessor))) (\<lambda>_.
    and_then (domain (check_acyclic i p (waits_for q (WaitNode.Task p) (WaitNode.Task i)))) (\<lambda>_.
    Inr (if (i, p) \<in> set (q_dependencies q) then q
      else add_event i None (EventDependencyAdded p)
        (touch (q\<lparr>q_dependencies := q_dependencies q @ [(i, p)]\<rparr>) i now))))))))))"

definition insert_goal_dependency :: "Queue \<Rightarrow> TaskId \<Rightarrow> GoalId \<Rightarrow> string \<Rightarrow> Queue stored" where
  "insert_goal_dependency q i g now =
    and_then (read_task q i) (\<lambda>t.
    and_then (domain (check_dependencies_editable t)) (\<lambda>_.
    and_then (read_goal q g) (\<lambda>goal.
    and_then (domain (check_accepts_dependents goal)) (\<lambda>_.
    and_then (domain (check_not_own_goal t g)) (\<lambda>_.
    and_then (domain (check_goal_acyclic i g (waits_for q (WaitNode.Goal g) (WaitNode.Task i)))) (\<lambda>_.
    Inr (if (i, g) \<in> set (q_goal_dependencies q) then q
      else add_event i None (EventGoalDependencyAdded g)
        (touch (q\<lparr>q_goal_dependencies := q_goal_dependencies q @ [(i, g)]\<rparr>) i now))))))))"

text \<open>The handlers, each after its authorization.\<close>

definition add_dependency_authorized ::
  "unit stored \<Rightarrow> Queue \<Rightarrow> TaskId \<Rightarrow> TaskId \<Rightarrow> string \<Rightarrow> Queue stored" where
  "add_dependency_authorized authorized q i p now =
    and_then authorized (\<lambda>_. insert_dependency q i p now)"

definition remove_dependency_authorized ::
  "unit stored \<Rightarrow> Queue \<Rightarrow> TaskId \<Rightarrow> TaskId \<Rightarrow> string \<Rightarrow> Queue stored" where
  "remove_dependency_authorized authorized q i p now =
    and_then authorized (\<lambda>_.
    and_then (check_task_step q i GuardedStep.Dependency) (\<lambda>_.
    and_then (check_task_step q p GuardedStep.Dependency) (\<lambda>_.
    and_then (read_task q i) (\<lambda>t.
    and_then (domain (check_dependencies_editable t)) (\<lambda>_.
    if (i, p) \<in> set (q_dependencies q)
    then Inr (add_event i None (EventDependencyRemoved p)
      (touch (q\<lparr>q_dependencies := filter (\<lambda>e. e \<noteq> (i, p)) (q_dependencies q)\<rparr>) i now))
    else Inl (Refused (''dependency '' @ show_int (task_id_as_i64 i) @ '' -> ''
      @ show_int (task_id_as_i64 p) @ '' does not exist'')))))))"

definition add_goal_dependency_authorized ::
  "unit stored \<Rightarrow> Queue \<Rightarrow> TaskId \<Rightarrow> GoalId \<Rightarrow> string \<Rightarrow> Queue stored" where
  "add_goal_dependency_authorized authorized q i g now =
    and_then authorized (\<lambda>_.
    and_then (check_task_step q i GuardedStep.Dependency) (\<lambda>_.
    insert_goal_dependency q i g now))"

definition remove_goal_dependency_authorized ::
  "unit stored \<Rightarrow> Queue \<Rightarrow> TaskId \<Rightarrow> GoalId \<Rightarrow> string \<Rightarrow> Queue stored" where
  "remove_goal_dependency_authorized authorized q i g now =
    and_then authorized (\<lambda>_.
    and_then (check_task_step q i GuardedStep.Dependency) (\<lambda>_.
    and_then (read_task q i) (\<lambda>t.
    and_then (domain (check_dependencies_editable t)) (\<lambda>_.
    if (i, g) \<in> set (q_goal_dependencies q)
    then Inr (add_event i None (EventGoalDependencyRemoved g)
      (touch (q\<lparr>q_goal_dependencies := filter (\<lambda>e. e \<noteq> (i, g)) (q_goal_dependencies q)\<rparr>) i now))
    else Inl (Refused (''dependency '' @ show_int (task_id_as_i64 i) @ '' -> goal ''
      @ show_int (goal_id_as_i64 g) @ '' does not exist''))))))"

section \<open>A new task\<close>

definition read_goal_option :: "Queue \<Rightarrow> GoalId option \<Rightarrow> Goal option stored" where
  "read_goal_option q g = (case g of
     Some g \<Rightarrow> and_then (read_goal q g) (\<lambda>goal. Inr (Some goal))
   | None \<Rightarrow> Inr None)"

definition request_priority ::
  "(RequestId \<Rightarrow> Priority option) \<Rightarrow> RecordedOrigin \<Rightarrow> (RequestId \<times> Priority) option" where
  "request_priority priority_of_request origin = (case recorded_request origin of
     Some request \<Rightarrow> map_option (\<lambda>priority. (request, priority)) (priority_of_request request)
   | None \<Rightarrow> None)"

text \<open>\<open>i\<close> is the ID the table gives next.\<close>

definition insert_task ::
  "(RequestId \<Rightarrow> Priority option) \<Rightarrow> Queue \<Rightarrow> TaskId \<Rightarrow> NewTask \<Rightarrow> string \<Rightarrow> Creator
    \<Rightarrow> (Queue \<times> Task) stored" where
  "insert_task priority_of_request q i new now creator =
    and_then (read_goal_option q (new_goal_id new)) (\<lambda>goal.
    and_then (case goal of Some g \<Rightarrow> domain (check_accepts_tasks g) | None \<Rightarrow> Inr ()) (\<lambda>_.
    and_then (domain (task_priority_at_creation creator
        (request_priority priority_of_request (creation_origin creator)) (new_priority new)
        (map_option (\<lambda>g. (goal_priority g, goal_priority_by g)) goal))) (\<lambda>(priority, priority_by).
    and_then (domain (task_new i (new\<lparr>new_priority := priority\<rparr>) now)) (\<lambda>t.
    let row = t\<lparr>task_own_priority_by := priority_by, task_origin := creation_origin creator\<rparr>;
        q = add_event i None (EventTaskCreated (task_goal_id t) (task_status t) (task_title t))
          (q\<lparr>q_tasks := q_tasks q @ [row]\<rparr>)
    in and_then (live (\<lambda>p q. insert_dependency q i p now) (new_dependencies new) q) (\<lambda>q.
       and_then (live (\<lambda>g q. insert_goal_dependency q i g now) (new_goal_dependencies new) q) (\<lambda>q.
       and_then (read_task q i) (\<lambda>t. Inr (q, t))))))))"

section \<open>Between goals\<close>

definition Destination_of :: "Goal \<Rightarrow> Destination" where
  "Destination_of g = \<lparr>dest_id = goal_id g, dest_priority = goal_priority g,
     dest_priority_by = goal_priority_by g\<rparr>"

text \<open>The writes of a move from \<open>t\<close> to \<open>moved\<close>, each with its event.\<close>

definition write_move :: "Queue \<Rightarrow> TaskId \<Rightarrow> Task \<Rightarrow> Task \<Rightarrow> Priority option \<Rightarrow> string \<Rightarrow> Queue" where
  "write_move q i t moved dropped now =
    (let q = (if task_own_priority t \<noteq> task_own_priority moved
        then add_event i None (EventTaskPriorityChanged (task_priority t) (task_priority moved))
          (update_task q i (\<lambda>r. r\<lparr>task_own_priority := task_own_priority moved,
            task_own_priority_by := task_shown_own_priority_by moved\<rparr>))
        else q);
      q = (case dropped of
          Some priority \<Rightarrow> add_event i None (EventTaskPriorityChanged priority (task_priority moved)) q
        | None \<Rightarrow> q)
    in if task_goal_id t \<noteq> task_goal_id moved
      then add_event i None (EventTaskGoalChanged (task_goal_id t) (task_goal_id moved))
        (update_task q i (\<lambda>r. r\<lparr>task_goal_id := task_goal_id moved, task_updated_at := now\<rparr>))
      else q)"

definition set_goal_in ::
  "Queue \<Rightarrow> TaskId \<Rightarrow> GoalId option \<Rightarrow> string \<Rightarrow> MovedBy \<Rightarrow> (Queue \<times> Task) stored" where
  "set_goal_in q i to_goal now by_whom =
    and_then (read_task q i) (\<lambda>t.
    and_then (read_goal_option q to_goal) (\<lambda>goal.
    let to = map_option Destination_of goal;
        dropped = (if task_goal_id t \<noteq> to_goal
          then persons_priority_dropped_on_move t to by_whom else None)
    in and_then (domain (task_set_goal t to by_whom)) (\<lambda>moved.
       and_then (case goal of
           Some g \<Rightarrow>
             and_then (domain (check_accepts_tasks g)) (\<lambda>_.
             if task_goal_id t \<noteq> Some (goal_id g)
             then domain (check_membership_acyclic moved (goal_id g)
               ((i, goal_id g) \<in> set (q_goal_dependencies q))
               (waits_for q (WaitNode.Task i) (WaitNode.Goal (goal_id g))))
             else Inr ())
         | None \<Rightarrow> Inr ()) (\<lambda>_.
       let q = write_move q i t moved dropped now
       in and_then (read_task q i) (\<lambda>t. Inr (q, t))))))"

definition set_goal_authorized ::
  "unit stored \<Rightarrow> unit stored \<Rightarrow> Queue \<Rightarrow> TaskId \<Rightarrow> GoalId option \<Rightarrow> string \<Rightarrow> ActorRole
    \<Rightarrow> (Queue \<times> Task) stored" where
  "set_goal_authorized authorized judged q i to_goal now role =
    and_then authorized (\<lambda>_.
    and_then (check_task_step q i GuardedStep.Edit) (\<lambda>_.
    and_then judged (\<lambda>_.
    set_goal_in q i to_goal now (MovedBy_of role))))"

section \<open>Ends and transitions\<close>

definition latest_run :: "Queue \<Rightarrow> TaskId \<Rightarrow> TaskRun option" where
  "latest_run q i = find (\<lambda>r. run_task_id r = i) (rev (q_runs q))"

text \<open>A task that ends takes its open hold with it.\<close>

definition end_with_task :: "Queue \<Rightarrow> TaskId \<Rightarrow> TaskStatus \<Rightarrow> Queue" where
  "end_with_task q i s = (case HoldEnd_of s of
     None \<Rightarrow> q
   | Some _ \<Rightarrow> (case hold_of q i of
       None \<Rightarrow> q
     | Some hold \<Rightarrow> add_event i (map_option run_id (latest_run q i)) (EventTaskHoldEnded (hg_hold hold))
         (q\<lparr>q_holds := filter (\<lambda>h. hg_hold h \<noteq> hg_hold hold) (q_holds q)\<rparr>)))"

definition transition_guard :: "TaskAction \<Rightarrow> GuardedStep" where
  "transition_guard action = (case action of
     TaskAction.Ready \<Rightarrow> GuardedStep.Ready
   | BypassReview \<Rightarrow> GuardedStep.Ready
   | Approve \<Rightarrow> GuardedStep.Ready
   | TaskAction.Cancel \<Rightarrow> GuardedStep.Cancel
   | TaskAction.Draft \<Rightarrow> GuardedStep.Edit
   | Submit \<Rightarrow> GuardedStep.Edit
   | Reopen \<Rightarrow> GuardedStep.Edit)"

definition set_status :: "Queue \<Rightarrow> TaskId \<Rightarrow> TaskStatus \<Rightarrow> string \<Rightarrow> Queue" where
  "set_status q i s now = update_task q i (\<lambda>r. r\<lparr>task_status := s, task_updated_at := now\<rparr>)"

text \<open>What a transition reads of the proposals: whether a replacement holds the task back from
  \<open>ready\<close>, and whether a follow-up's membership was judged.\<close>

record TransitionFacts =
  tf_child_ready :: "TaskId \<Rightarrow> unit stored"
  tf_judged :: "TaskId \<Rightarrow> unit stored"

definition apply_transition ::
  "TransitionFacts \<Rightarrow> Queue \<Rightarrow> TaskId \<Rightarrow> TaskAction \<Rightarrow> string \<Rightarrow> (Queue \<times> Task) stored" where
  "apply_transition facts q i action now =
    and_then (check_task_step q i (transition_guard action)) (\<lambda>_.
    and_then (if action \<in> {TaskAction.Ready, BypassReview, Approve} then tf_child_ready facts i else Inr ()) (\<lambda>_.
    and_then (read_task q i) (\<lambda>t.
    and_then (if action = BypassReview then tf_judged facts i else Inr ()) (\<lambda>_.
    and_then (domain (task_transition t action (has_unfinished_run q i))) (\<lambda>moved.
    let q = set_status q i (task_status moved) now;
        q = add_event i None (EventTaskStatusChanged (task_status t) (task_status moved)) q;
        q = end_with_task q i (task_status moved);
        q = (if action = BypassReview then add_event i None (EventReviewBypassed (task_status t)) q else q)
    in and_then (read_task q i) (\<lambda>t. Inr (q, t)))))))"

definition not_in_progress :: "TaskId \<Rightarrow> store_error" where
  "not_in_progress i = Refused (''task '' @ show_int (task_id_as_i64 i) @ '' is not in progress'')"

text \<open>The end of a task in progress as \<open>s\<close>: the shared body of the landing and of the replacement.\<close>

definition end_task :: "Queue \<Rightarrow> TaskId \<Rightarrow> RunId \<Rightarrow> TaskStatus \<Rightarrow> string \<Rightarrow> (Queue \<times> Task) stored" where
  "end_task q i run s now =
    (if status_of q i = Some TaskStatus.InProgress then
       (let q = set_status q i s now;
            q = add_event i (Some run) (EventTaskStatusChanged TaskStatus.InProgress s) q;
            q = end_with_task q i s
        in and_then (read_task q i) (\<lambda>t. Inr (q, t)))
     else Inl (not_in_progress i))"

definition complete_task :: "Queue \<Rightarrow> TaskId \<Rightarrow> RunId \<Rightarrow> string \<Rightarrow> (Queue \<times> Task) stored" where
  "complete_task q i run now = end_task q i run TaskStatus.Completed now"

definition replace_task :: "Queue \<Rightarrow> TaskId \<Rightarrow> RunId \<Rightarrow> string \<Rightarrow> (Queue \<times> Task) stored" where
  "replace_task q i run now = end_task q i run TaskStatus.Replaced now"

section \<open>The claim\<close>

record WorkerRoute =
  route_requested :: Worker
  route_actual :: Worker
  route_switch :: "string option"

definition route_of :: "WorkerRoute list \<Rightarrow> Worker \<Rightarrow> WorkerRoute option" where
  "route_of routes worker = find (\<lambda>route. route_requested route = worker) routes"

definition RunId_new :: "string \<Rightarrow> RunId result" where
  "RunId_new i = (if trim i = [] then Inl (Blank ''run ID'') else Inr (RunId i))"

text \<open>What a claim is called with, and the worker the provider trial requests and the tasks the
  investigation limit holds, as it reads them.\<close>

record ClaimFacts =
  cf_requested :: "Task \<Rightarrow> Worker"
  cf_routes :: "WorkerRoute list"
  cf_held_classes :: "ExecutionClass list"
  cf_limited :: "Task \<Rightarrow> bool"
  cf_order :: "TaskId list"
  cf_uuid :: string
  cf_base_commit :: CommitSha
  cf_now :: string
  cf_now_secs :: int
  cf_replan :: ReplanFacts

definition claimable :: "ClaimFacts \<Rightarrow> Task list \<Rightarrow> Task list" where
  "claimable cf ready =
    filter (\<lambda>t. \<not> cf_limited cf t)
      (filter (\<lambda>t. task_execution_class t \<notin> set (cf_held_classes cf))
        (filter (\<lambda>t. route_of (cf_routes cf) (cf_requested cf t) \<noteq> None) ready))"

text \<open>The task of the first of the IDs that is one of the tasks.\<close>

definition first_of :: "Task list \<Rightarrow> TaskId list \<Rightarrow> Task option" where
  "first_of ts ids = find_map (\<lambda>i. find (\<lambda>t. task_id t = i) ts) ids"

definition claim_fallback :: "Task list \<Rightarrow> TaskId list \<Rightarrow> Task option" where
  "claim_fallback ts order =
    (case find_map (\<lambda>i. find (\<lambda>t. task_id t = i \<and> \<not> task_wait_for_build t) ts) order of
       Some t \<Rightarrow> Some t
     | None \<Rightarrow> find (\<lambda>t. \<not> task_wait_for_build t) ts)"

definition write_claim ::
  "ClaimFacts \<Rightarrow> Queue \<Rightarrow> Task \<Rightarrow> TaskRun \<Rightarrow> WorkerRoute \<Rightarrow> ReplanOperation list \<Rightarrow> Queue" where
  "write_claim cf q t run route ops =
    (let i = task_id t;
         q = set_status q i (task_status t) (cf_now cf);
         q = q\<lparr>q_runs := q_runs q @ [run], q_operations := ops\<rparr>;
         q = (if worker_mode (task_worker t) = WorkerMode.Interactive
           then add_event i (Some (run_id run)) EventWorkerModeConverted q else q);
         q = (case route_switch route of
             Some reason \<Rightarrow> add_event i (Some (run_id run)) (EventProviderSwitched reason) q
           | None \<Rightarrow> q)
     in add_event i (Some (run_id run)) (EventRunClaimed TaskStatus.Ready (task_status t)) q)"

definition claim_one :: "ClaimFacts \<Rightarrow> Queue \<Rightarrow> Task \<Rightarrow> (Queue \<times> TaskRun option) stored" where
  "claim_one cf q preferred =
    and_then (domain (task_claim preferred)) (\<lambda>t.
    and_then (case route_of (cf_routes cf) (cf_requested cf t) of
        Some route \<Rightarrow> Inr route
      | None \<Rightarrow> Inl (Refused ''the claimed task has no route'')) (\<lambda>route.
    and_then (domain (RunId_new (cf_uuid cf))) (\<lambda>i.
    and_then (domain (run_new i t (cf_base_commit cf) (cf_now cf))) (\<lambda>run.
    let run = run_running_on (run_requesting run (cf_requested cf t))
          ((route_actual route)\<lparr>worker_mode := WorkerMode.Headless\<rparr>)
    in and_then (carry_open_to (cf_replan cf) (q_operations q) (task_id t) i (cf_now_secs cf))
         (\<lambda>(ops, _, _). Inr (write_claim cf q t run route ops, Some run))))))"

text \<open>The claim: \<open>None\<close> of the result is no task claimed, the outer \<open>None\<close> a search of the claim
  order that does not end.\<close>

definition claim_task :: "ClaimFacts \<Rightarrow> Queue \<Rightarrow> (Queue \<times> TaskRun option) stored option" where
  "claim_task cf q = (case ready_tasks q of
     Inl e \<Rightarrow> Some (Inl e)
   | Inr ready \<Rightarrow>
      (let ready = claimable cf ready in
       if ready = [] then Some (Inr (q, None))
       else (case first_of ready (cf_order cf) of
           Some t \<Rightarrow> Some (claim_one cf q t)
         | None \<Rightarrow> map_option (\<lambda>order. and_then order (\<lambda>order.
             case claim_fallback ready order of
               Some t \<Rightarrow> claim_one cf q t
             | None \<Rightarrow> Inr (q, None))) (claim_order q))))"

section \<open>Edits\<close>

definition change_priority ::
  "Queue \<Rightarrow> TaskId \<Rightarrow> Priority option \<Rightarrow> string \<Rightarrow> ActorRole \<Rightarrow> Creator \<Rightarrow> Queue stored" where
  "change_priority q i priority now role creator =
    and_then (read_task q i) (\<lambda>old.
    and_then (domain (task_set_priority old priority)) (\<lambda>t.
    if task_own_priority old = task_own_priority t then Inr q
    else
      and_then (domain (check_priority_change role (HolderTask i) (task_priority old)
        (task_priority_by old))) (\<lambda>_.
      Inr (add_event i None (EventTaskPriorityChanged (task_priority old) (task_priority t))
        (update_task q i (\<lambda>r. r\<lparr>task_own_priority := task_own_priority t,
          task_own_priority_by := map_option (\<lambda>_. PriorityBy_of creator) (task_own_priority t),
          task_updated_at := now\<rparr>))))))"

definition set_priority_authorized ::
  "unit stored \<Rightarrow> Queue \<Rightarrow> TaskId \<Rightarrow> Priority option \<Rightarrow> string \<Rightarrow> ActorRole \<Rightarrow> Creator
    \<Rightarrow> (Queue \<times> Task) stored" where
  "set_priority_authorized authorized q i priority now role creator =
    and_then authorized (\<lambda>_.
    and_then (change_priority q i priority now role creator) (\<lambda>q.
    and_then (read_task q i) (\<lambda>t. Inr (q, t))))"

definition set_paths_authorized ::
  "unit stored \<Rightarrow> Queue \<Rightarrow> TaskId \<Rightarrow> string list \<Rightarrow> string \<Rightarrow> (Queue \<times> Task) stored" where
  "set_paths_authorized authorized q i paths now =
    and_then authorized (\<lambda>_.
    and_then (check_task_step q i GuardedStep.Edit) (\<lambda>_.
    and_then (read_task q i) (\<lambda>old.
    and_then (domain (task_set_paths old paths)) (\<lambda>t.
    let q = (if task_paths old \<noteq> task_paths t
      then add_event i None (EventTaskPathsChanged (task_paths old) (task_paths t))
        (update_task q i (\<lambda>r. r\<lparr>task_paths := task_paths t, task_updated_at := now\<rparr>))
      else q)
    in and_then (read_task q i) (\<lambda>t. Inr (q, t))))))"

text \<open>The columns an edit may change; the test of the code is on their printed values.\<close>

definition write_edit :: "Queue \<Rightarrow> TaskId \<Rightarrow> Task \<Rightarrow> string \<Rightarrow> Queue" where
  "write_edit q i t now = update_task q i (\<lambda>r. r\<lparr>task_title := task_title t,
     task_description := task_description t, task_acceptance := task_acceptance t,
     task_verification_commands := task_verification_commands t,
     task_required_evidence := task_required_evidence t, task_paths := task_paths t,
     task_context := task_context t, task_worker := task_worker t,
     task_named_mode := task_stored_worker_mode t, task_change := task_change t,
     task_wait_for_build := task_wait_for_build t,
     task_execution_class := task_execution_class t, task_updated_at := now\<rparr>)"

definition edited_fields_differ :: "Task \<Rightarrow> Task \<Rightarrow> bool" where
  "edited_fields_differ old t \<longleftrightarrow>
    task_title old \<noteq> task_title t \<or> task_description old \<noteq> task_description t
    \<or> task_acceptance old \<noteq> task_acceptance t
    \<or> task_verification_commands old \<noteq> task_verification_commands t
    \<or> task_required_evidence old \<noteq> task_required_evidence t \<or> task_paths old \<noteq> task_paths t
    \<or> task_context old \<noteq> task_context t \<or> task_worker old \<noteq> task_worker t
    \<or> task_change old \<noteq> task_change t \<or> task_wait_for_build old \<noteq> task_wait_for_build t
    \<or> task_execution_class old \<noteq> task_execution_class t
    \<or> task_stored_worker_mode old \<noteq> task_stored_worker_mode t"

text \<open>Of a task in progress only the verification commands, once its latest run has ended and no run
  or lease of it is left (\<open>leased\<close>).\<close>

definition edit_task_authorized ::
  "unit stored \<Rightarrow> bool \<Rightarrow> Queue \<Rightarrow> TaskId \<Rightarrow> TaskEdit \<Rightarrow> TaskStatus \<Rightarrow> string
    \<Rightarrow> (Queue \<times> Task) stored option" where
  "edit_task_authorized authorized leased q i e status now =
    (case and_then (check_task_step q i GuardedStep.Edit) (\<lambda>_.
        and_then (read_task q i) (\<lambda>old.
        and_then (domain (check_status_authorized old status)) (\<lambda>_.
        and_then authorized (\<lambda>_. Inr old)))) of
       Inl err \<Rightarrow> Some (Inl err)
     | Inr old \<Rightarrow> map_option (\<lambda>edited. and_then edited (\<lambda>t.
           let q = (if edited_fields_differ old t
             then add_event i None EventTaskEdited (write_edit q i t now) else q)
           in and_then (read_task q i) (\<lambda>t. Inr (q, t))))
         (if task_status old = TaskStatus.InProgress then
            (if TaskEdit_verify_only e \<and> \<not> has_unfinished_run q i \<and> \<not> leased
                \<and> map_option run_status (latest_run q i) \<in> {Some RunStatus.Failed, Some RunStatus.Interrupted}
             then map_option domain (task_edit_ended_verify old e)
             else Some (Inl (Refused (''task '' @ show_int (task_id_as_i64 i) @ '' is in_progress''))))
          else Some (domain (task_edit old e))))"

end
