(* ===== verification/Replacement_Apply.thy ===== *)
theory Replacement_Apply
  imports Queue_Tasks
begin

text \<open>
  The trusted runtime's apply of a replacement: \<^verbatim>\<open>src/infrastructure/replan_apply.rs\<close>, with the
  check of a plan on the queue as it is now of \<^verbatim>\<open>src/infrastructure/replans.rs\<close>.

  The apply of an approved plan is one transaction: it checks everything again (\<open>problems_now\<close>) and
  writes the whole replacement (\<open>write_replacement\<close>) or nothing of it, and then holds the operation
  (\<open>hold_apply\<close>). The tables the queue of the model does not have (plans, proposals, leases, asks)
  are read through \<open>ApplyFacts\<close>; the texts of a refusal are one reason given with them.
\<close>

section \<open>What the check reads\<close>

record ApplyFacts =
  af_proposal :: "ProposalId \<Rightarrow> (ProposalStatus \<times> TaskId list) stored"
  af_leased :: "RunId \<Rightarrow> bool"
  af_child_version :: "TaskId \<Rightarrow> string"
  af_linked :: "ProposalId \<Rightarrow> ReplanId list"
  af_authorities :: "ReplanOperation \<Rightarrow> AskId \<rightharpoonup> DeletionAuthority"
  af_sha256 :: "string \<Rightarrow> string"
  af_version :: "OriginalConditions \<Rightarrow> string"
  af_acceptance_version :: "GoalId \<Rightarrow> int"
  af_replan :: ReplanFacts
  af_transition :: TransitionFacts

definition acceptance_version_of :: "ApplyFacts \<Rightarrow> Queue \<Rightarrow> GoalId \<Rightarrow> int stored" where
  "acceptance_version_of af q g = and_then (read_goal q g) (\<lambda>_. Inr (af_acceptance_version af g))"

text \<open>The task's and its goal's conditions as they are now.\<close>

definition conditions_of :: "ApplyFacts \<Rightarrow> Queue \<Rightarrow> TaskId \<Rightarrow> OriginalConditions stored" where
  "conditions_of af q i =
    and_then (read_task q i) (\<lambda>t.
    and_then (case task_goal_id t of
        Some g \<Rightarrow> and_then (read_goal q g) (\<lambda>goal.
          Inr (Some \<lparr>gc_id = g, gc_acceptance_version = af_acceptance_version af g,
            gc_acceptance = acceptance_items (af_sha256 af) (goal_acceptance goal)\<rparr>))
      | None \<Rightarrow> Inr None) (\<lambda>goal.
    Inr \<lparr>oc_title = task_title t, oc_description = task_description t,
      oc_acceptance = acceptance_items (af_sha256 af) (task_acceptance t),
      oc_paths = task_paths t, oc_verify = task_verification_commands t,
      oc_evidence = task_required_evidence t, oc_predecessors = depends_on q i,
      oc_successors = sort (map fst (filter (\<lambda>e. snd e = i) (q_dependencies q))),
      oc_goal = goal\<rparr>))"

definition plan_task :: "ApplyFacts \<Rightarrow> Queue \<Rightarrow> TaskId \<Rightarrow> PlanTask option stored" where
  "plan_task af q i =
    (if row_of q i = None then Inr None
     else and_then (read_task q i) (\<lambda>t.
       Inr (Some \<lparr>pt_status = task_status t, pt_goal_id = task_goal_id t,
         pt_acceptance = acceptance_items (af_sha256 af) (task_acceptance t),
         pt_verify = task_verification_commands t, pt_paths = task_paths t,
         pt_evidence = task_required_evidence t, pt_depends_on = depends_on q i\<rparr>)))"

text \<open>The tasks that wait for a task, directly or not.\<close>

definition downstream :: "Queue \<Rightarrow> TaskId \<Rightarrow> TaskId set" where
  "downstream q i = set (closure (map (\<lambda>(task, predecessor). (predecessor, task)) (q_dependencies q)) [i] [])"

text \<open>The tasks that wait for a task now and have not ended, with their statuses.\<close>

definition successors_now :: "Queue \<Rightarrow> TaskId \<Rightarrow> (TaskId \<times> TaskStatus) list" where
  "successors_now q i = map (\<lambda>t. (task_id t, task_status t))
    (filter (\<lambda>t. \<not> TaskStatus_is_terminal (task_status t))
      (sort_key task_id (filter (\<lambda>t. (task_id t, i) \<in> set (q_dependencies q)) (q_tasks q))))"

definition push_wait :: "WaitNode \<times> WaitNode \<Rightarrow> wait_graph \<Rightarrow> wait_graph" where
  "push_wait e graph = AList.update (fst e) (waits_of graph (fst e) @ [snd e]) graph"

text \<open>The edges the apply leaves: those onto the task are left out, since the apply re-points them.\<close>

definition edges_besides :: "Queue \<Rightarrow> TaskId \<Rightarrow> (WaitNode \<times> WaitNode) list" where
  "edges_besides q i =
    map (\<lambda>(j, p). (WaitNode.Task j, WaitNode.Task p)) (filter (\<lambda>e. snd e \<noteq> i) (q_dependencies q))
    @ map (\<lambda>(j, g). (WaitNode.Task j, WaitNode.Goal g)) (q_goal_dependencies q)
    @ member_edges (q_tasks q)
    @ map (\<lambda>(_, from, to). (WaitNode.Task from, WaitNode.Task to))
        (filter (\<lambda>(op, _, _). operation_applied q op) (q_replacements q))"

definition wait_graph :: "Queue \<Rightarrow> TaskId \<Rightarrow> wait_graph" where
  "wait_graph q i = fold push_wait (edges_besides q i) []"

text \<open>The latest plan of an operation, and the versions of the children a revision was approved with.\<close>

definition latest_plan :: "Queue \<Rightarrow> ReplanId \<Rightarrow> PlanRevision option" where
  "latest_plan q i = (case rev (sort_key rev_revision (map row_plan
      (filter (\<lambda>row. row_operation row = i) (q_plans q)))) of
     latest # _ \<Rightarrow> Some latest | [] \<Rightarrow> None)"

definition approved_children :: "Queue \<Rightarrow> ReplanId \<Rightarrow> int \<Rightarrow> (TaskId \<rightharpoonup> string) option" where
  "approved_children q i revision = Option.bind
     (find (\<lambda>row. row_operation row = i \<and> rev_revision (row_plan row) = revision) (q_plans q))
     row_approved_children"

section \<open>The check\<close>

definition named_tasks :: "ReplanOperation \<Rightarrow> ReplacementPlan \<Rightarrow> TaskId list \<Rightarrow> TaskId list" where
  "named_tasks op plan members = remdups (sort (child_ids plan @ members
     @ map ps_task_id (plan_successors plan) @ oc_successors (op_conditions op)
     @ oc_predecessors (op_conditions op) @ List.map_filter pm_landed_task_id (plan_mappings plan)))"

definition plan_context ::
  "ApplyFacts \<Rightarrow> Queue \<Rightarrow> ReplanOperation \<Rightarrow> ReplacementPlan \<Rightarrow> TaskId list \<Rightarrow> PlanContext stored" where
  "plan_context af q op plan members =
    and_then (query_map (\<lambda>i. and_then (plan_task af q i) (\<lambda>t. Inr (i, t)))
      (named_tasks op plan members)) (\<lambda>tasks.
    and_then (case op_goal_id op of
        Some g \<Rightarrow> and_then (acceptance_version_of af q g) (\<lambda>v. Inr (Some v))
      | None \<Rightarrow> Inr None) (\<lambda>version.
    and_then (conditions_of af q (op_task_id op)) (\<lambda>now.
    Inr \<lparr>ctx_operation = op,
      ctx_task_version_now = af_version af (now\<lparr>oc_successors := oc_successors (op_conditions op)\<rparr>),
      ctx_goal_acceptance_version_now = version, ctx_members = members,
      ctx_tasks = (\<lambda>i. Option.bind (map_of tasks i) id), ctx_downstream = downstream q (op_task_id op),
      ctx_authorities = (\<lambda>ask. if Some ask \<in> set (map pm_authority_ask_id (plan_mappings plan))
        then af_authorities af op ask else None)\<rparr>)))"

definition check_replacement ::
  "ApplyFacts \<Rightarrow> Queue \<Rightarrow> ReplanOperation \<Rightarrow> ReplacementPlan \<Rightarrow> TaskId list \<Rightarrow> PlanReviewAction list
    \<Rightarrow> PlanProblem list stored" where
  "check_replacement af q op plan members actions =
    and_then (plan_context af q op plan members) (\<lambda>ctx.
    let successors = map fst (successors_now q (op_task_id op));
        edges = successor_edges plan successors @ [(op_task_id op, child_ids plan)]
    in Inr (check_plan plan (after_actions actions ctx)
      @ (case closes_loop (wait_graph q (op_task_id op)) edges of
          Some task \<Rightarrow> [problem PlanProblemCode.DependencyCycle (Some task)]
        | None \<Rightarrow> [])))"

definition run_of :: "Queue \<Rightarrow> RunId \<Rightarrow> TaskRun stored" where
  "run_of q i = (case find (\<lambda>r. run_id r = i) (q_runs q) of
     Some r \<Rightarrow> Inr r
   | None \<Rightarrow> Inl (Refused (''run '' @ run_id_as_str i @ '' does not exist'')))"

text \<open>Why an operation cannot be applied now; the recoveries stand for the problems.\<close>

definition apply_state ::
  "ApplyFacts \<Rightarrow> Queue \<Rightarrow> ReplanOperation \<Rightarrow> int \<Rightarrow> ApplyState stored" where
  "apply_state af q op generation =
    (let plan = latest_plan q (op_id op) in
     and_then (case plan of
         Some p \<Rightarrow> and_then (af_proposal af (rev_proposal_id p)) (\<lambda>x. Inr (Some x))
       | None \<Rightarrow> Inr None) (\<lambda>proposal.
     and_then (run_of q (op_run_id op)) (\<lambda>run.
     and_then (case (plan, proposal) of
         (Some p, Some (_, members)) \<Rightarrow>
           and_then (query_map (read_task q) (child_ids (rev_plan p))) (\<lambda>children.
           and_then (check_replacement af q op (rev_plan p) members []) (\<lambda>problems.
           Inr (map (\<lambda>t. (task_id t, task_status t)) children,
             map (\<lambda>child. (child, af_child_version af child)) (child_ids (rev_plan p)),
             approved_children q (op_id op) (rev_revision p), problems)))
       | _ \<Rightarrow> Inr ([], [], None, [])) (\<lambda>(children, versions, approved, problems).
     and_then (read_task q (op_task_id op)) (\<lambda>t.
     Inr \<lparr>ap_operation = op, ap_generation = generation, ap_plan = plan,
       ap_proposal = map_option fst proposal, ap_task = task_status t, ap_run = run_status run,
       ap_run_leased = af_leased af (op_run_id op), ap_children = children,
       ap_child_versions = versions, ap_approved_children = approved,
       ap_successors = successors_now q (op_task_id op), ap_plan_problems = problems\<rparr>)))))"

definition problems_now ::
  "ApplyFacts \<Rightarrow> Queue \<Rightarrow> ReplanOperation \<Rightarrow> int \<Rightarrow> ApplyRecovery list stored" where
  "problems_now af q op generation =
    and_then (apply_state af q op generation) (\<lambda>st. Inr (apply_problems st))"

section \<open>The plan\<close>

text \<open>The open operation of the planning request a proposal is linked to (\<open>af_linked\<close>).\<close>

definition replacing_operation :: "ApplyFacts \<Rightarrow> Queue \<Rightarrow> ProposalId \<Rightarrow> ReplanOperation option" where
  "replacing_operation af q proposal =
    find (\<lambda>op. op_closed_at op = None \<and> op_id op \<in> set (af_linked af proposal))
      (sort_key (\<lambda>op. replan_id_as_i64 (op_id op)) (q_operations q))"

definition plan_move :: "string \<Rightarrow> ReplanStatus \<Rightarrow> ReplanMove" where
  "plan_move reason to = \<lparr>move_to = to, move_reason = reason, move_snapshot_id = None,
     move_diagnosis = None\<rparr>"

definition next_revision :: "Queue \<Rightarrow> ReplanId \<Rightarrow> int" where
  "next_revision q i = fold max (map (\<lambda>row. rev_revision (row_plan row))
     (filter (\<lambda>row. row_operation row = i) (q_plans q))) 0 + 1"

text \<open>A plan submitted with its proposal, \<open>hash\<close> that of its text.\<close>

definition record_replacement ::
  "ApplyFacts \<Rightarrow> Queue \<Rightarrow> ProposalId \<Rightarrow> TaskId list \<Rightarrow> ReplacementPlan option \<Rightarrow> string \<Rightarrow> string \<Rightarrow> int
    \<Rightarrow> Queue stored" where
  "record_replacement af q proposal members plan hash reason now = (case replacing_operation af q proposal of
     None \<Rightarrow> (if plan = None then Inr q
       else Inl (Refused ''a replacement plan goes only with a proposal of a planner of a replanning operation's request''))
   | Some op \<Rightarrow> (case plan of
       None \<Rightarrow> Inl (Refused ''submit it with --replacement <plan.json>'')
     | Some plan \<Rightarrow>
        and_then (check_replacement af q op plan members []) (\<lambda>problems.
        if problems \<noteq> [] then Inl (Refused ''the replacement plan is refused'')
        else
          let revision = next_revision q (op_id op);
              row = \<lparr>row_operation = op_id op,
                row_plan = \<lparr>rev_revision = revision, rev_proposal_id = proposal, rev_plan = plan,
                  rev_hash = hash, rev_approved_at = None\<rparr>,
                row_approved_children = None\<rparr>;
              ops = update_operation (q_operations q)
                (op\<lparr>op_proposal_id := Some proposal, op_updated_at := now\<rparr>)
          in and_then (if op_status op = ReplanStatus.Parked
              then and_then (move_in (af_replan af) ops (op_id op) (op_generation op)
                (plan_move reason ReplanStatus.Planning) now) (\<lambda>(ops, op, _). Inr (ops, op))
              else Inr (ops, op)) (\<lambda>(ops, op).
             and_then (if op_status op \<noteq> ReplanStatus.Reviewing
              then and_then (move_in (af_replan af) ops (op_id op) (op_generation op)
                (plan_move reason ReplanStatus.Reviewing) now) (\<lambda>(ops, _). Inr ops)
              else Inr ops) (\<lambda>ops.
             Inr (add_event (op_task_id op) (Some (op_run_id op))
               (EventReplanPlanSubmitted (op_id op) proposal revision)
               (q\<lparr>q_plans := q_plans q @ [row], q_operations := ops\<rparr>)))))))"

text \<open>Plan review accepts the proposal: its plan holds still, and each child's version is kept.\<close>

definition approve_replacement ::
  "ApplyFacts \<Rightarrow> Queue \<Rightarrow> ReplanOperation \<Rightarrow> ProposalId \<Rightarrow> TaskId list \<Rightarrow> string \<Rightarrow> int \<Rightarrow> Queue stored" where
  "approve_replacement af q op proposal members reason now =
    and_then (case latest_plan q (op_id op) of
        Some latest \<Rightarrow> if rev_proposal_id latest = proposal then Inr latest
          else Inl (Refused ''without a plan'')
      | None \<Rightarrow> Inl (Refused ''without a plan'')) (\<lambda>latest.
    and_then (check_replacement af q op (rev_plan latest) members []) (\<lambda>problems.
    if problems \<noteq> [] then Inl (Refused ''its replacement plan no longer holds'')
    else
      let approved = (\<lambda>child. if child \<in> set (child_ids (rev_plan latest))
            then Some (af_child_version af child) else None);
          plans = map (\<lambda>row. if row_operation row = op_id op
              \<and> rev_revision (row_plan row) = rev_revision latest
            then row\<lparr>row_plan := (row_plan row)\<lparr>rev_approved_at := Some now\<rparr>,
              row_approved_children := Some approved\<rparr>
            else row) (q_plans q)
      in and_then (if op_status op = ReplanStatus.AwaitingAnswer
          then and_then (move_in (af_replan af) (q_operations q) (op_id op) (op_generation op)
            (plan_move reason ReplanStatus.Reviewing) now) (\<lambda>(ops, _). Inr ops)
          else Inr (q_operations q)) (\<lambda>ops.
         Inr (add_event (op_task_id op) (Some (op_run_id op))
           (EventReplanPlanApproved (op_id op) proposal (rev_revision latest))
           (q\<lparr>q_plans := plans, q_operations := ops\<rparr>)))))"

text \<open>As plan review holds the proposal for a person, or its planner withdraws it.\<close>

definition proposal_moved ::
  "ApplyFacts \<Rightarrow> Queue \<Rightarrow> ProposalId \<Rightarrow> ReplanStatus \<Rightarrow> string \<Rightarrow> int \<Rightarrow> Queue stored" where
  "proposal_moved af q proposal to reason now = (case replacing_operation af q proposal of
     None \<Rightarrow> Inr q
   | Some op \<Rightarrow>
      if op_proposal_id op = Some proposal \<and> op_status op \<noteq> to
        \<and> ReplanStatus_can_move_to (op_status op) to
      then and_then (move_in (af_replan af) (q_operations q) (op_id op) (op_generation op)
        (plan_move reason to) now) (\<lambda>(ops, _). Inr (q\<lparr>q_operations := ops\<rparr>))
      else Inr q)"

text \<open>The operation of a planning request, as its planner opens.\<close>

definition planner_opened ::
  "ApplyFacts \<Rightarrow> Queue \<Rightarrow> ReplanId option \<Rightarrow> string \<Rightarrow> int \<Rightarrow> Queue stored" where
  "planner_opened af q operation_of_request reason now = (case operation_of_request of
     None \<Rightarrow> Inr q
   | Some i \<Rightarrow>
      and_then (read_operation (q_operations q) i) (\<lambda>op.
      if op_status op = ReplanStatus.Parked
      then and_then (move_in (af_replan af) (q_operations q) i (op_generation op)
        (plan_move reason ReplanStatus.Planning) now) (\<lambda>(ops, _). Inr (q\<lparr>q_operations := ops\<rparr>))
      else Inr q))"

text \<open>The children of a replacement given up go back to draft.\<close>

fun release_each ::
  "TransitionFacts \<Rightarrow> string \<Rightarrow> TaskId list \<Rightarrow> Queue \<Rightarrow> (Queue \<times> TaskId list) stored" where
  "release_each facts stamp [] q = Inr (q, [])"
| "release_each facts stamp (i # others) q =
    and_then (read_task q i) (\<lambda>t.
    and_then (if task_status t = TaskStatus.Submitted
      then and_then (apply_transition facts q i TaskAction.Draft stamp) (\<lambda>(q, _). Inr q)
      else Inr q) (\<lambda>q.
    and_then (read_task q i) (\<lambda>t.
    and_then (release_each facts stamp others q) (\<lambda>(q, released).
    Inr (q, if task_status t = TaskStatus.Draft then i # released else released)))))"

definition release_children ::
  "ApplyFacts \<Rightarrow> Queue \<Rightarrow> ReplanOperation \<Rightarrow> string \<Rightarrow> Queue stored" where
  "release_children af q op stamp = (case op_proposal_id op of
     None \<Rightarrow> Inr q
   | Some proposal \<Rightarrow>
      and_then (af_proposal af proposal) (\<lambda>(_, members).
      and_then (release_each (af_transition af) stamp members q) (\<lambda>(q, released).
      Inr (add_event (op_task_id op) (Some (op_run_id op))
        (EventReplanChildrenReleased (op_id op) released) q))))"

section \<open>The write\<close>

definition apply_move :: "string \<Rightarrow> ReplanStatus \<Rightarrow> ReplanMove" where
  "apply_move reason to = \<lparr>move_to = to, move_reason = reason, move_snapshot_id = None,
     move_diagnosis = None\<rparr>"

text \<open>The loop over \<open>applying\<close> and \<open>applied\<close>, each under the generation read.\<close>

fun move_through ::
  "ReplanFacts \<Rightarrow> ReplanId \<Rightarrow> int \<Rightarrow> string \<Rightarrow> int \<Rightarrow> ReplanStatus list \<Rightarrow> ReplanOperation list
    \<Rightarrow> ReplanOperation list stored" where
  "move_through facts i generation reason now [] ops = Inr ops"
| "move_through facts i generation reason now (to # others) ops =
    and_then (read_operation ops i) (\<lambda>current.
    if op_status current = to then move_through facts i generation reason now others ops
    else and_then (move_in_as facts ops i generation (apply_move reason to) now True) (\<lambda>(ops, _, _).
      move_through facts i generation reason now others ops))"

definition end_replaced_run :: "Queue \<Rightarrow> RunId \<Rightarrow> Queue stored" where
  "end_replaced_run q i =
    and_then (run_of q i) (\<lambda>run.
    and_then (domain (run_end_for_replacement run)) (\<lambda>run.
    Inr (q\<lparr>q_runs := map (\<lambda>r. if run_id r = i then run else r) (q_runs q)\<rparr>)))"

text \<open>\<open>DELETE\<close> the edge onto the replaced task, then \<open>INSERT OR IGNORE\<close> one per need.\<close>

definition repoint_one ::
  "TaskId \<Rightarrow> TaskId \<times> TaskId list \<Rightarrow> (TaskId \<times> TaskId) list \<Rightarrow> (TaskId \<times> TaskId) list" where
  "repoint_one i e edges = push_new (filter (\<lambda>x. x \<noteq> (fst e, i)) edges) (map (\<lambda>need. (fst e, need)) (snd e))"

definition repoint ::
  "TaskId \<Rightarrow> (TaskId \<times> TaskId list) list \<Rightarrow> (TaskId \<times> TaskId) list \<Rightarrow> (TaskId \<times> TaskId) list" where
  "repoint i edges dependencies = fold (repoint_one i) edges dependencies"

definition write_replacement ::
  "ApplyFacts \<Rightarrow> Queue \<Rightarrow> ReplanOperation \<Rightarrow> int \<Rightarrow> string \<Rightarrow> string \<Rightarrow> int
    \<Rightarrow> (Queue \<times> ReplanOperation) stored" where
  "write_replacement af q op generation reason stamp now =
    and_then (case latest_plan q (op_id op) of
        Some latest \<Rightarrow> Inr (rev_plan latest) | None \<Rightarrow> Inl (Refused ''an approved plan'')) (\<lambda>plan.
    and_then (move_through (af_replan af) (op_id op) generation reason now
        [ReplanStatus.Applying, ReplanStatus.Applied] (q_operations q)) (\<lambda>ops.
    and_then (end_replaced_run (q\<lparr>q_operations := ops\<rparr>) (op_run_id op)) (\<lambda>q.
    and_then (replace_task q (op_task_id op) (op_run_id op) stamp) (\<lambda>(q, _).
    let q = q\<lparr>q_replacements := q_replacements q
          @ map (\<lambda>child. (op_id op, op_task_id op, child)) (child_ids plan)\<rparr>
    in and_then (domain (check_mappings (op_id op)
           (map snd (filter (\<lambda>m. fst m = op_id op) (q_mappings q))) (mappings_of plan))) (\<lambda>_.
       let edges = successor_edges plan (map fst (successors_now q (op_task_id op)));
           q = q\<lparr>q_mappings := q_mappings q @ map (\<lambda>m. (op_id op, m)) (mappings_of plan),
             q_dependencies := repoint (op_task_id op) edges (q_dependencies q)\<rparr>
       in and_then (live (\<lambda>child q. and_then (apply_transition (af_transition af) q child Approve stamp)
              (\<lambda>(q, _). Inr q)) (child_ids plan) q) (\<lambda>q.
          let q = add_event (op_task_id op) (Some (op_run_id op))
            (EventReplanApplied (op_id op) (child_ids plan)) q
          in and_then (read_operation (q_operations q) (op_id op)) (\<lambda>op. Inr (q, op))))))))"

section \<open>The apply\<close>

datatype ApplyOutcome =
  Applied ReplanOperation
| AlreadyApplied
| NotApplied ApplyRecovery bool

text \<open>The operations whose replacement is applied now, in the order of their IDs.\<close>

definition plan_accepted :: "ApplyFacts \<Rightarrow> Queue \<Rightarrow> ReplanOperation \<Rightarrow> bool" where
  "plan_accepted af q op \<longleftrightarrow> (case latest_plan q (op_id op) of
     Some p \<Rightarrow> Some (rev_proposal_id p) = op_proposal_id op \<and> rev_approved_at p \<noteq> None
       \<and> (case af_proposal af (rev_proposal_id p) of
            Inr (status, _) \<Rightarrow> status = ProposalStatus.Accepted | Inl _ \<Rightarrow> False)
   | None \<Rightarrow> False)"

definition begun :: "ReplanOperation \<Rightarrow> bool" where
  "begun op \<longleftrightarrow> op_status op = ReplanStatus.Applying
    \<or> op_status op = ReplanStatus.Blocked \<and> op_return_phase op = Some ReplanStatus.Applying"

definition replacements_to_apply :: "ApplyFacts \<Rightarrow> Queue \<Rightarrow> ReplanOperation list" where
  "replacements_to_apply af q = sort_key (\<lambda>op. replan_id_as_i64 (op_id op)) (filter (\<lambda>op. op_closed_at op = None
     \<and> (begun op \<or> op_status op = ReplanStatus.Reviewing \<and> plan_accepted af q op)) (q_operations q))"

definition begin_replan_apply ::
  "ApplyFacts \<Rightarrow> ReplanOperation list \<Rightarrow> ReplanId \<Rightarrow> int \<Rightarrow> string \<Rightarrow> int
    \<Rightarrow> (ReplanOperation list \<times> ReplanOperation) stored" where
  "begin_replan_apply af ops i generation reason now =
    and_then (read_operation ops i) (\<lambda>op.
    if op_status op = ReplanStatus.Applying \<and> op_generation op = generation then Inr (ops, op)
    else and_then (move_in_as (af_replan af) ops i generation (apply_move reason ReplanStatus.Applying) now True)
      (\<lambda>(ops, op, _). Inr (ops, op)))"

text \<open>The hold after a refusal, in a transaction of its own: the table and whether it was written.\<close>

definition hold_apply ::
  "ApplyFacts \<Rightarrow> ReplanOperation list \<Rightarrow> ReplanId \<Rightarrow> int \<Rightarrow> string \<Rightarrow> string \<Rightarrow> ApplyRecovery \<Rightarrow> int
    \<Rightarrow> (ReplanOperation list \<times> bool) stored" where
  "hold_apply af ops i generation reason again recovery now =
    and_then (read_operation ops i) (\<lambda>op.
    if op_generation op \<noteq> generation then Inr (ops, False)
    else
      and_then (if op_status op = ReplanStatus.Applying then
          and_then (move_in_as (af_replan af) ops i generation (apply_move reason ReplanStatus.Blocked) now True)
            (\<lambda>(ops, op, _). Inr (ops, op, True))
        else if op_status op = ReplanStatus.Blocked \<and> op_return_phase op = Some ReplanStatus.Applying
            \<and> op_status_reason op \<noteq> Some reason then
          (let op = op\<lparr>op_status_reason := Some reason, op_updated_at := now\<rparr>
           in Inr (update_operation ops op, op, True))
        else Inr (ops, op, False)) (\<lambda>(ops, op, recorded).
      if op_status op = ReplanStatus.Blocked \<and> op_return_phase op = Some ReplanStatus.Applying
          \<and> recovery = ApplyRecovery.Replan
      then and_then (replan_again (af_replan af) ops op again now) (\<lambda>(ops, _). Inr (ops, True))
      else Inr (ops, recorded)))"

text \<open>The transaction: problems for which it is not applied, or the tables with the operation applied.\<close>

definition attempt ::
  "ApplyFacts \<Rightarrow> Queue \<Rightarrow> ReplanOperation \<Rightarrow> int \<Rightarrow> bool \<Rightarrow> string \<Rightarrow> string \<Rightarrow> int
    \<Rightarrow> (ApplyRecovery list + Queue \<times> ReplanOperation) stored" where
  "attempt af q op generation snapshot_problem reason stamp now =
    and_then (problems_now af q op generation) (\<lambda>problems.
    if problems @ push_if snapshot_problem ApplyRecovery.Person \<noteq> []
    then Inr (Inl (problems @ push_if snapshot_problem ApplyRecovery.Person))
    else and_then (write_replacement af q op generation reason stamp now) (\<lambda>applied. Inr (Inr applied)))"

definition apply_replacement ::
  "ApplyFacts \<Rightarrow> Queue \<Rightarrow> ReplanId \<Rightarrow> int \<Rightarrow> bool \<Rightarrow> string \<Rightarrow> string \<Rightarrow> string \<Rightarrow> string \<Rightarrow> int
    \<Rightarrow> (Queue \<times> ApplyOutcome) stored" where
  "apply_replacement af q i generation snapshot_problem reason refusal again stamp now =
    and_then (read_operation (q_operations q) i) (\<lambda>op.
    if op_status op = ReplanStatus.Applied then Inr (q, AlreadyApplied)
    else if \<not> begun op \<or> op_generation op \<noteq> generation then Inr (q, NotApplied ApplyRecovery.Retry False)
    else
      (case attempt af q op generation snapshot_problem reason stamp now of
         Inr (Inr (q, op)) \<Rightarrow> Inr (q, Applied op)
       | refused \<Rightarrow>
          (let problems = (case refused of Inr (Inl problems) \<Rightarrow> problems | _ \<Rightarrow> [ApplyRecovery.Retry]);
               recovery = case_option ApplyRecovery.Retry id (recovery_of problems)
           in and_then (hold_apply af (q_operations q) i generation refusal again recovery now) (\<lambda>(ops, recorded).
              Inr (q\<lparr>q_operations := ops\<rparr>, NotApplied recovery recorded)))))"

end
