(* ===== verification/Work_Plan.thy ===== *)
theory Work_Plan
  imports Replacement_Plan
begin

text \<open>
  What the queue promises, apart from how its tables keep it: tasks in phases, who waits for whom,
  and the steps by which both may change. A task starts only once everything it waits for has
  landed; waits are rearranged only for tasks not started and never into a loop; a task that is
  split hands those that wait for it over to others.

  \<open>work_ok\<close> is what every step keeps. The locale \<open>work_plan\<close> is the interface of an implementation:
  its steps, read through an abstraction, are steps of the plan, and so every reachable state of it
  has \<open>work_ok\<close>.
\<close>

section \<open>Phases and waits\<close>

datatype Phase = Waiting | Started | Landed | Dropped | SplitUp

record Work =
  phase :: "TaskId \<rightharpoonup> Phase"
  waits :: "(WaitNode \<times> WaitNode) set"

definition no_work :: Work where
  "no_work = \<lparr>phase = Map.empty, waits = {}\<rparr>"

abbreviation waits_for_task :: "Work \<Rightarrow> TaskId \<Rightarrow> TaskId \<Rightarrow> bool" where
  "waits_for_task w i p \<equiv> (WaitNode.Task i, WaitNode.Task p) \<in> waits w"

section \<open>Steps\<close>

text \<open>The waits a task may be given when it has not started: on tasks that were not split up.\<close>

definition new_waits_ok :: "(TaskId \<rightharpoonup> Phase) \<Rightarrow> (WaitNode \<times> WaitNode) set \<Rightarrow> bool" where
  "new_waits_ok ph new \<longleftrightarrow> (\<forall>i p. (WaitNode.Task i, WaitNode.Task p) \<in> new \<longrightarrow>
     ph i = Some Waiting \<and> ph p \<noteq> Some SplitUp)"

inductive work_step :: "Work \<Rightarrow> Work \<Rightarrow> bool" where
  added: "phase w i = None \<Longrightarrow> (\<And>p. \<not> waits_for_task w i p) \<Longrightarrow>
    work_step w (w\<lparr>phase := (phase w)(i \<mapsto> Waiting)\<rparr>)"
| rearranged: "acyclic ws \<Longrightarrow> new_waits_ok (phase w) (ws - waits w) \<Longrightarrow> work_step w (w\<lparr>waits := ws\<rparr>)"
| started: "phase w i = Some Waiting \<Longrightarrow> (\<And>p. waits_for_task w i p \<Longrightarrow> phase w p = Some Landed) \<Longrightarrow>
    work_step w (w\<lparr>phase := (phase w)(i \<mapsto> Started)\<rparr>)"
| returned: "phase w i = Some Started \<Longrightarrow> work_step w (w\<lparr>phase := (phase w)(i \<mapsto> Waiting)\<rparr>)"
| landed: "phase w i = Some Started \<Longrightarrow> work_step w (w\<lparr>phase := (phase w)(i \<mapsto> Landed)\<rparr>)"
| dropped: "phase w i \<in> {Some Waiting, Some Started} \<Longrightarrow> ws \<subseteq> waits w \<Longrightarrow>
    work_step w (w\<lparr>phase := (phase w)(i \<mapsto> Dropped), waits := ws\<rparr>)"
| split_up: "phase w i = Some Started \<Longrightarrow> acyclic ws \<Longrightarrow>
    new_waits_ok ((phase w)(i \<mapsto> SplitUp)) {(a, b) \<in> ws - waits w. a \<noteq> WaitNode.Task i} \<Longrightarrow>
    (\<And>j. (WaitNode.Task j, WaitNode.Task i) \<in> ws \<Longrightarrow> phase w j \<noteq> Some Waiting) \<Longrightarrow>
    work_step w (w\<lparr>phase := (phase w)(i \<mapsto> SplitUp), waits := ws\<rparr>)"

section \<open>What every step keeps\<close>

definition work_ok :: "Work \<Rightarrow> bool" where
  "work_ok w \<longleftrightarrow> acyclic (waits w)
    \<and> (\<forall>i p. waits_for_task w i p \<longrightarrow>
        (phase w i \<in> {Some Started, Some Landed} \<longrightarrow> phase w p = Some Landed)
        \<and> (phase w i = Some Waiting \<longrightarrow> phase w p \<noteq> Some SplitUp))"

lemma no_work_ok: "work_ok no_work"
  by (simp add: work_ok_def no_work_def acyclic_def)

lemma work_okI:
  assumes "acyclic (waits w)"
    and "\<And>i p. waits_for_task w i p \<Longrightarrow> phase w i \<in> {Some Started, Some Landed} \<Longrightarrow> phase w p = Some Landed"
    and "\<And>i p. waits_for_task w i p \<Longrightarrow> phase w i = Some Waiting \<Longrightarrow> phase w p \<noteq> Some SplitUp"
  shows "work_ok w"
  using assms unfolding work_ok_def by blast

lemma work_okD:
  assumes "work_ok w"
  shows "acyclic (waits w)"
    and "waits_for_task w i p \<Longrightarrow> phase w i \<in> {Some Started, Some Landed} \<Longrightarrow> phase w p = Some Landed"
    and "waits_for_task w i p \<Longrightarrow> phase w i = Some Waiting \<Longrightarrow> phase w p \<noteq> Some SplitUp"
  using assms unfolding work_ok_def by blast+

lemma new_waits_okD:
  assumes "new_waits_ok ph new" "(WaitNode.Task i, WaitNode.Task p) \<in> new"
  shows "ph i = Some Waiting" "ph p \<noteq> Some SplitUp"
  using assms by (auto simp: new_waits_ok_def)

text \<open>A phase changes where nothing has landed and nothing waits wrongly for the new one.\<close>

lemma phase_changed_ok:
  assumes "work_ok w" "phase w i \<noteq> Some Landed" "f \<noteq> SplitUp"
    and "\<And>p. waits_for_task w i p \<Longrightarrow> f \<in> {Started, Landed} \<Longrightarrow> phase w p = Some Landed"
    and "\<And>p. waits_for_task w i p \<Longrightarrow> f = Waiting \<Longrightarrow> phase w p \<noteq> Some SplitUp"
  shows "work_ok (w\<lparr>phase := (phase w)(i \<mapsto> f)\<rparr>)" (is "work_ok ?w")
proof (rule work_okI)
  note ok = work_okD [OF assms(1)]
  show "acyclic (waits ?w)" using ok(1) by simp
  fix j p
  assume "waits_for_task ?w j p"
  then have j: "waits_for_task w j p" by simp
  show "phase ?w j \<in> {Some Started, Some Landed} \<Longrightarrow> phase ?w p = Some Landed"
    by (cases "j = i") (use j ok(2) [OF j] assms(2,4) in auto)
  show "phase ?w j = Some Waiting \<Longrightarrow> phase ?w p \<noteq> Some SplitUp"
    by (cases "j = i") (use j ok(3) [OF j] assms(3,5) in auto)
qed

lemma work_step_ok: "work_step w w' \<Longrightarrow> work_ok w \<Longrightarrow> work_ok w'"
proof (induction rule: work_step.induct)
  case (added w i)
  then show ?case by (intro phase_changed_ok) auto
next
  case (rearranged ws w)
  note ok = work_okD [OF rearranged.prems]
  show ?case
  proof (rule work_okI)
    fix i p
    assume "waits_for_task (w\<lparr>waits := ws\<rparr>) i p"
    then consider "waits_for_task w i p" | "(WaitNode.Task i, WaitNode.Task p) \<in> ws - waits w" by auto
    note cases = this
    show "phase (w\<lparr>waits := ws\<rparr>) i \<in> {Some Started, Some Landed} \<Longrightarrow>
        phase (w\<lparr>waits := ws\<rparr>) p = Some Landed"
      using cases by cases (use ok(2) new_waits_okD [OF rearranged.hyps(2)] in auto)
    show "phase (w\<lparr>waits := ws\<rparr>) i = Some Waiting \<Longrightarrow> phase (w\<lparr>waits := ws\<rparr>) p \<noteq> Some SplitUp"
      using cases by cases (use ok(3) new_waits_okD [OF rearranged.hyps(2)] in auto)
  qed (use rearranged.hyps(1) in simp)
next
  case (started w i)
  then show ?case by (intro phase_changed_ok) auto
next
  case (returned w i)
  then show ?case using work_okD(2) [OF returned.prems, of i] by (intro phase_changed_ok) auto
next
  case (landed w i)
  then show ?case using work_okD(2) [OF landed.prems, of i] by (intro phase_changed_ok) auto
next
  case (dropped w i ws)
  note ok = work_okD [OF dropped.prems]
  have "acyclic ws" using ok(1) dropped.hyps(2) by (rule acyclic_subset)
  then show ?case
    by (intro work_okI) (use ok dropped.hyps in \<open>auto split: if_splits\<close>)
next
  case (split_up w i ws)
  note ok = work_okD [OF split_up.prems]
  let ?w = "w\<lparr>phase := (phase w)(i \<mapsto> SplitUp), waits := ws\<rparr>"
  show ?case
  proof (rule work_okI)
    fix j p
    assume j: "waits_for_task ?w j p"
    consider "j = i" | "j \<noteq> i" "waits_for_task w j p"
      | "j \<noteq> i" "(WaitNode.Task j, WaitNode.Task p) \<in> {(a, b) \<in> ws - waits w. a \<noteq> WaitNode.Task i}"
      using j by auto
    note cases = this
    show "phase ?w j \<in> {Some Started, Some Landed} \<Longrightarrow> phase ?w p = Some Landed"
      using cases by cases (use ok(2) split_up.hyps(1) new_waits_okD [OF split_up.hyps(3)] in auto)
    assume waiting: "phase ?w j = Some Waiting"
    have p: "p \<noteq> i" using j waiting split_up.hyps(4) [of j] by (auto split: if_splits)
    from cases show "phase ?w p \<noteq> Some SplitUp"
    proof cases
      case 2
      with waiting p show ?thesis using ok(3) [of j p] by simp
    next
      case 3
      from new_waits_okD(2) [OF split_up.hyps(3) 3(2)] show ?thesis by simp
    qed (use waiting in auto)
  qed (use split_up.hyps(2) in simp)
qed

lemma work_steps_ok: "work_step\<^sup>*\<^sup>* w w' \<Longrightarrow> work_ok w \<Longrightarrow> work_ok w'"
  by (induction rule: rtranclp_induct) (auto intro: work_step_ok)

text \<open>Phases only go forward: what landed, was dropped or was split up stays so.\<close>

lemma work_step_final:
  "work_step w w' \<Longrightarrow> phase w i \<in> {Some Landed, Some Dropped, Some SplitUp} \<Longrightarrow> phase w' i = phase w i"
  by (induction rule: work_step.induct) auto

section \<open>The interface of an implementation\<close>

locale work_plan =
  fixes initial :: "'s \<Rightarrow> bool" and step :: "'s \<Rightarrow> 's \<Rightarrow> bool" and good :: "'s \<Rightarrow> bool"
    and work_of :: "'s \<Rightarrow> Work"
  assumes initial_good: "initial s \<Longrightarrow> good s \<and> work_of s = no_work"
    and step_good: "step s s' \<Longrightarrow> good s \<Longrightarrow> work_ok (work_of s) \<Longrightarrow> good s'"
    and step_simulated: "step s s' \<Longrightarrow> good s \<Longrightarrow> work_ok (work_of s) \<Longrightarrow>
      work_step\<^sup>*\<^sup>* (work_of s) (work_of s')"
begin

definition reachable :: "'s \<Rightarrow> bool" where
  "reachable s \<longleftrightarrow> (\<exists>s0. initial s0 \<and> step\<^sup>*\<^sup>* s0 s)"

lemma steps_ok:
  assumes "step\<^sup>*\<^sup>* s s'" and "good s" "work_ok (work_of s)"
  shows "good s' \<and> work_step\<^sup>*\<^sup>* (work_of s) (work_of s') \<and> work_ok (work_of s')"
  using assms
proof (induction rule: rtranclp_induct)
  case (step b c)
  then have b: "good b" "work_step\<^sup>*\<^sup>* (work_of s) (work_of b)" "work_ok (work_of b)" by auto
  have "work_step\<^sup>*\<^sup>* (work_of b) (work_of c)" by (rule step_simulated [OF step.hyps(2) b(1,3)])
  then show ?case
    using b step_good [OF step.hyps(2) b(1,3)] work_steps_ok [of "work_of b" "work_of c"] by auto
qed auto

lemma reachable_ok: "reachable s \<Longrightarrow> good s \<and> work_ok (work_of s)"
  unfolding reachable_def using initial_good steps_ok no_work_ok by metis

lemma reachable_refines: "reachable s \<Longrightarrow> work_step\<^sup>*\<^sup>* no_work (work_of s)"
  unfolding reachable_def using initial_good steps_ok no_work_ok by metis

lemma reachable_step: "reachable s \<Longrightarrow> step s s' \<Longrightarrow> reachable s'"
  unfolding reachable_def by (meson rtranclp.rtrancl_into_rtrancl)

lemma waits_acyclic: "reachable s \<Longrightarrow> acyclic (waits (work_of s))"
  using reachable_ok by (auto simp: work_ok_def)

lemma started_after_landed:
  "reachable s \<Longrightarrow> waits_for_task (work_of s) i p \<Longrightarrow>
    phase (work_of s) i \<in> {Some Started, Some Landed} \<Longrightarrow> phase (work_of s) p = Some Landed"
  using reachable_ok work_okD(2) by blast

lemma waiting_not_on_split:
  "reachable s \<Longrightarrow> waits_for_task (work_of s) i p \<Longrightarrow>
    phase (work_of s) i = Some Waiting \<Longrightarrow> phase (work_of s) p \<noteq> Some SplitUp"
  using reachable_ok work_okD(3) by blast

end

end
