(* ===== verification/Queue_Core.thy ===== *)
theory Queue_Core
  imports Work_Plan
begin

text \<open>
  What of the queue's tables decides who waits for whom, as sets: the tasks' statuses and goals, the
  edges and the applied replacements. \<open>core_step\<close> is what the transactions of the store do to it,
  each under the conditions its guards check; it keeps \<open>core_ok\<close> and is a step of the plan.
\<close>

section \<open>The core\<close>

record Core =
  c_status :: "TaskId \<rightharpoonup> TaskStatus"
  c_goal :: "TaskId \<rightharpoonup> GoalId"
  c_depends :: "(TaskId \<times> TaskId) set"
  c_goal_depends :: "(TaskId \<times> GoalId) set"
  c_replaced :: "(TaskId \<times> TaskId) set"

definition core_waits :: "Core \<Rightarrow> (WaitNode \<times> WaitNode) set" where
  "core_waits c =
    {(WaitNode.Task i, WaitNode.Task p) | i p. (i, p) \<in> c_depends c \<union> c_replaced c}
    \<union> {(WaitNode.Task i, WaitNode.Goal g) | i g. (i, g) \<in> c_goal_depends c}
    \<union> {(WaitNode.Goal g, WaitNode.Task i) | i g. c_goal c i = Some g
        \<and> c_status c i \<noteq> None \<and> c_status c i \<noteq> Some TaskStatus.Canceled}"

text \<open>A canceled task waits for nothing.\<close>

definition may_wait :: "Core \<Rightarrow> WaitNode \<Rightarrow> bool" where
  "may_wait c x \<longleftrightarrow> (\<forall>i. x = WaitNode.Task i \<longrightarrow> c_status c i \<noteq> Some TaskStatus.Canceled)"

definition live_waits :: "Core \<Rightarrow> (WaitNode \<times> WaitNode) set" where
  "live_waits c = {(x, y) \<in> core_waits c. may_wait c x}"

fun phase_of :: "TaskStatus \<Rightarrow> Phase" where
  "phase_of TaskStatus.Draft = Waiting"
| "phase_of TaskStatus.Submitted = Waiting"
| "phase_of TaskStatus.Ready = Waiting"
| "phase_of TaskStatus.InProgress = Started"
| "phase_of TaskStatus.Completed = Landed"
| "phase_of TaskStatus.Canceled = Dropped"
| "phase_of TaskStatus.Replaced = SplitUp"

definition core_work :: "Core \<Rightarrow> Work" where
  "core_work c = \<lparr>phase = (\<lambda>i. map_option phase_of (c_status c i)), waits = live_waits c\<rparr>"

abbreviation editable :: "TaskStatus option set" where
  "editable \<equiv> {Some TaskStatus.Draft, Some TaskStatus.Submitted, Some TaskStatus.Ready}"

definition core_ok :: "Core \<Rightarrow> bool" where
  "core_ok c \<longleftrightarrow>
    (\<forall>i p. (i, p) \<in> c_depends c \<longrightarrow> c_status c i \<noteq> None \<and> c_status c p \<noteq> None)
    \<and> (\<forall>i g. (i, g) \<in> c_goal_depends c \<longrightarrow> c_status c i \<noteq> None)
    \<and> (\<forall>i p. (i, p) \<in> c_replaced c \<longrightarrow> c_status c i = Some TaskStatus.Replaced \<and> c_status c p \<noteq> None)
    \<and> (\<forall>i p. (i, p) \<in> c_depends c \<longrightarrow>
        c_status c i \<in> {Some TaskStatus.InProgress, Some TaskStatus.Completed, Some TaskStatus.Replaced} \<longrightarrow>
        c_status c p = Some TaskStatus.Completed)"

section \<open>Steps\<close>

inductive core_step :: "Core \<Rightarrow> Core \<Rightarrow> bool" where
  core_added: "c_status c i = None \<Longrightarrow>
    core_step c (c\<lparr>c_status := (c_status c)(i \<mapsto> TaskStatus.Draft), c_goal := (c_goal c)(i := g)\<rparr>)"
| core_depends: "c_status c i \<in> editable \<Longrightarrow> c_status c p \<noteq> None \<Longrightarrow>
    c_status c p \<noteq> Some TaskStatus.Replaced \<Longrightarrow>
    (WaitNode.Task p, WaitNode.Task i) \<notin> (core_waits c)\<^sup>* \<Longrightarrow>
    core_step c (c\<lparr>c_depends := insert (i, p) (c_depends c)\<rparr>)"
| core_goal_depends: "c_status c i \<in> editable \<Longrightarrow>
    (WaitNode.Goal g, WaitNode.Task i) \<notin> (core_waits c)\<^sup>* \<Longrightarrow>
    core_step c (c\<lparr>c_goal_depends := insert (i, g) (c_goal_depends c)\<rparr>)"
| core_removed: "D \<subseteq> c_depends c \<Longrightarrow> G \<subseteq> c_goal_depends c \<Longrightarrow>
    core_step c (c\<lparr>c_depends := D, c_goal_depends := G\<rparr>)"
| core_rehomed: "c_status c i \<in> editable \<Longrightarrow>
    (\<And>h. g = Some h \<Longrightarrow> (WaitNode.Task i, WaitNode.Goal h) \<notin> (core_waits c)\<^sup>*) \<Longrightarrow>
    core_step c (c\<lparr>c_goal := (c_goal c)(i := g)\<rparr>)"
| core_moved: "c_status c i \<in> insert (Some TaskStatus.InProgress) editable \<Longrightarrow>
    Some s \<in> insert (Some TaskStatus.Canceled) editable \<Longrightarrow>
    core_step c (c\<lparr>c_status := (c_status c)(i \<mapsto> s)\<rparr>)"
| core_claimed: "c_status c i = Some TaskStatus.Ready \<Longrightarrow>
    (\<And>p. (i, p) \<in> c_depends c \<Longrightarrow> c_status c p = Some TaskStatus.Completed) \<Longrightarrow>
    core_step c (c\<lparr>c_status := (c_status c)(i \<mapsto> TaskStatus.InProgress)\<rparr>)"
| core_completed: "c_status c i = Some TaskStatus.InProgress \<Longrightarrow>
    core_step c (c\<lparr>c_status := (c_status c)(i \<mapsto> TaskStatus.Completed)\<rparr>)"
| core_replaced: "c_status c i = Some TaskStatus.InProgress \<Longrightarrow>
    (\<And>j. j \<in> C \<Longrightarrow> c_status c j \<in> editable) \<Longrightarrow>
    (\<And>j p. (j, p) \<in> D - c_depends c \<Longrightarrow> c_status c j \<in> editable \<and> p \<in> C) \<Longrightarrow>
    (\<And>j. (j, i) \<in> D \<Longrightarrow> c_status c j \<notin> editable) \<Longrightarrow>
    c' = c\<lparr>c_status := (c_status c)(i \<mapsto> TaskStatus.Replaced), c_depends := D,
      c_replaced := c_replaced c \<union> {i} \<times> C\<rparr> \<Longrightarrow>
    acyclic (live_waits c') \<Longrightarrow>
    core_step c c'"

section \<open>Lemmas\<close>

lemma core_waits_simps [simp]:
  "(WaitNode.Task i, WaitNode.Task p) \<in> core_waits c \<longleftrightarrow> (i, p) \<in> c_depends c \<or> (i, p) \<in> c_replaced c"
  "(WaitNode.Task i, WaitNode.Goal g) \<in> core_waits c \<longleftrightarrow> (i, g) \<in> c_goal_depends c"
  "(WaitNode.Goal g, WaitNode.Task i) \<in> core_waits c \<longleftrightarrow>
    c_goal c i = Some g \<and> c_status c i \<noteq> None \<and> c_status c i \<noteq> Some TaskStatus.Canceled"
  "(WaitNode.Goal g, WaitNode.Goal h) \<notin> core_waits c"
  by (auto simp: core_waits_def)

lemma may_wait_simps [simp]:
  "may_wait c (WaitNode.Goal g)" "may_wait c (WaitNode.Task i) \<longleftrightarrow> c_status c i \<noteq> Some TaskStatus.Canceled"
  by (auto simp: may_wait_def)

lemma live_waits_iff [simp]: "(x, y) \<in> live_waits c \<longleftrightarrow> (x, y) \<in> core_waits c \<and> may_wait c x"
  by (simp add: live_waits_def)

lemma live_waits_subset: "live_waits c \<subseteq> core_waits c"
  by auto

lemma waits_subsetI:
  assumes "\<And>i p. (WaitNode.Task i, WaitNode.Task p) \<in> r \<Longrightarrow> (WaitNode.Task i, WaitNode.Task p) \<in> s"
    and "\<And>i g. (WaitNode.Task i, WaitNode.Goal g) \<in> r \<Longrightarrow> (WaitNode.Task i, WaitNode.Goal g) \<in> s"
    and "\<And>i g. (WaitNode.Goal g, WaitNode.Task i) \<in> r \<Longrightarrow> (WaitNode.Goal g, WaitNode.Task i) \<in> s"
    and "\<And>g h. (WaitNode.Goal g, WaitNode.Goal h) \<in> r \<Longrightarrow> (WaitNode.Goal g, WaitNode.Goal h) \<in> s"
  shows "r \<subseteq> s"
proof
  fix e assume e: "e \<in> r"
  obtain x y where "e = (x, y)" by (cases e)
  with e assms show "e \<in> s" by (cases x; cases y) auto
qed

lemma core_okI:
  assumes "\<And>i p. (i, p) \<in> c_depends c \<Longrightarrow> c_status c i \<noteq> None \<and> c_status c p \<noteq> None"
    and "\<And>i g. (i, g) \<in> c_goal_depends c \<Longrightarrow> c_status c i \<noteq> None"
    and "\<And>i p. (i, p) \<in> c_replaced c \<Longrightarrow> c_status c i = Some TaskStatus.Replaced \<and> c_status c p \<noteq> None"
    and "\<And>i p. (i, p) \<in> c_depends c \<Longrightarrow>
        c_status c i \<in> {Some TaskStatus.InProgress, Some TaskStatus.Completed, Some TaskStatus.Replaced} \<Longrightarrow>
        c_status c p = Some TaskStatus.Completed"
  shows "core_ok c"
  using assms unfolding core_ok_def by blast

lemma core_okD:
  assumes "core_ok c"
  shows "(i, p) \<in> c_depends c \<Longrightarrow> c_status c i \<noteq> None \<and> c_status c p \<noteq> None"
    and "(i, g) \<in> c_goal_depends c \<Longrightarrow> c_status c i \<noteq> None"
    and "(i, p) \<in> c_replaced c \<Longrightarrow> c_status c i = Some TaskStatus.Replaced \<and> c_status c p \<noteq> None"
    and "(i, p) \<in> c_depends c \<Longrightarrow>
        c_status c i \<in> {Some TaskStatus.InProgress, Some TaskStatus.Completed, Some TaskStatus.Replaced} \<Longrightarrow>
        c_status c p = Some TaskStatus.Completed"
  using assms unfolding core_ok_def by blast+

lemma phase_of_iff [simp]:
  "phase_of s = Waiting \<longleftrightarrow> Some s \<in> editable"
  "phase_of s = Started \<longleftrightarrow> s = TaskStatus.InProgress"
  "phase_of s = Landed \<longleftrightarrow> s = TaskStatus.Completed"
  "phase_of s = Dropped \<longleftrightarrow> s = TaskStatus.Canceled"
  "phase_of s = SplitUp \<longleftrightarrow> s = TaskStatus.Replaced"
  by (cases s; simp)+

lemma core_work_simps [simp]:
  "phase (core_work c) i = map_option phase_of (c_status c i)" "waits (core_work c) = live_waits c"
  by (simp_all add: core_work_def)

lemma phase_is:
  "map_option phase_of x = Some Waiting \<longleftrightarrow> x \<in> editable"
  "map_option phase_of x = Some Started \<longleftrightarrow> x = Some TaskStatus.InProgress"
  "map_option phase_of x = Some Landed \<longleftrightarrow> x = Some TaskStatus.Completed"
  "map_option phase_of x = Some Dropped \<longleftrightarrow> x = Some TaskStatus.Canceled"
  "map_option phase_of x = Some SplitUp \<longleftrightarrow> x = Some TaskStatus.Replaced"
  by (cases x; auto)+

section \<open>Every step keeps the invariant\<close>

text \<open>The status of a task that is neither completed nor replaced changes.\<close>

lemma core_status_ok:
  assumes "core_ok c" "c_status c i \<notin> {None, Some TaskStatus.Completed, Some TaskStatus.Replaced}"
    and "\<And>p. (i, p) \<in> c_depends c \<Longrightarrow>
      s \<in> {TaskStatus.InProgress, TaskStatus.Completed, TaskStatus.Replaced} \<Longrightarrow>
      c_status c p = Some TaskStatus.Completed"
  shows "core_ok (c\<lparr>c_status := (c_status c)(i \<mapsto> s)\<rparr>)" (is "core_ok ?c")
proof (rule core_okI)
  note ok = core_okD [OF assms(1)]
  fix j p
  assume e: "(j, p) \<in> c_depends ?c"
    "c_status ?c j \<in> {Some TaskStatus.InProgress, Some TaskStatus.Completed, Some TaskStatus.Replaced}"
  have "c_status c p = Some TaskStatus.Completed"
    by (cases "j = i") (use e ok(4) [of j p] assms(3) [of p] in auto)
  with assms(2) show "c_status ?c p = Some TaskStatus.Completed" by auto
qed (use core_okD [OF assms(1)] assms(2) in \<open>auto split: if_splits\<close>)

lemma core_step_ok: "core_step c c' \<Longrightarrow> core_ok c \<Longrightarrow> core_ok c'"
proof (induction rule: core_step.induct)
  case (core_added c i g)
  note ok = core_okD [OF core_added.prems]
  have away: "(i, p) \<notin> c_depends c" "(p, i) \<notin> c_depends c" "(i, h) \<notin> c_goal_depends c"
    "(i, p) \<notin> c_replaced c" "(p, i) \<notin> c_replaced c" for p h
    using ok core_added.hyps by fastforce+
  show ?case by (rule core_okI) (use ok away in \<open>auto split: if_splits\<close>)
next
  case (core_depends c i p)
  note ok = core_okD [OF core_depends.prems]
  show ?case by (rule core_okI) (use ok core_depends.hyps in auto)
next
  case (core_goal_depends c i g)
  note ok = core_okD [OF core_goal_depends.prems]
  show ?case by (rule core_okI) (use ok core_goal_depends.hyps in auto)
next
  case (core_removed D c G)
  note ok = core_okD [OF core_removed.prems]
  show ?case by (rule core_okI) (use ok core_removed.hyps in auto)
next
  case (core_rehomed c i g)
  note ok = core_okD [OF core_rehomed.prems]
  show ?case by (rule core_okI) (use ok in auto)
next
  case (core_moved c i s)
  then show ?case by (intro core_status_ok) auto
next
  case (core_claimed c i)
  then show ?case by (intro core_status_ok) auto
next
  case (core_completed c i)
  then show ?case using core_okD(4) [OF core_completed.prems, of i] by (intro core_status_ok) auto
next
  case (core_replaced c i C D c')
  note ok = core_okD [OF core_replaced.prems]
  note c' = core_replaced.hyps(5)
  have inside: "c_status c j \<noteq> None \<and> c_status c p \<noteq> None" if "(j, p) \<in> D" for j p
    by (cases "(j, p) \<in> c_depends c")
      (use that ok(1) core_replaced.hyps(2) [of p] core_replaced.hyps(3) [of j p] in auto)
  have child: "c_status c p \<noteq> None" if "p \<in> C" for p using core_replaced.hyps(2) [OF that] by auto
  have settled: "c_status c' p = Some TaskStatus.Completed"
    if e: "(j, p) \<in> D" "c_status c' j \<in> {Some TaskStatus.InProgress, Some TaskStatus.Completed,
      Some TaskStatus.Replaced}" for j p
  proof -
    have "c_status c j \<in> {Some TaskStatus.InProgress, Some TaskStatus.Completed, Some TaskStatus.Replaced}"
      using e(2) core_replaced.hyps(1) by (auto simp: c' split: if_splits)
    moreover from this have "c_status c j \<notin> editable" by auto
    then have "(j, p) \<in> c_depends c" using e(1) core_replaced.hyps(3) [of j p] by blast
    ultimately have "c_status c p = Some TaskStatus.Completed" using ok(4) by blast
    with core_replaced.hyps(1) show ?thesis by (auto simp: c')
  qed
  show ?case
    by (rule core_okI) (use ok inside settled child core_replaced.hyps(1) in \<open>auto simp: c' split: if_splits\<close>)
qed

section \<open>Every step is a step of the plan\<close>

lemma new_edge_acyclic:
  assumes "acyclic (live_waits c)" "(y, x) \<notin> (core_waits c)\<^sup>*" "r \<subseteq> insert (x, y) (live_waits c)"
  shows "acyclic r"
proof -
  have "(y, x) \<notin> (live_waits c)\<^sup>*" using assms(2) rtrancl_mono [OF live_waits_subset] by blast
  with assms(1) have "acyclic (insert (x, y) (live_waits c))" by (simp add: acyclic_insert)
  from this assms(3) show ?thesis by (rule acyclic_subset)
qed

lemma rearrange_core:
  assumes "acyclic (live_waits c')" "c_status c' = c_status c"
    and "\<And>i p. (WaitNode.Task i, WaitNode.Task p) \<in> live_waits c' - live_waits c \<Longrightarrow>
      c_status c i \<in> editable \<and> c_status c p \<noteq> Some TaskStatus.Replaced"
  shows "work_step\<^sup>*\<^sup>* (core_work c) (core_work c')"
proof -
  have "work_step (core_work c) ((core_work c)\<lparr>waits := live_waits c'\<rparr>)"
  proof (rule work_step.rearranged [OF assms(1)])
    show "new_waits_ok (phase (core_work c)) (live_waits c' - waits (core_work c))"
      using assms(3) unfolding new_waits_ok_def core_work_simps phase_is by blast
  qed
  moreover have "(core_work c)\<lparr>waits := live_waits c'\<rparr> = core_work c'"
    using assms(2) by (simp add: core_work_def)
  ultimately show ?thesis by simp
qed

lemma core_work_eqI:
  assumes "\<And>i. map_option phase_of (c_status c' i) = ph i" "live_waits c' = ws"
  shows "core_work c' = \<lparr>phase = ph, waits = ws\<rparr>"
  using assms by (simp add: core_work_def fun_eq_iff)

lemma status_change_waits:
  assumes "c_status c i \<noteq> None" "c_status c i \<noteq> Some TaskStatus.Canceled" "s \<noteq> TaskStatus.Canceled"
  shows "live_waits (c\<lparr>c_status := (c_status c)(i \<mapsto> s)\<rparr>) = live_waits c"
  by (rule equalityI; rule waits_subsetI) (use assms in \<open>auto split: if_splits\<close>)

lemma status_change_work:
  assumes "c_status c i \<noteq> None" "c_status c i \<noteq> Some TaskStatus.Canceled" "s \<noteq> TaskStatus.Canceled"
  shows "core_work (c\<lparr>c_status := (c_status c)(i \<mapsto> s)\<rparr>)
    = (core_work c)\<lparr>phase := (phase (core_work c))(i \<mapsto> phase_of s)\<rparr>"
  unfolding core_work_def status_change_waits [OF assms] by (simp add: fun_eq_iff)

lemma core_added_work:
  assumes "core_ok c" "work_ok (core_work c)" "c_status c i = None"
  shows "work_step\<^sup>*\<^sup>* (core_work c)
    (core_work (c\<lparr>c_status := (c_status c)(i \<mapsto> TaskStatus.Draft), c_goal := (c_goal c)(i := g)\<rparr>))"
proof -
  note ok = core_okD [OF assms(1)]
  let ?c = "c\<lparr>c_status := (c_status c)(i \<mapsto> TaskStatus.Draft)\<rparr>"
  let ?c' = "c\<lparr>c_status := (c_status c)(i \<mapsto> TaskStatus.Draft), c_goal := (c_goal c)(i := g)\<rparr>"
  let ?w = "(core_work c)\<lparr>phase := (phase (core_work c))(i \<mapsto> Waiting)\<rparr>"
  have acyc: "acyclic (live_waits c)" using work_okD(1) [OF assms(2)] by simp
  have none: "(WaitNode.Task i, y) \<notin> core_waits c" for y
    using ok(1,3) [of i] ok(2) [of i] assms(3) by (cases y) auto
  have first: "work_step (core_work c) ?w"
    by (rule work_step.added) (use assms(3) none [of "WaitNode.Task _"] in auto)
  have away: "(WaitNode.Task i, x) \<in> (core_waits c)\<^sup>* \<Longrightarrow> x = WaitNode.Task i" for x
    using none by (metis converse_rtranclE)
  have sub: "live_waits ?c' \<subseteq> live_waits c \<union> {(WaitNode.Goal h, WaitNode.Task i) | h. g = Some h}"
    by (rule waits_subsetI) (use assms(3) none in \<open>auto split: if_splits\<close>)
  have sup: "live_waits c \<subseteq> live_waits ?c'"
    by (rule waits_subsetI) (use assms(3) in auto)
  have "acyclic (live_waits ?c')"
  proof (cases g)
    case None
    then show ?thesis using acyclic_subset [OF acyc] sub by simp
  next
    case (Some h)
    then show ?thesis using new_edge_acyclic [OF acyc, of "WaitNode.Task i" "WaitNode.Goal h"] away sub by auto
  qed
  then have "work_step ?w (?w\<lparr>waits := live_waits ?c'\<rparr>)"
  proof (rule work_step.rearranged)
    show "new_waits_ok (phase ?w) (live_waits ?c' - waits ?w)"
    proof -
      have "waits ?w = live_waits c" by simp
      then show ?thesis using sub unfolding new_waits_ok_def by blast
    qed
  qed
  moreover have "?w\<lparr>waits := live_waits ?c'\<rparr> = core_work ?c'" by (simp add: core_work_def fun_eq_iff)
  ultimately show ?thesis using first by simp
qed

lemma core_moved_work:
  assumes "c_status c i \<in> insert (Some TaskStatus.InProgress) editable"
    "Some s \<in> insert (Some TaskStatus.Canceled) editable"
  shows "work_step\<^sup>*\<^sup>* (core_work c) (core_work (c\<lparr>c_status := (c_status c)(i \<mapsto> s)\<rparr>))"
proof -
  let ?c' = "c\<lparr>c_status := (c_status c)(i \<mapsto> s)\<rparr>"
  consider "s = TaskStatus.Canceled" | "s \<noteq> TaskStatus.Canceled" "c_status c i = Some TaskStatus.InProgress"
    | "s \<noteq> TaskStatus.Canceled" "c_status c i \<in> editable"
    using assms by blast
  then show ?thesis
  proof cases
    case 1
    have "work_step (core_work c)
        ((core_work c)\<lparr>phase := (phase (core_work c))(i \<mapsto> Dropped), waits := live_waits ?c'\<rparr>)"
    proof (rule work_step.dropped)
      show "live_waits ?c' \<subseteq> waits (core_work c)"
        by (rule waits_subsetI) (use 1 assms in \<open>auto split: if_splits\<close>)
    qed (use assms(1) in auto)
    moreover have "(core_work c)\<lparr>phase := (phase (core_work c))(i \<mapsto> Dropped), waits := live_waits ?c'\<rparr>
        = core_work ?c'"
      by (simp add: core_work_def fun_eq_iff 1)
    ultimately show ?thesis by simp
  next
    case 2
    have "work_step (core_work c) ((core_work c)\<lparr>phase := (phase (core_work c))(i \<mapsto> Waiting)\<rparr>)"
      by (rule work_step.returned) (use 2 in simp)
    moreover have "phase_of s = Waiting" using 2(1) assms(2) by simp
    then have "core_work ?c' = (core_work c)\<lparr>phase := (phase (core_work c))(i \<mapsto> Waiting)\<rparr>"
      using status_change_work [of c i s] 2 by (simp del: phase_of_iff)
    ultimately show ?thesis by (simp only: r_into_rtranclp)
  next
    case 3
    have "phase_of s = Waiting" using 3(1) assms(2) by simp
    moreover have "(core_work c)\<lparr>phase := (phase (core_work c))(i \<mapsto> Waiting)\<rparr> = core_work c"
      using 3(2) by (auto simp: core_work_def fun_eq_iff)
    ultimately have "core_work ?c' = core_work c"
      using status_change_work [of c i s] 3 by (auto simp del: phase_of_iff)
    then show ?thesis by simp
  qed
qed

lemma core_replaced_work:
  assumes "core_ok c" "c_status c i = Some TaskStatus.InProgress"
    and "\<And>j. j \<in> C \<Longrightarrow> c_status c j \<in> editable"
    and "\<And>j p. (j, p) \<in> D - c_depends c \<Longrightarrow> c_status c j \<in> editable \<and> p \<in> C"
    and "\<And>j. (j, i) \<in> D \<Longrightarrow> c_status c j \<notin> editable"
    and "c' = c\<lparr>c_status := (c_status c)(i \<mapsto> TaskStatus.Replaced), c_depends := D,
      c_replaced := c_replaced c \<union> {i} \<times> C\<rparr>"
    and "acyclic (live_waits c')"
  shows "work_step\<^sup>*\<^sup>* (core_work c) (core_work c')"
proof -
  note ok = core_okD [OF assms(1)] and c' = assms(6)
  have not_child: "i \<notin> C" using assms(2) assms(3) [of i] by auto
  have "work_step (core_work c)
      ((core_work c)\<lparr>phase := (phase (core_work c))(i \<mapsto> SplitUp), waits := live_waits c'\<rparr>)"
  proof (rule work_step.split_up)
    show "phase (core_work c) i = Some Started" using assms(2) by simp
    show "acyclic (live_waits c')" by (rule assms(7))
    show "phase (core_work c) j \<noteq> Some Waiting" if "(WaitNode.Task j, WaitNode.Task i) \<in> live_waits c'" for j
    proof -
      have "(j, i) \<in> D \<or> (j, i) \<in> c_replaced c" using that not_child by (auto simp: c')
      then show ?thesis
        unfolding core_work_simps phase_is using assms(5) [of j] ok(3) [of j i] by auto
    qed
    show "new_waits_ok ((phase (core_work c))(i \<mapsto> SplitUp))
        {(a, b) \<in> live_waits c' - waits (core_work c). a \<noteq> WaitNode.Task i}"
      unfolding new_waits_ok_def
    proof (intro allI impI)
      fix j p
      assume "(WaitNode.Task j, WaitNode.Task p)
        \<in> {(a, b) \<in> live_waits c' - waits (core_work c). a \<noteq> WaitNode.Task i}"
      then have j: "j \<noteq> i" "(j, p) \<in> D - c_depends c" by (auto simp: c')
      from assms(4) [OF j(2)] assms(3) [of p] not_child j(1)
      show "((phase (core_work c))(i \<mapsto> SplitUp)) j = Some Waiting
        \<and> ((phase (core_work c))(i \<mapsto> SplitUp)) p \<noteq> Some SplitUp"
        by auto
    qed
  qed
  moreover have "(core_work c)\<lparr>phase := (phase (core_work c))(i \<mapsto> SplitUp), waits := live_waits c'\<rparr> = core_work c'"
    by (simp add: core_work_def fun_eq_iff c')
  ultimately show ?thesis by simp
qed

lemma core_step_work:
  "core_step c c' \<Longrightarrow> core_ok c \<Longrightarrow> work_ok (core_work c) \<Longrightarrow> work_step\<^sup>*\<^sup>* (core_work c) (core_work c')"
proof (induction rule: core_step.induct)
  case (core_added c i g)
  then show ?case by (intro core_added_work)
next
  case (core_depends c i p)
  have acyc: "acyclic (live_waits c)" using work_okD(1) [OF core_depends.prems(2)] by simp
  let ?c' = "c\<lparr>c_depends := insert (i, p) (c_depends c)\<rparr>"
  have sub: "live_waits ?c' \<subseteq> insert (WaitNode.Task i, WaitNode.Task p) (live_waits c)"
    by (rule waits_subsetI) auto
  show ?case
  proof (rule rearrange_core)
    show "acyclic (live_waits ?c')" using new_edge_acyclic [OF acyc core_depends.hyps(4) sub] .
  qed (use sub core_depends.hyps in auto)
next
  case (core_goal_depends c i g)
  have acyc: "acyclic (live_waits c)" using work_okD(1) [OF core_goal_depends.prems(2)] by simp
  let ?c' = "c\<lparr>c_goal_depends := insert (i, g) (c_goal_depends c)\<rparr>"
  have sub: "live_waits ?c' \<subseteq> insert (WaitNode.Task i, WaitNode.Goal g) (live_waits c)"
    by (rule waits_subsetI) auto
  show ?case
  proof (rule rearrange_core)
    show "acyclic (live_waits ?c')" using new_edge_acyclic [OF acyc core_goal_depends.hyps(2) sub] .
  qed (use sub in auto)
next
  case (core_removed D c G)
  have acyc: "acyclic (live_waits c)" using work_okD(1) [OF core_removed.prems(2)] by simp
  let ?c' = "c\<lparr>c_depends := D, c_goal_depends := G\<rparr>"
  have sub: "live_waits ?c' \<subseteq> live_waits c"
    by (rule waits_subsetI) (use core_removed.hyps in auto)
  show ?case
    by (rule rearrange_core) (use acyclic_subset [OF acyc sub] core_removed.hyps in auto)
next
  case (core_rehomed c i g)
  have acyc: "acyclic (live_waits c)" using work_okD(1) [OF core_rehomed.prems(2)] by simp
  let ?c' = "c\<lparr>c_goal := (c_goal c)(i := g)\<rparr>"
  have sub: "live_waits ?c' \<subseteq> live_waits c \<union> {(WaitNode.Goal h, WaitNode.Task i) | h. g = Some h}"
    by (rule waits_subsetI) (auto split: if_splits)
  have "acyclic (live_waits ?c')"
  proof (cases g)
    case None
    then show ?thesis using acyclic_subset [OF acyc] sub by simp
  next
    case (Some h)
    show ?thesis by (rule new_edge_acyclic [OF acyc core_rehomed.hyps(2) [OF Some]]) (use sub Some in auto)
  qed
  then show ?case by (rule rearrange_core) (use sub in auto)
next
  case (core_moved c i s)
  then show ?case by (intro core_moved_work)
next
  case (core_claimed c i)
  have "work_step (core_work c) ((core_work c)\<lparr>phase := (phase (core_work c))(i \<mapsto> Started)\<rparr>)"
  proof (rule work_step.started)
    fix p assume "waits_for_task (core_work c) i p"
    then have "(i, p) \<in> c_depends c"
      using core_okD(3) [OF core_claimed.prems(1), of i p] core_claimed.hyps(1) by auto
    from core_claimed.hyps(2) [OF this] show "phase (core_work c) p = Some Landed" by simp
  qed (use core_claimed.hyps(1) in simp)
  then show ?case using status_change_work [of c i TaskStatus.InProgress] core_claimed.hyps(1) by simp
next
  case (core_completed c i)
  have "work_step (core_work c) ((core_work c)\<lparr>phase := (phase (core_work c))(i \<mapsto> Landed)\<rparr>)"
    by (rule work_step.landed) (use core_completed.hyps(1) in simp)
  then show ?case using status_change_work [of c i TaskStatus.Completed] core_completed.hyps(1) by simp
next
  case (core_replaced c i C D c')
  show ?case by (rule core_replaced_work [OF core_replaced.prems(1) core_replaced.hyps])
qed

end
