(* ===== verification/Queue_Refinement.thy ===== *)
theory Queue_Refinement
  imports Replacement_Apply Queue_Core
begin

text \<open>
  The queue's store against the plan of work: \<open>core_of\<close> reads the core off the tables, every
  transaction of the store is a sequence of core steps, and so a sequence of steps of the plan.
\<close>

section \<open>The core of the tables\<close>

definition applied_ids :: "ReplanOperation list \<Rightarrow> ReplanId set" where
  "applied_ids ops = op_id ` {op \<in> set ops. op_status op = ReplanStatus.Applied}"

definition core_of :: "Queue \<Rightarrow> Core" where
  "core_of q = \<lparr>c_status = status_of q, c_goal = membership q,
     c_depends = set (q_dependencies q), c_goal_depends = set (q_goal_dependencies q),
     c_replaced = {(from, to). \<exists>op \<in> applied_ids (q_operations q). (op, from, to) \<in> set (q_replacements q)}\<rparr>"

text \<open>What holds of the tables besides: one row per task, the board of operations, and
  replacements of applied operations only.\<close>

definition tables_ok :: "Queue \<Rightarrow> bool" where
  "tables_ok q \<longleftrightarrow> distinct (map task_id (q_tasks q)) \<and> board_ok (q_operations q)
    \<and> fst ` set (q_replacements q) \<subseteq> applied_ids (q_operations q)"

definition queue_ok :: "Queue \<Rightarrow> bool" where
  "queue_ok q \<longleftrightarrow> tables_ok q \<and> core_ok (core_of q)"

lemma core_of_simps [simp]:
  "c_status (core_of q) = status_of q" "c_goal (core_of q) = membership q"
  "c_depends (core_of q) = set (q_dependencies q)" "c_goal_depends (core_of q) = set (q_goal_dependencies q)"
  by (simp_all add: core_of_def)

lemma operation_applied_iff: "operation_applied q i \<longleftrightarrow> i \<in> applied_ids (q_operations q)"
  by (auto simp: operation_applied_def applied_ids_def list_ex_iff)

lemma tables_okD:
  assumes "tables_ok q"
  shows "distinct (map task_id (q_tasks q))" "board_ok (q_operations q)"
    and "fst ` set (q_replacements q) \<subseteq> applied_ids (q_operations q)"
  using assms by (auto simp: tables_ok_def)

lemma replaced_rows:
  "tables_ok q \<Longrightarrow> c_replaced (core_of q) = {(from, to). \<exists>op. (op, from, to) \<in> set (q_replacements q)}"
  unfolding core_of_def tables_ok_def by force

lemma member_edges_iff:
  "(x, y) \<in> set (member_edges ts) \<longleftrightarrow>
    (\<exists>t \<in> set ts. \<exists>g. task_goal_id t = Some g \<and> task_status t \<noteq> TaskStatus.Canceled
      \<and> x = WaitNode.Goal g \<and> y = WaitNode.Task (task_id t))"
  unfolding member_edges_def set_known by (force split: option.splits)

lemma member_edges_core:
  assumes "distinct (map task_id (q_tasks q))"
  shows "(WaitNode.Goal g, WaitNode.Task i) \<in> set (member_edges (q_tasks q)) \<longleftrightarrow>
    membership q i = Some g \<and> status_of q i \<noteq> None \<and> status_of q i \<noteq> Some TaskStatus.Canceled"
proof -
  have "(WaitNode.Goal g, WaitNode.Task i) \<in> set (member_edges (q_tasks q)) \<longleftrightarrow>
      (\<exists>t. row_of q i = Some t \<and> task_goal_id t = Some g \<and> task_status t \<noteq> TaskStatus.Canceled)"
    unfolding member_edges_iff row_of_distinct [OF assms] by auto
  then show ?thesis by (auto simp: membership_def status_of_def)
qed

text \<open>The wait graph the store searches is the core's.\<close>

lemma set_map_edges:
  "set (map (\<lambda>(i, p). (f i, g p)) xs) = {(f i, g p) | i p. (i, p) \<in> set xs}"
  "set (map (\<lambda>(_, i, p). (f i, g p)) rs) = {(f i, g p) | i p. \<exists>op. (op, i, p) \<in> set rs}"
  by force+

lemma set_member_edges:
  assumes "distinct (map task_id (q_tasks q))"
  shows "set (member_edges (q_tasks q)) = {(WaitNode.Goal g, WaitNode.Task i) | i g. membership q i = Some g
    \<and> status_of q i \<noteq> None \<and> status_of q i \<noteq> Some TaskStatus.Canceled}" (is "_ = ?edges")
proof -
  have "e \<in> set (member_edges (q_tasks q)) \<longleftrightarrow> e \<in> ?edges" for e
  proof -
    obtain x y where e: "e = (x, y)" by (cases e)
    show ?thesis
    proof (cases "\<exists>g i. x = WaitNode.Goal g \<and> y = WaitNode.Task i")
      case True
      then obtain g i where "x = WaitNode.Goal g" "y = WaitNode.Task i" by blast
      then show ?thesis unfolding e by (simp add: member_edges_core [OF assms])
    next
      case False
      then show ?thesis unfolding e by (auto simp: member_edges_iff)
    qed
  qed
  then show ?thesis by blast
qed

lemma wait_edges_core:
  assumes "tables_ok q"
  shows "set (wait_edges q) = core_waits (core_of q)"
proof -
  have "filter (\<lambda>(op, _, _). operation_applied q op) (q_replacements q) = q_replacements q"
    using tables_okD(3) [OF assms] by (force simp: filter_id_conv operation_applied_iff)
  then show ?thesis
    unfolding wait_edges_def core_waits_def replaced_rows [OF assms] set_append set_map_edges
      set_member_edges [OF tables_okD(1) [OF assms]]
    by (auto simp: set_map_edges)
qed

section \<open>Lemmas: updates\<close>

lemma row_of_update:
  assumes "\<And>t. task_id (f t) = task_id t"
  shows "row_of (update_task q i f) j = (if j = i then map_option f (row_of q j) else row_of q j)"
proof -
  have "find (\<lambda>t. task_id t = j) (map (\<lambda>t. if task_id t = i then f t else t) ts)
      = (if j = i then map_option f (find (\<lambda>t. task_id t = j) ts) else find (\<lambda>t. task_id t = j) ts)" for ts
    by (induction ts) (auto simp: assms)
  then show ?thesis by (simp add: row_of_def update_task_def)
qed

lemma core_of_same:
  assumes "row_of q' = row_of q" "q_dependencies q' = q_dependencies q"
    and "q_goal_dependencies q' = q_goal_dependencies q" "q_replacements q' = q_replacements q"
    and "q_operations q' = q_operations q"
  shows "core_of q' = core_of q"
  using assms by (simp add: core_of_def status_of_def membership_def fun_eq_iff)

lemma core_unchanged [simp]:
  "core_of (add_event i run body q) = core_of q"
  "core_of (q\<lparr>q_goals := gs\<rparr>) = core_of q"
  "core_of (q\<lparr>q_holds := hs\<rparr>) = core_of q"
  "core_of (q\<lparr>q_runs := rs\<rparr>) = core_of q"
  "core_of (q\<lparr>q_mappings := ms\<rparr>) = core_of q"
  "core_of (q\<lparr>q_plans := ps\<rparr>) = core_of q"
  by (rule core_of_same; simp add: add_event_def row_of_def fun_eq_iff)+

lemma tables_ok_unchanged [simp]:
  "tables_ok (add_event i run body q) = tables_ok q"
  "tables_ok (q\<lparr>q_goals := gs\<rparr>) = tables_ok q"
  "tables_ok (q\<lparr>q_holds := hs\<rparr>) = tables_ok q"
  "tables_ok (q\<lparr>q_runs := rs\<rparr>) = tables_ok q"
  "tables_ok (q\<lparr>q_mappings := ms\<rparr>) = tables_ok q"
  "tables_ok (q\<lparr>q_plans := ps\<rparr>) = tables_ok q"
  "tables_ok (q\<lparr>q_dependencies := ds\<rparr>) = tables_ok q"
  "tables_ok (q\<lparr>q_goal_dependencies := gds\<rparr>) = tables_ok q"
  by (simp_all add: tables_ok_def add_event_def)

lemma tables_ok_update [simp]:
  assumes "\<And>t. task_id (f t) = task_id t"
  shows "tables_ok (update_task q i f) = tables_ok q"
proof -
  have "map task_id (map (\<lambda>t. if task_id t = i then f t else t) ts) = map task_id ts" for ts
    by (simp add: assms)
  then show ?thesis by (simp add: tables_ok_def update_task_def del: map_map)
qed

lemma add_event_keeps [simp]:
  "q_tasks (add_event i run body q) = q_tasks q" "q_goals (add_event i run body q) = q_goals q"
  "q_dependencies (add_event i run body q) = q_dependencies q"
  "q_goal_dependencies (add_event i run body q) = q_goal_dependencies q"
  "q_replacements (add_event i run body q) = q_replacements q"
  "q_operations (add_event i run body q) = q_operations q" "q_mappings (add_event i run body q) = q_mappings q"
  "q_holds (add_event i run body q) = q_holds q" "q_runs (add_event i run body q) = q_runs q"
  by (simp_all add: add_event_def)

lemma update_keeps [simp]:
  "q_dependencies (update_task q i f) = q_dependencies q"
  "q_goal_dependencies (update_task q i f) = q_goal_dependencies q"
  "q_replacements (update_task q i f) = q_replacements q"
  "q_operations (update_task q i f) = q_operations q"
  by (simp_all add: update_task_def)

lemma set_status_keeps [simp]:
  "q_dependencies (set_status q i s now) = q_dependencies q"
  "q_goal_dependencies (set_status q i s now) = q_goal_dependencies q"
  "q_replacements (set_status q i s now) = q_replacements q"
  "q_operations (set_status q i s now) = q_operations q"
  by (simp_all add: set_status_def)

lemma core_of_update:
  assumes "\<And>t. task_id (f t) = task_id t" "\<And>t. task_status (f t) = task_status t"
    and "\<And>t. task_goal_id (f t) = task_goal_id t"
  shows "core_of (update_task q i f) = core_of q"
proof -
  have "status_of (update_task q i f) = status_of q" "membership (update_task q i f) = membership q"
    by (auto simp: status_of_def membership_def fun_eq_iff row_of_update assms option.map_comp comp_def
        split: bind_splits)
  then show ?thesis by (simp add: core_of_def)
qed

lemma core_of_touch [simp]: "core_of (touch q i now) = core_of q"
  by (simp add: touch_def core_of_update)

lemma core_of_edges [simp]:
  "core_of (q\<lparr>q_dependencies := ds\<rparr>) = (core_of q)\<lparr>c_depends := set ds\<rparr>"
  "core_of (q\<lparr>q_goal_dependencies := gds\<rparr>) = (core_of q)\<lparr>c_goal_depends := set gds\<rparr>"
  by (simp_all add: core_of_def status_of_def membership_def row_of_def fun_eq_iff)

lemma core_of_set_status:
  assumes "status_of q i \<noteq> None"
  shows "core_of (set_status q i s now) = (core_of q)\<lparr>c_status := (status_of q)(i \<mapsto> s)\<rparr>"
proof -
  have "status_of (set_status q i s now) = (status_of q)(i \<mapsto> s)"
    using assms by (auto simp: set_status_def status_of_def row_of_update fun_eq_iff)
  moreover have "membership (set_status q i s now) = membership q"
    by (auto simp: set_status_def membership_def row_of_update fun_eq_iff split: bind_splits)
  ultimately show ?thesis by (simp add: core_of_def set_status_def)
qed

lemma tables_ok_touch [simp]: "tables_ok (touch q i now) = tables_ok q"
  by (simp add: touch_def)

lemma tables_ok_set_status [simp]: "tables_ok (set_status q i s now) = tables_ok q"
  by (simp add: set_status_def)

lemma end_with_task_keeps [simp]:
  "core_of (end_with_task q i s) = core_of q" "tables_ok (end_with_task q i s) = tables_ok q"
  "q_tasks (end_with_task q i s) = q_tasks q" "q_dependencies (end_with_task q i s) = q_dependencies q"
  "q_replacements (end_with_task q i s) = q_replacements q"
  "q_operations (end_with_task q i s) = q_operations q"
  by (simp_all add: end_with_task_def add_event_def tables_ok_def core_of_same row_of_def fun_eq_iff
      split: option.splits)

lemma later_applied:
  assumes "later ops ops'"
  shows "applied_ids ops \<subseteq> applied_ids ops'"
proof
  fix i assume "i \<in> applied_ids ops"
  then obtain op where "op \<in> set ops" "op_status op = ReplanStatus.Applied" "op_id op = i"
    by (auto simp: applied_ids_def)
  with assms obtain op' where "op' \<in> set ops'" "op_id op' = i" "op_status op' = ReplanStatus.Applied"
    unfolding later_def by blast
  then show "i \<in> applied_ids ops'" by (auto simp: applied_ids_def)
qed

text \<open>The board of operations changes on its own: no replacement is lost, and none is added.\<close>

lemma operations_change:
  assumes "tables_ok q" "board_ok ops" "applied_ids (q_operations q) \<subseteq> applied_ids ops"
  shows "tables_ok (q\<lparr>q_operations := ops\<rparr>)" "core_of (q\<lparr>q_operations := ops\<rparr>) = core_of q"
proof -
  show ok: "tables_ok (q\<lparr>q_operations := ops\<rparr>)" using assms by (auto simp: tables_ok_def)
  have "row_of (q\<lparr>q_operations := ops\<rparr>) = row_of q" by (simp add: row_of_def fun_eq_iff)
  then have "status_of (q\<lparr>q_operations := ops\<rparr>) = status_of q" "membership (q\<lparr>q_operations := ops\<rparr>) = membership q"
    by (simp_all add: status_of_def membership_def fun_eq_iff)
  moreover have "c_replaced (core_of (q\<lparr>q_operations := ops\<rparr>)) = c_replaced (core_of q)"
    unfolding replaced_rows [OF ok] replaced_rows [OF assms(1)] by simp
  ultimately show "core_of (q\<lparr>q_operations := ops\<rparr>) = core_of q" by (simp add: core_of_def)
qed

section \<open>Every transaction is a sequence of core steps\<close>

definition advances :: "Queue \<Rightarrow> Queue \<Rightarrow> bool" where
  "advances q q' \<longleftrightarrow> tables_ok q' \<and> core_step\<^sup>*\<^sup>* (core_of q) (core_of q')"

lemma advances_refl: "tables_ok q \<Longrightarrow> advances q q"
  by (simp add: advances_def)

lemma advances_trans: "advances q q' \<Longrightarrow> advances q' q'' \<Longrightarrow> advances q q''"
  by (auto simp: advances_def)

lemma advances_same: "tables_ok q' \<Longrightarrow> core_of q' = core_of q \<Longrightarrow> advances q q'"
  by (simp add: advances_def)

lemma advances_step: "tables_ok q' \<Longrightarrow> core_step (core_of q) (core_of q') \<Longrightarrow> advances q q'"
  by (auto simp: advances_def)

lemma live_advances:
  assumes "live f xs q = Inr q'" "tables_ok q"
    and "\<And>x q q'. x \<in> set xs \<Longrightarrow> f x q = Inr q' \<Longrightarrow> tables_ok q \<Longrightarrow> advances q q'"
  shows "advances q q'"
  using assms
proof (induction xs arbitrary: q)
  case (Cons x xs)
  from Cons.prems(1) obtain q1 where q1: "f x q = Inr q1" "live f xs q1 = Inr q'"
    by (auto simp: and_then_eq_Inr)
  have first: "advances q q1" using Cons.prems(3) [OF _ q1(1) Cons.prems(2)] by simp
  then have "advances q1 q'"
    using Cons.IH [OF q1(2)] Cons.prems(3) by (auto simp: advances_def)
  with first show ?case by (rule advances_trans)
qed (simp add: advances_refl)

lemma dependencies_editable:
  "check_dependencies_editable t = Inr u \<longleftrightarrow> Some (task_status t) \<in> editable"
  by (auto simp: check_dependencies_editable_def task_require_editable_def TaskStatus_dependencies_editable_def)

text \<open>When an edge is accepted.\<close>

lemma insert_dependency_accepted:
  "insert_dependency q i p now = Inr q' \<longleftrightarrow>
    i \<noteq> p \<and> check_task_step q i GuardedStep.Dependency = Inr ()
    \<and> check_task_step q p GuardedStep.Dependency = Inr ()
    \<and> (\<exists>t. read_task q i = Inr t \<and> Some (task_status t) \<in> editable)
    \<and> (\<exists>t. read_task q p = Inr t \<and> task_status t \<noteq> TaskStatus.Replaced)
    \<and> (WaitNode.Task p, WaitNode.Task i) \<notin> (set (wait_edges q))\<^sup>*
    \<and> q' = (if (i, p) \<in> set (q_dependencies q) then q
        else add_event i None (EventDependencyAdded p)
          (touch (q\<lparr>q_dependencies := q_dependencies q @ [(i, p)]\<rparr>) i now))"
  unfolding insert_dependency_def check_not_self_def check_not_replaced_def check_acyclic_def
  by (auto simp: and_then_eq_Inr dependencies_editable waits_for_iff)

lemma insert_dependency_advances:
  assumes "insert_dependency q i p now = Inr q'" "tables_ok q"
  shows "advances q q'"
proof (cases "(i, p) \<in> set (q_dependencies q)")
  case True
  then show ?thesis using assms unfolding insert_dependency_accepted by (simp add: advances_refl)
next
  case False
  from assms(1) obtain t pt where acc: "read_task q i = Inr t" "Some (task_status t) \<in> editable"
    "read_task q p = Inr pt" "task_status pt \<noteq> TaskStatus.Replaced"
    "(WaitNode.Task p, WaitNode.Task i) \<notin> (core_waits (core_of q))\<^sup>*"
    and q': "q' = add_event i None (EventDependencyAdded p)
      (touch (q\<lparr>q_dependencies := q_dependencies q @ [(i, p)]\<rparr>) i now)"
    unfolding insert_dependency_accepted wait_edges_core [OF assms(2)] using False by auto
  have "core_of q' = (core_of q)\<lparr>c_depends := insert (i, p) (c_depends (core_of q))\<rparr>"
    unfolding q' by simp
  moreover have "core_step (core_of q) ((core_of q)\<lparr>c_depends := insert (i, p) (c_depends (core_of q))\<rparr>)"
    by (rule core_depends) (use acc read_task_status [OF acc(1)] read_task_status [OF acc(3)] in auto)
  ultimately show ?thesis using assms(2) by (intro advances_step) (simp_all add: q')
qed

lemma insert_goal_dependency_advances:
  assumes "insert_goal_dependency q i g now = Inr q'" "tables_ok q"
  shows "advances q q'"
proof (cases "(i, g) \<in> set (q_goal_dependencies q)")
  case True
  then show ?thesis using assms unfolding insert_goal_dependency_def by (auto simp: and_then_eq_Inr advances_refl)
next
  case False
  from assms(1) obtain t where acc: "read_task q i = Inr t" "Some (task_status t) \<in> editable"
    "(WaitNode.Goal g, WaitNode.Task i) \<notin> (core_waits (core_of q))\<^sup>*"
    and q': "q' = add_event i None (EventGoalDependencyAdded g)
      (touch (q\<lparr>q_goal_dependencies := q_goal_dependencies q @ [(i, g)]\<rparr>) i now)"
    unfolding insert_goal_dependency_def check_goal_acyclic_def using False
    by (auto simp: and_then_eq_Inr dependencies_editable waits_for_iff wait_edges_core [OF assms(2)])
  have "core_of q' = (core_of q)\<lparr>c_goal_depends := insert (i, g) (c_goal_depends (core_of q))\<rparr>"
    unfolding q' by simp
  moreover have "core_step (core_of q) ((core_of q)\<lparr>c_goal_depends := insert (i, g) (c_goal_depends (core_of q))\<rparr>)"
    by (rule core_goal_depends) (use acc read_task_status [OF acc(1)] in auto)
  ultimately show ?thesis using assms(2) by (intro advances_step) (simp_all add: q')
qed

text \<open>An edge or none removed.\<close>

lemma core_edges_same:
  "c\<lparr>c_depends := X, c_goal_depends := c_goal_depends c\<rparr> = c\<lparr>c_depends := X\<rparr>"
  "c\<lparr>c_depends := c_depends c, c_goal_depends := Y\<rparr> = c\<lparr>c_goal_depends := Y\<rparr>"
  by (cases c; simp)+

lemma remove_dependency_advances:
  assumes "remove_dependency_authorized authorized q i p now = Inr q'" "tables_ok q"
  shows "advances q q'"
proof -
  from assms(1) have q': "q' = add_event i None (EventDependencyRemoved p)
      (touch (q\<lparr>q_dependencies := filter (\<lambda>e. e \<noteq> (i, p)) (q_dependencies q)\<rparr>) i now)"
    unfolding remove_dependency_authorized_def by (auto simp: and_then_eq_Inr split: if_splits)
  have "core_of q' = (core_of q)\<lparr>c_depends := set (filter (\<lambda>e. e \<noteq> (i, p)) (q_dependencies q))\<rparr>"
    unfolding q' by (simp del: set_filter)
  moreover have "set (filter (\<lambda>e. e \<noteq> (i, p)) (q_dependencies q)) \<subseteq> c_depends (core_of q)" by auto
  note core_removed [OF this subset_refl, unfolded core_edges_same]
  ultimately show ?thesis using assms(2) by (intro advances_step) (simp_all add: q' del: set_filter)
qed

lemma remove_goal_dependency_advances:
  assumes "remove_goal_dependency_authorized authorized q i g now = Inr q'" "tables_ok q"
  shows "advances q q'"
proof -
  from assms(1) have q': "q' = add_event i None (EventGoalDependencyRemoved g)
      (touch (q\<lparr>q_goal_dependencies := filter (\<lambda>e. e \<noteq> (i, g)) (q_goal_dependencies q)\<rparr>) i now)"
    unfolding remove_goal_dependency_authorized_def by (auto simp: and_then_eq_Inr split: if_splits)
  have "core_of q' = (core_of q)\<lparr>c_goal_depends := set (filter (\<lambda>e. e \<noteq> (i, g)) (q_goal_dependencies q))\<rparr>"
    unfolding q' by (simp del: set_filter)
  moreover have "set (filter (\<lambda>e. e \<noteq> (i, g)) (q_goal_dependencies q)) \<subseteq> c_goal_depends (core_of q)" by auto
  note core_removed [OF subset_refl this, unfolded core_edges_same]
  ultimately show ?thesis using assms(2) by (intro advances_step) (simp_all add: q' del: set_filter)
qed

text \<open>A new task, then its edges.\<close>

lemma task_new_fields:
  assumes "task_new i new now = Inr t"
  shows "task_id t = i" "task_status t = TaskStatus.Draft" "task_goal_id t = new_goal_id new"
  using assms unfolding task_new_def by (auto simp: and_then_eq_Inr case_prod_beta)

lemma insert_task_advances:
  assumes "insert_task requests q i new now creator = Inr (q', t')" "tables_ok q" "i \<notin> task_id ` set (q_tasks q)"
  shows "advances q q'"
proof -
  from assms(1) obtain priority by_whom t q1 q2 where t: "task_new i (new\<lparr>new_priority := priority\<rparr>) now = Inr t"
    and q1: "q1 = add_event i None (EventTaskCreated (task_goal_id t) (task_status t) (task_title t))
      (q\<lparr>q_tasks := q_tasks q
        @ [t\<lparr>task_own_priority_by := by_whom, task_origin := creation_origin creator\<rparr>]\<rparr>)"
    and deps: "live (\<lambda>p q. insert_dependency q i p now) (new_dependencies new) q1 = Inr q2"
    and gdeps: "live (\<lambda>g q. insert_goal_dependency q i g now) (new_goal_dependencies new) q2 = Inr q'"
    unfolding insert_task_def Let_def by (auto simp: and_then_eq_Inr)
  define row where "row = t\<lparr>task_own_priority_by := by_whom, task_origin := creation_origin creator\<rparr>"
  have row: "q1 = add_event i None (EventTaskCreated (task_goal_id t) (task_status t) (task_title t))
      (q\<lparr>q_tasks := q_tasks q @ [row]\<rparr>)"
    "task_id row = i" "task_status row = TaskStatus.Draft" "task_goal_id row = new_goal_id new"
    using task_new_fields [OF t] by (simp_all add: row_def q1)
  have rows: "row_of q1 j = (if j = i then Some row else row_of q j)" for j
  proof -
    have "find (\<lambda>t. task_id t = i) (q_tasks q) = None" using assms(3) by (auto simp: find_None_iff)
    then show ?thesis
      by (cases "find (\<lambda>t. task_id t = j) (q_tasks q)") (auto simp: row_of_def row(1,2) add_event_def find_append)
  qed
  have none: "status_of q i = None" using assms(3) by (simp add: status_of_None)
  have "status_of q1 = (status_of q)(i \<mapsto> TaskStatus.Draft)" "membership q1 = (membership q)(i := new_goal_id new)"
    by (auto simp: status_of_def membership_def rows row(3,4) fun_eq_iff)
  then have "core_of q1 = (core_of q)\<lparr>c_status := (c_status (core_of q))(i \<mapsto> TaskStatus.Draft),
      c_goal := (c_goal (core_of q))(i := new_goal_id new)\<rparr>"
    by (simp add: core_of_def row(1) add_event_def)
  moreover have "core_step (core_of q) ((core_of q)\<lparr>c_status := (c_status (core_of q))(i \<mapsto> TaskStatus.Draft),
      c_goal := (c_goal (core_of q))(i := new_goal_id new)\<rparr>)"
    by (rule core_added) (simp add: none)
  moreover have ok1: "tables_ok q1"
    using assms(2,3) by (simp add: tables_ok_def row(1,2) add_event_def)
  ultimately have "advances q q1" by (intro advances_step) simp_all
  moreover have "advances q1 q2" by (rule live_advances [OF deps ok1]) (rule insert_dependency_advances)
  moreover from this have "tables_ok q2" by (simp add: advances_def)
  then have "advances q2 q'" by (rule live_advances [OF gdeps]) (rule insert_goal_dependency_advances)
  ultimately show ?thesis by (blast intro: advances_trans)
qed

text \<open>A move between goals.\<close>

lemma set_goal_fields:
  assumes "task_set_goal t to by_whom = Inr moved"
  shows "Some (task_status t) \<in> editable" "task_goal_id moved = map_option dest_id to"
    "task_status moved = task_status t" "task_id moved = task_id t"
  using assms unfolding task_set_goal_def
  by (auto simp: and_then_eq_Inr task_require_editable_def TaskStatus_dependencies_editable_def
      case_prod_beta Let_def split: if_splits option.splits)

lemma write_move_core:
  assumes "read_task q i = Inr t" "task_goal_id moved = g"
  shows "core_of (write_move q i t moved dropped now) = (core_of q)\<lparr>c_goal := (membership q)(i := g)\<rparr>"
    and "tables_ok (write_move q i t moved dropped now) = tables_ok q"
proof -
  note t = read_task_status [OF assms(1)]
  have "core_of (update_task q1 i (\<lambda>r. r\<lparr>task_goal_id := g, task_updated_at := now\<rparr>))
      = (core_of q1)\<lparr>c_goal := (membership q1)(i := g)\<rparr>" if "status_of q1 i \<noteq> None" for q1
  proof -
    let ?q = "update_task q1 i (\<lambda>r. r\<lparr>task_goal_id := g, task_updated_at := now\<rparr>)"
    have "status_of ?q = status_of q1"
      by (auto simp: status_of_def fun_eq_iff row_of_update option.map_comp comp_def)
    moreover have "membership ?q = (membership q1)(i := g)"
      using that by (auto simp: membership_def status_of_def fun_eq_iff row_of_update split: bind_splits)
    ultimately show ?thesis by (simp add: core_of_def)
  qed
  note moved = this
  let ?f = "\<lambda>r. r\<lparr>task_own_priority := task_own_priority moved,
    task_own_priority_by := task_shown_own_priority_by moved\<rparr>"
  have kept: "core_of (update_task q1 i ?f) = core_of q1" "tables_ok (update_task q1 i ?f) = tables_ok q1" for q1
    by (rule core_of_update; simp) (simp add: tables_ok_update)
  have same: "(core_of q)\<lparr>c_goal := (membership q)(i := task_goal_id t)\<rparr> = core_of q"
    using t(2) by (simp add: core_of_def fun_upd_idem)
  have fields: "status_of q1 = status_of q" "membership q1 = membership q" if "core_of q1 = core_of q" for q1
    using that by (metis core_of_simps(1), metis core_of_simps(2))
  let ?q1 = "if task_own_priority t \<noteq> task_own_priority moved
    then add_event i None (EventTaskPriorityChanged (task_priority t) (task_priority moved)) (update_task q i ?f)
    else q"
  let ?q2 = "case dropped of Some priority \<Rightarrow> add_event i None (EventTaskPriorityChanged priority (task_priority moved)) ?q1
    | None \<Rightarrow> ?q1"
  have q2: "core_of ?q2 = core_of q" "tables_ok ?q2 = tables_ok q"
    by (auto simp: kept split: option.splits)
  have some: "status_of ?q2 i \<noteq> None" using fields(1) [OF q2(1)] t(1) by simp
  show "core_of (write_move q i t moved dropped now) = (core_of q)\<lparr>c_goal := (membership q)(i := g)\<rparr>"
  proof (cases "task_goal_id t = g")
    case True
    then show ?thesis using same q2(1) by (simp add: write_move_def Let_def assms(2))
  next
    case False
    then have "write_move q i t moved dropped now = add_event i None (EventTaskGoalChanged (task_goal_id t) g)
        (update_task ?q2 i (\<lambda>r. r\<lparr>task_goal_id := g, task_updated_at := now\<rparr>))"
      by (simp add: write_move_def Let_def assms(2))
    then show ?thesis using moved [OF some] q2(1) fields(2) [OF q2(1)] by simp
  qed
  have "tables_ok (update_task ?q2 i (\<lambda>r. r\<lparr>task_goal_id := g, task_updated_at := now\<rparr>)) = tables_ok q"
    using q2(2) by (simp add: tables_ok_update)
  then show "tables_ok (write_move q i t moved dropped now) = tables_ok q"
    using q2(2) by (simp add: write_move_def Let_def assms(2))
qed

lemma read_goal_option_id:
  assumes "read_goal_option q g = Inr goal"
  shows "map_option goal_id goal = g"
proof (cases g)
  case (Some h)
  with assms obtain x where "goal_of q h = Some x" "goal = Some x"
    by (auto simp: read_goal_option_def and_then_eq_Inr read_goal_def split: option.splits)
  with find_Some_in [of "\<lambda>g. goal_id g = h" "q_goals q" x] Some show ?thesis by (simp add: goal_of_def)
qed (use assms in \<open>simp add: read_goal_option_def\<close>)

lemma set_goal_in_advances:
  assumes "set_goal_in q i to_goal now by_whom = Inr (q', t')" "tables_ok q"
  shows "advances q q'"
proof -
  from assms(1) obtain t goal moved u where t: "read_task q i = Inr t"
    and goal: "read_goal_option q to_goal = Inr goal"
    and set: "domain (task_set_goal t (map_option Destination_of goal) by_whom) = Inr moved"
    and checks: "(case goal of
        Some g \<Rightarrow> and_then (domain (check_accepts_tasks g)) (\<lambda>_.
          if task_goal_id t \<noteq> Some (goal_id g)
          then domain (check_membership_acyclic moved (goal_id g) ((i, goal_id g) \<in> set (q_goal_dependencies q))
            (waits_for q (WaitNode.Task i) (WaitNode.Goal (goal_id g))))
          else Inr ())
      | None \<Rightarrow> Inr ()) = Inr u"
    and written: "\<exists>dropped. q' = write_move q i t moved dropped now"
    unfolding set_goal_in_def Let_def and_then_eq_Inr by blast
  from set have moved: "task_set_goal t (map_option Destination_of goal) by_whom = Inr moved" by simp
  have cycle: "\<not> waits_for q (WaitNode.Task i) (WaitNode.Goal (goal_id g))"
    if "goal = Some g" "task_goal_id t \<noteq> Some (goal_id g)" for g
    using checks that by (auto simp: check_membership_acyclic_def and_then_eq_Inr split: if_splits)
  from written obtain dropped where q': "q' = write_move q i t moved dropped now" ..
  note f = set_goal_fields [OF moved] and ts = read_task_status [OF t]
  have "map_option dest_id (map_option Destination_of goal) = to_goal"
    using read_goal_option_id [OF goal] by (cases goal) (auto simp: Destination_of_def)
  then have g: "task_goal_id moved = to_goal" using f(2) by simp
  note core = write_move_core [OF t g, of dropped now]
  show ?thesis
  proof (cases "task_goal_id t = to_goal")
    case True
    then have "core_of q' = core_of q" using core(1) ts(2) by (simp add: q' core_of_def fun_upd_idem)
    then show ?thesis using assms(2) core(2) by (intro advances_same) (simp_all add: q')
  next
    case False
    have "core_step (core_of q) ((core_of q)\<lparr>c_goal := (c_goal (core_of q))(i := to_goal)\<rparr>)"
    proof (rule core_rehomed)
      show "c_status (core_of q) i \<in> editable" using f(1) ts(1) by simp
      fix h assume h: "to_goal = Some h"
      then obtain g where "goal = Some g" "goal_id g = h" using read_goal_option_id [OF goal] by (cases goal) auto
      then show "(WaitNode.Task i, WaitNode.Goal h) \<notin> (core_waits (core_of q))\<^sup>*"
        using cycle [of g] False h by (simp add: waits_for_iff wait_edges_core [OF assms(2)])
    qed
    then show ?thesis using assms(2) core by (intro advances_step) (simp_all add: q')
  qed
qed

text \<open>A transition, and the ends of a task in progress.\<close>

lemma transition_statuses:
  assumes "TaskStatus_transition s action unfinished = Inr s'"
  shows "Some s \<in> insert (Some TaskStatus.InProgress) editable"
    "Some s' \<in> insert (Some TaskStatus.Canceled) editable"
  using assms by (auto simp: TaskStatus_transition_def split: if_splits)

lemma apply_transition_accepted:
  assumes "apply_transition facts q i action now = Inr (q', t')"
  obtains t s where "read_task q i = Inr t"
    and "TaskStatus_transition (task_status t) action (has_unfinished_run q i) = Inr s"
    and "core_of q' = core_of (set_status q i s now)" "tables_ok q' = tables_ok q"
    and "status_of q i = Some (task_status t)"
proof -
  from assms obtain t moved where t: "read_task q i = Inr t"
    and m: "task_transition t action (has_unfinished_run q i) = Inr moved"
    and q': "\<exists>body body'. q' = (let q = end_with_task (add_event i None body (set_status q i (task_status moved) now)) i (task_status moved)
      in if action = BypassReview then add_event i None body' q else q)"
    unfolding apply_transition_def Let_def by (auto simp: and_then_eq_Inr)
  from m obtain s where s: "TaskStatus_transition (task_status t) action (has_unfinished_run q i) = Inr s"
    "task_status moved = s"
    by (auto simp: task_transition_def and_then_eq_Inr)
  from q' show thesis
    by (intro that [OF t s(1)]) (auto simp: s(2) Let_def read_task_status(1) [OF t] split: if_splits)
qed

lemma apply_transition_advances:
  assumes "apply_transition facts q i action now = Inr (q', t')" "tables_ok q"
  shows "advances q q'"
proof -
  obtain t s where "read_task q i = Inr t" and
    acc: "TaskStatus_transition (task_status t) action (has_unfinished_run q i) = Inr s"
    "core_of q' = core_of (set_status q i s now)" "tables_ok q' = tables_ok q"
    "status_of q i = Some (task_status t)" 
    by (rule apply_transition_accepted [OF assms(1)])
  have "core_step (core_of q) ((core_of q)\<lparr>c_status := (c_status (core_of q))(i \<mapsto> s)\<rparr>)"
    by (rule core_moved) (use transition_statuses [OF acc(1)] acc(4) in auto)
  then show ?thesis using acc assms(2) by (intro advances_step) (simp_all add: core_of_set_status)
qed

lemma end_task_accepted:
  assumes "end_task q i run s now = Inr (q', t')"
  shows "status_of q i = Some TaskStatus.InProgress"
    "core_of q' = (core_of q)\<lparr>c_status := (status_of q)(i \<mapsto> s)\<rparr>" "tables_ok q' = tables_ok q"
    "q_tasks q' = q_tasks (set_status q i s now)" "q_dependencies q' = q_dependencies q"
    "q_replacements q' = q_replacements q" "q_operations q' = q_operations q"
proof -
  from assms have "status_of q i = Some TaskStatus.InProgress"
    and q': "q' = end_with_task (add_event i (Some run) (EventTaskStatusChanged TaskStatus.InProgress s)
      (set_status q i s now)) i s"
    unfolding end_task_def Let_def by (auto simp: and_then_eq_Inr split: if_splits)
  then show "status_of q i = Some TaskStatus.InProgress"
    "core_of q' = (core_of q)\<lparr>c_status := (status_of q)(i \<mapsto> s)\<rparr>" "tables_ok q' = tables_ok q"
    "q_tasks q' = q_tasks (set_status q i s now)" "q_dependencies q' = q_dependencies q"
    "q_replacements q' = q_replacements q" "q_operations q' = q_operations q"
    by (simp_all add: core_of_set_status)
qed

lemma complete_task_advances:
  assumes "complete_task q i run now = Inr (q', t')" "tables_ok q"
  shows "advances q q'"
proof -
  note e = end_task_accepted [OF assms(1) [unfolded complete_task_def]]
  have "core_step (core_of q) ((core_of q)\<lparr>c_status := (c_status (core_of q))(i \<mapsto> TaskStatus.Completed)\<rparr>)"
    by (rule core_completed) (simp add: e(1))
  then show ?thesis using e(2,3) assms(2) by (intro advances_step) simp_all
qed

text \<open>A claim.\<close>

lemma find_map_Some: "find_map f xs = Some y \<Longrightarrow> \<exists>x \<in> set xs. f x = Some y"
  by (induction xs) (auto split: option.splits)

lemma find_map_find: "find_map (\<lambda>i. find (P i) ts) is = Some t \<Longrightarrow> t \<in> set ts"
  by (auto dest!: find_map_Some find_Some_in)

lemma claim_fallback_in: "claim_fallback ts order = Some t \<Longrightarrow> t \<in> set ts \<and> \<not> task_wait_for_build t"
  by (auto simp: claim_fallback_def split: option.splits dest!: find_map_Some find_Some_in)

lemma ready_row_claimable:
  assumes "tables_ok q" "core_ok (core_of q)" "r \<in> set (ready_rows q)"
  shows "row_of q (task_id r) = Some r" "status_of q (task_id r) = Some TaskStatus.Ready"
    and "(task_id r, p) \<in> set (q_dependencies q) \<Longrightarrow> status_of q p = Some TaskStatus.Completed"
    and "hold_of q (task_id r) = None" "ready_conditions q r"
proof -
  have r: "r \<in> set (q_tasks q)" "ready_conditions q r" "hold_of q (task_id r) = None"
    using assms(3) by (auto simp: ready_rows_def)
  note rows = row_of_distinct [OF tables_okD(1) [OF assms(1)]]
  show row: "row_of q (task_id r) = Some r" using r(1) by (simp add: rows)
  show "status_of q (task_id r) = Some TaskStatus.Ready"
    using r(2) by (simp add: status_of_def row ready_conditions_def)
  show "hold_of q (task_id r) = None" "ready_conditions q r" by (fact r(3), fact r(2))
  assume p: "(task_id r, p) \<in> set (q_dependencies q)"
  have "status_of q p \<noteq> None" using core_okD(1) [OF assms(2), of "task_id r" p] p by simp
  then obtain pt where pt: "row_of q p = Some pt" by (auto simp: status_of_def)
  from row_of_Some [OF pt] have "pt \<in> set (q_tasks q)" "task_id pt = p" by simp_all
  with r(2) p have "task_status pt = TaskStatus.Completed"
    unfolding ready_conditions_def list_ex_iff by fastforce
  with pt show "status_of q p = Some TaskStatus.Completed" by (simp add: status_of_def)
qed

lemma claim_task_cases:
  assumes "claim_task cf q = Some (Inr (q', run))"
  obtains "q' = q" "run = None"
  | ready t where "ready_tasks q = Inr ready" "t \<in> set (claimable cf ready)" "claim_one cf q t = Inr (q', run)"
proof -
  from assms obtain ready where ready: "ready_tasks q = Inr ready"
    by (auto simp: claim_task_def split: sum.splits)
  have first: "t \<in> set (claimable cf ready)" if "first_of (claimable cf ready) (cf_order cf) = Some t" for t
    using find_map_find that by (simp add: first_of_def)
  let ?ready = "claimable cf ready"
  show thesis
  proof (cases "?ready = []")
    case True
    with assms ready that(1) show thesis by (simp add: claim_task_def)
  next
    case some: False
    show thesis
    proof (cases "first_of ?ready (cf_order cf)")
      case (Some t)
      with assms ready some that(2) [OF ready first] show thesis by (simp add: claim_task_def)
    next
      case None
      with assms ready some obtain order where "(case claim_fallback ?ready order of
          Some t \<Rightarrow> claim_one cf q t | None \<Rightarrow> Inr (q, None)) = Inr (q', run)"
        by (auto simp: claim_task_def and_then_eq_Inr)
      then show thesis
        using that(1) that(2) [OF ready] claim_fallback_in [of ?ready order] by (auto split: option.splits)
    qed
  qed
qed

lemma claim_one_accepted:
  assumes "claim_one cf q t = Inr (q', run)"
  obtains r route ops effs kept where "task_status t = TaskStatus.Ready" "run = Some r"
    and "run_task_id r = task_id t" "run_status r = RunStatus.Claimed"
    and "carry_open_to (cf_replan cf) (q_operations q) (task_id t) (run_id r) (cf_now_secs cf) = Inr (ops, effs, kept)"
    and "q' = write_claim cf q (t\<lparr>task_status := TaskStatus.InProgress\<rparr>) r route ops"
    and "run_worker_mode r = WorkerMode.Headless"
proof -
  from assms obtain route i run0 ops effs kept where ready: "task_status t = TaskStatus.Ready"
    and run0: "run_new i (t\<lparr>task_status := TaskStatus.InProgress\<rparr>) (cf_base_commit cf) (cf_now cf) = Inr run0"
    and run: "run = Some (run_running_on (run_requesting run0 (cf_requested cf (t\<lparr>task_status := TaskStatus.InProgress\<rparr>)))
      ((route_actual route)\<lparr>worker_mode := WorkerMode.Headless\<rparr>))"
    and ops: "carry_open_to (cf_replan cf) (q_operations q) (task_id t) i (cf_now_secs cf) = Inr (ops, effs, kept)"
    and q': "q' = write_claim cf q (t\<lparr>task_status := TaskStatus.InProgress\<rparr>) (the run) route ops"
    unfolding claim_one_def Let_def task_claim_def
    by (auto simp: and_then_eq_Inr split: option.splits)
  have f: "run_id run0 = i" "run_task_id run0 = task_id t" "run_status run0 = RunStatus.Claimed"
    using run0 unfolding run_new_def by (auto simp: and_then_eq_Inr)
  show thesis
    by (rule that [OF ready run]) (use f ops q' run in \<open>simp_all add: run_running_on_def run_requesting_def\<close>)
qed

lemma write_claim_core:
  assumes "tables_ok q" "board_ok ops" "applied_ids (q_operations q) \<subseteq> applied_ids ops"
    and "status_of q (task_id t) \<noteq> None"
  shows "tables_ok (write_claim cf q t run route ops)"
    "core_of (write_claim cf q t run route ops)
      = (core_of q)\<lparr>c_status := (status_of q)(task_id t \<mapsto> task_status t)\<rparr>"
proof -
  let ?q = "set_status q (task_id t) (task_status t) (cf_now cf)"
  have q: "tables_ok ?q" "core_of ?q = (core_of q)\<lparr>c_status := (status_of q)(task_id t \<mapsto> task_status t)\<rparr>"
    "q_operations ?q = q_operations q"
    using assms(1,4) by (simp_all add: core_of_set_status)
  have q2: "tables_ok (?q\<lparr>q_runs := q_runs ?q @ [run], q_operations := ops\<rparr>)"
    "core_of (?q\<lparr>q_runs := q_runs ?q @ [run], q_operations := ops\<rparr>) = core_of ?q"
    using operations_change [of "?q\<lparr>q_runs := q_runs ?q @ [run]\<rparr>" ops] q(1,3) assms(2,3) by simp_all
  then show "tables_ok (write_claim cf q t run route ops)"
    "core_of (write_claim cf q t run route ops) = (core_of q)\<lparr>c_status := (status_of q)(task_id t \<mapsto> task_status t)\<rparr>"
    unfolding write_claim_def Let_def by (auto simp: q(2) split: option.splits)
qed

lemma claim_task_advances:
  assumes "claim_task cf q = Some (Inr (q', run))" "tables_ok q" "core_ok (core_of q)"
  shows "advances q q'"
  using assms(1)
proof (rule claim_task_cases)
  fix ready t
  assume ready: "ready_tasks q = Inr ready" and t: "t \<in> set (claimable cf ready)"
    and one: "claim_one cf q t = Inr (q', run)"
  from t obtain row where row: "row \<in> set (ready_rows q)" "task_row q row = Inr t"
    using query_map_set [OF ready [unfolded ready_tasks_def]] by (auto simp: claimable_def)
  note r = ready_row_claimable [OF assms(2,3) row(1)]
  have i: "task_id t = task_id row" using task_row_fields(1) [OF row(2)] .
  from one obtain run' route ops effs kept where
    carry: "carry_open_to (cf_replan cf) (q_operations q) (task_id t) (run_id run') (cf_now_secs cf) = Inr (ops, effs, kept)"
    and q': "q' = write_claim cf q (t\<lparr>task_status := TaskStatus.InProgress\<rparr>) run' route ops"
    by (rule claim_one_accepted) blast
  note ops = carry_open_to_ok [OF tables_okD(2) [OF assms(2)] carry]
  have some: "status_of q (task_id (t\<lparr>task_status := TaskStatus.InProgress\<rparr>)) \<noteq> None" using r(2) i by simp
  note w = write_claim_core [OF assms(2) ops(1) later_applied [OF ops(3)] some, of cf run' route]
  have "core_step (core_of q) ((core_of q)\<lparr>c_status := (c_status (core_of q))(task_id t \<mapsto> TaskStatus.InProgress)\<rparr>)"
    by (rule core_claimed) (use r(2,3) i in simp_all)
  then show ?thesis using w by (intro advances_step) (simp_all add: q')
qed (simp add: advances_refl assms(2))

text \<open>Edits move no task.\<close>

lemma change_priority_advances:
  assumes "change_priority q i priority now role creator = Inr q'" "tables_ok q"
  shows "advances q q'"
  using assms unfolding change_priority_def
  by (auto simp: and_then_eq_Inr core_of_update advances_refl split: if_splits intro!: advances_same)

lemma set_paths_advances:
  assumes "set_paths_authorized authorized q i paths now = Inr (q', t')" "tables_ok q"
  shows "advances q q'"
  using assms unfolding set_paths_authorized_def Let_def
  by (auto simp: and_then_eq_Inr core_of_update advances_refl split: if_splits intro!: advances_same)

lemma edit_task_advances:
  assumes "edit_task_authorized authorized leased q i e status now = Some (Inr (q', t'))" "tables_ok q"
  shows "advances q q'"
proof -
  from assms(1) obtain t where "q' = q \<or> q' = add_event i None EventTaskEdited (write_edit q i t now)"
    unfolding edit_task_authorized_def Let_def
    by (auto simp: and_then_eq_Inr split: sum.splits if_splits)
  moreover have "core_of (write_edit q i t now) = core_of q" "tables_ok (write_edit q i t now) = tables_ok q"
    unfolding write_edit_def by (rule core_of_update; simp) (rule tables_ok_update; simp)
  ultimately show ?thesis using assms(2) by (auto intro: advances_same)
qed

end
