(* ===== verification/Replacement_Refinement.thy ===== *)
theory Replacement_Refinement
  imports Queue_Refinement
begin

text \<open>
  The apply of a replacement against the plan of work: what the check of an approved plan found on
  the queue as it is, in one transaction with the write, makes the write one core step (the task
  split up, those that wait for it re-pointed) and the reviews of the children.
\<close>

section \<open>The rules of a plan besides its status\<close>

text \<open>Only the rule on the operation's status has the code \<open>NotWithPlanner\<close>.\<close>

abbreviation codes :: "PlanProblem list \<Rightarrow> PlanProblemCode set" where
  "codes ps \<equiv> problem_code ` set ps"

lemma codes_push_if [simp]: "codes (push_if c x) = (if c then {problem_code x} else {})"
  by (cases c) (simp_all add: push_if_def)

lemma codes_concat: "codes (concat (map f xs)) = (\<Union>x \<in> set xs. codes (f x))"
  by auto

lemma item_loop_codes: "NotWithPlanner \<notin> codes (fst (item_loop ctx C seen holding ms))"
proof (induction ms arbitrary: seen holding)
  case (Cons m ms)
  have "NotWithPlanner \<notin> codes (check_mapping ctx C item m)" for item
    by (auto simp: check_mapping_def image_Un codes_concat split: if_splits)
  then show ?case using Cons.IH by (auto simp: split_def Let_def image_Un split: option.splits)
qed simp

lemma order_loop_codes: "NotWithPlanner \<notin> codes (order_loop orders cs)"
  by (induction cs arbitrary: orders) (auto simp: image_Un split: option.splits)

lemma named_loop_codes: "NotWithPlanner \<notin> codes (named_loop named cs)"
  by (induction cs arbitrary: named) (auto simp: image_Un)

lemma taken_twice_codes: "NotWithPlanner \<notin> codes (taken_twice is)"
  by (cases "is" rule: taken_twice.cases) auto

lemma successor_loop_codes: "NotWithPlanner \<notin> codes (fst (successor_loop ctx C original listed ss))"
proof (induction ss arbitrary: listed)
  case (Cons s ss)
  then show ?case by (auto simp: split_def Let_def image_Un split: option.splits)
qed simp

lemma rule_codes:
  "NotWithPlanner \<notin> codes (check_child ctx child)"
  "NotWithPlanner \<notin> codes (check_items plan ctx children)"
  "NotWithPlanner \<notin> codes (check_checks ctx children)"
  "NotWithPlanner \<notin> codes (check_carry plan)"
  "NotWithPlanner \<notin> codes (check_dependencies ctx children)"
  "NotWithPlanner \<notin> codes (check_successors plan ctx children)"
proof -
  show "NotWithPlanner \<notin> codes (check_child ctx child)"
    by (auto simp: check_child_def Let_def image_Un split: option.splits)
  show "NotWithPlanner \<notin> codes (check_items plan ctx children)"
    using item_loop_codes by (auto simp: check_items_def split_def Let_def image_Un codes_concat)
  show "NotWithPlanner \<notin> codes (check_checks ctx children)"
    by (auto simp: check_checks_def Let_def image_Un codes_concat split: option.splits)
  show "NotWithPlanner \<notin> codes (check_carry plan)"
    using order_loop_codes named_loop_codes taken_twice_codes
    by (auto simp: check_carry_def image_Un)
  show "NotWithPlanner \<notin> codes (check_dependencies ctx children)"
    by (auto simp: check_dependencies_def Let_def image_Un codes_concat split: option.splits)
  show "NotWithPlanner \<notin> codes (check_successors plan ctx children)"
    using successor_loop_codes by (auto simp: check_successors_def split_def Let_def image_Un)
qed

lemma no_other_problems:
  assumes "codes (check_plan plan ctx) \<subseteq> {NotWithPlanner}"
  shows "children_pending plan ctx" "items_covered plan ctx" "checks_kept plan ctx" "carry_clear plan"
    "dependencies_sound plan ctx" "successors_mapped plan ctx"
proof -
  let ?children = "sorted_list_of_set (set (child_ids plan))"
  have children: "set ?children = set (child_ids plan)" by simp
  have none: "ps = []" if "set ps \<subseteq> set (check_plan plan ctx)" "NotWithPlanner \<notin> codes ps" for ps
    using that assms by (cases ps) auto
  have "check_items plan ctx ?children = []" "check_checks ctx ?children = []" "check_carry plan = []"
    "check_dependencies ctx ?children = []" "check_successors plan ctx ?children = []"
    by (rule none; auto simp: check_plan_def Let_def rule_codes [simplified])+
  then show "items_covered plan ctx" "checks_kept plan ctx" "carry_clear plan"
    "dependencies_sound plan ctx" "successors_mapped plan ctx"
    using check_items_Nil [OF children] check_checks_Nil [OF children] check_carry_Nil
      check_dependencies_Nil [OF children] check_successors_Nil [OF children] by blast+
  have "NotWithPlanner \<notin> codes (concat (map (check_child ctx) ?children))"
    by (simp add: codes_concat rule_codes(1) del: set_concat)
  then have "concat (map (check_child ctx) ?children) = []"
    by (intro none) (auto simp: check_plan_def Let_def)
  moreover have "concat (map (\<lambda>member. push_if (member \<notin> set ?children) (problem MemberNotChild (Some member)))
      (ctx_members ctx)) = []" "push_if (?children = []) (problem NoChildren None) = []"
    by (rule none; auto simp: check_plan_def Let_def)+
  ultimately show "children_pending plan ctx"
    unfolding concat_push_if_Nil concat_eq_Nil_conv set_map ball_simps check_child_Nil children
    by (auto simp: children_pending_def)
qed

section \<open>The edges after the apply\<close>

lemma closes_loop_acyclic:
  assumes "closes_loop graph edges = None" "acyclic r" "r \<subseteq> waits_rel graph"
  shows "acyclic (r \<union> edges_rel edges)"
  unfolding acyclic_def
proof (intro allI notI)
  let ?s = "edges_rel edges"
  fix x assume loop: "(x, x) \<in> (r \<union> ?s)\<^sup>+"
  moreover have "(x, x) \<notin> r\<^sup>+" using assms(2) by (simp add: acyclic_def)
  ultimately obtain u where "u \<in> fst ` ?s" "(x, u) \<in> (r \<union> ?s)\<^sup>*" "(u, x) \<in> (r \<union> ?s)\<^sup>+"
    using trancl_avoids [of x x r ?s] by blast
  then have "(u, u) \<in> (r \<union> ?s)\<^sup>+" by simp
  moreover have "r \<union> ?s \<subseteq> waits_rel graph \<union> ?s" using assms(3) by blast
  ultimately have "(u, u) \<in> (waits_rel graph \<union> ?s)\<^sup>+" by (rule trancl_mono)
  moreover obtain t where "u = WaitNode.Task t" "t \<in> fst ` set edges"
    using \<open>u \<in> fst ` ?s\<close> by (force simp: edges_rel_def)
  ultimately show False using assms(1) unfolding closes_loop_None by blast
qed

lemma waits_rel_fold_push: "waits_rel (fold push_wait es graph) = waits_rel graph \<union> set es"
proof (induction es arbitrary: graph)
  case (Cons e es)
  have "waits_rel (push_wait e graph) = insert e (waits_rel graph)"
    by (cases e) (auto simp: waits_rel_def push_wait_def waits_of_def AList.update_conv' split: if_splits)
  then show ?case using Cons.IH by simp
qed simp

lemma waits_rel_wait_graph: "waits_rel (wait_graph q i) = set (edges_besides q i)"
proof -
  have "waits_rel [] = {}" by (simp add: waits_rel_def waits_of_def)
  then show ?thesis by (simp add: wait_graph_def waits_rel_fold_push)
qed

text \<open>Every edge onto the replaced task of a task listed is gone, and each need is an edge.\<close>

lemma set_repoint:
  assumes "\<And>j needs. (j, needs) \<in> set edges \<Longrightarrow> i \<notin> set needs"
  shows "set (repoint i edges ds) = {e \<in> set ds. \<not> (snd e = i \<and> fst e \<in> fst ` set edges)}
    \<union> {(j, n). \<exists>needs. (j, needs) \<in> set edges \<and> n \<in> set needs}"
  using assms
proof (induction edges arbitrary: ds)
  case (Cons e edges)
  obtain j needs where e: "e = (j, needs)" by (cases e)
  have "i \<notin> set needs" using Cons.prems [of j needs] by (simp add: e)
  moreover have "set (repoint i (e # edges) ds) = set (repoint i edges (repoint_one i e ds))"
    by (simp add: repoint_def)
  moreover have "set (repoint_one i e ds) = {x \<in> set ds. x \<noteq> (j, i)} \<union> {(j, n) | n. n \<in> set needs}"
    by (auto simp: repoint_one_def set_push_new e)
  moreover have "set (repoint i edges (repoint_one i e ds))
      = {x \<in> set (repoint_one i e ds). \<not> (snd x = i \<and> fst x \<in> fst ` set edges)}
        \<union> {(j, n). \<exists>needs. (j, needs) \<in> set edges \<and> n \<in> set needs}"
    by (rule Cons.IH) (use Cons.prems in auto)
  ultimately have member: "x \<in> set (repoint i (e # edges) ds) \<longleftrightarrow>
      x \<in> set ds \<and> \<not> (snd x = i \<and> fst x \<in> fst ` set (e # edges))
      \<or> (\<exists>needs. (fst x, needs) \<in> set (e # edges) \<and> snd x \<in> set needs)" for x
    by (cases x) (auto simp: e)
  show ?case unfolding set_eq_iff Un_iff mem_Collect_eq case_prod_beta member by simp
qed (simp add: repoint_def)

lemma edges_rel_append: "edges_rel (xs @ ys) = edges_rel xs \<union> edges_rel ys"
  by (auto simp: edges_rel_def)

text \<open>The needs of a successor are children.\<close>

lemma successor_needs:
  assumes "successors_mapped plan ctx" "(j, needs) \<in> set (successor_edges plan successors)"
  shows "j \<in> set successors" "set needs \<subseteq> set (child_ids plan)"
proof -
  from assms(2) show "j \<in> set successors" by (auto simp: successor_edges_def)
  have listed: "set (ps_needs s) \<subseteq> set (child_ids plan)" if "s \<in> set (plan_successors plan)" for s
    using assms(1) that unfolding successors_mapped_def by blast
  let ?found = "find (\<lambda>s. ps_task_id s = j) (plan_successors plan)"
  have needs: "needs = (case ?found of Some s \<Rightarrow> ps_needs s | None \<Rightarrow> child_ids plan)"
    using assms(2) by (auto simp: successor_edges_def)
  show "set needs \<subseteq> set (child_ids plan)"
  proof (cases ?found)
    case (Some s)
    from find_Some_in [OF this] have "s \<in> set (plan_successors plan)" by simp
    from listed [OF this] Some needs show ?thesis by simp
  qed (simp add: needs)
qed

lemma edges_rel_mono:
  assumes "set xs \<subseteq> set ys"
  shows "edges_rel (successor_edges plan xs) \<subseteq> edges_rel (successor_edges plan ys)"
proof -
  have "set (successor_edges plan xs) \<subseteq> set (successor_edges plan ys)"
    using assms by (auto simp: successor_edges_def)
  then show ?thesis by (auto simp: edges_rel_def)
qed

lemma successor_edges_fst: "fst ` set (successor_edges plan successors) = set successors"
  by (force simp: successor_edges_def)

section \<open>What an approved plan gives\<close>

lemma set_successors_now:
  assumes "distinct (map task_id (q_tasks q))"
  shows "(j, s) \<in> set (successors_now q i) \<longleftrightarrow>
    (j, i) \<in> set (q_dependencies q) \<and> status_of q j = Some s \<and> \<not> TaskStatus_is_terminal s"
proof -
  have "status_of q j = Some s \<longleftrightarrow> (\<exists>t \<in> set (q_tasks q). task_id t = j \<and> task_status t = s)"
    using row_of_distinct [OF assms] by (auto simp: status_of_def)
  then show ?thesis by (auto simp: successors_now_def)
qed

lemma approved_to_apply:
  assumes "problems_now af q op generation = Inr []"
  obtains p members ctx where "latest_plan q (op_id op) = Some p"
    and "plan_context af q op (rev_plan p) members = Inr ctx" "ctx_operation ctx = op"
    and "codes (check_plan (rev_plan p) ctx) \<subseteq> {NotWithPlanner}"
    and "closes_loop (wait_graph q (op_task_id op)) (successor_edges (rev_plan p)
      (map fst (successors_now q (op_task_id op))) @ [(op_task_id op, child_ids (rev_plan p))]) = None"
    and "status_of q (op_task_id op) = Some TaskStatus.InProgress"
    and "\<forall>child \<in> set (child_ids (rev_plan p)). status_of q child = Some TaskStatus.Submitted"
    and "snd ` set (successors_now q (op_task_id op)) \<subseteq> {TaskStatus.Draft, TaskStatus.Submitted, TaskStatus.Ready}"
proof -
  from assms obtain st where st: "apply_state af q op generation = Inr st" "apply_problems st = []"
    by (auto simp: problems_now_def and_then_eq_Inr)
  then have rest: "queue_at_rest st" "approved_plan_holds st"
    using retry_recovery [of st] replan_recovery [of st] by auto
  from st(1) have plan: "ap_plan st = latest_plan q (op_id op)"
    by (auto simp: apply_state_def Let_def and_then_eq_Inr)
  with rest(2) obtain p where p: "latest_plan q (op_id op) = Some p" by (auto simp: approved_plan_holds_def)
  from st(1) p obtain status members children problems t where
    children: "query_map (read_task q) (child_ids (rev_plan p)) = Inr children"
    and check: "check_replacement af q op (rev_plan p) members [] = Inr problems"
    and t: "read_task q (op_task_id op) = Inr t"
    and read: "ap_children st = map (\<lambda>t. (task_id t, task_status t)) children" "ap_plan_problems st = problems"
      "ap_task st = task_status t" "ap_successors st = successors_now q (op_task_id op)"
    unfolding apply_state_def Let_def by (auto simp: and_then_eq_Inr)
  from check obtain ctx where ctx: "plan_context af q op (rev_plan p) members = Inr ctx"
    and problems: "problems = check_plan (rev_plan p) ctx
      @ (case closes_loop (wait_graph q (op_task_id op)) (successor_edges (rev_plan p)
          (map fst (successors_now q (op_task_id op))) @ [(op_task_id op, child_ids (rev_plan p))]) of
          Some task \<Rightarrow> [problem PlanProblemCode.DependencyCycle (Some task)] | None \<Rightarrow> [])"
    unfolding check_replacement_def Let_def after_actions_def by (auto simp: and_then_eq_Inr)
  have op: "ctx_operation ctx = op" using ctx by (auto simp: plan_context_def and_then_eq_Inr)
  have codes: "codes problems \<subseteq> {NotWithPlanner}" using rest(2) read(2) by (simp add: approved_plan_holds_def)
  have submitted: "task_status c = TaskStatus.Submitted" if "c \<in> set children" for c
    using rest(2) read(1) that by (force simp: approved_plan_holds_def)
  show thesis
  proof (rule that [OF p ctx op])
    show "codes (check_plan (rev_plan p) ctx) \<subseteq> {NotWithPlanner}" using codes by (auto simp: problems)
    show "closes_loop (wait_graph q (op_task_id op)) (successor_edges (rev_plan p)
        (map fst (successors_now q (op_task_id op))) @ [(op_task_id op, child_ids (rev_plan p))]) = None"
        (is "?loop = None")
      using codes unfolding problems by (cases ?loop) simp_all
    show "status_of q (op_task_id op) = Some TaskStatus.InProgress"
      using read_task_status(1) [OF t] rest(1) read(3) by (simp add: queue_at_rest_def)
    show "snd ` set (successors_now q (op_task_id op)) \<subseteq> {TaskStatus.Draft, TaskStatus.Submitted, TaskStatus.Ready}"
      using rest(2) read(4) by (simp add: approved_plan_holds_def)
    show "\<forall>child \<in> set (child_ids (rev_plan p)). status_of q child = Some TaskStatus.Submitted"
    proof
    fix child assume "child \<in> set (child_ids (rev_plan p))"
    then obtain k where k: "k < length (child_ids (rev_plan p))" "child_ids (rev_plan p) ! k = child"
      by (auto simp: in_set_conv_nth)
    then have c: "read_task q child = Inr (children ! k)" "children ! k \<in> set children"
      using children unfolding query_map_Inr by (auto simp: list_all2_conv_all_nth)
    from read_task_status(1) [OF c(1)] submitted [OF c(2)]
    show "status_of q child = Some TaskStatus.Submitted" by simp
    qed
  qed
qed

lemma approved_plan_only:
  assumes "problems_now af q op generation = Inr []" "latest_plan q (op_id op) = Some p"
  shows "rev_approved_at p \<noteq> None" "op_proposal_id op = Some (rev_proposal_id p)"
proof -
  from assms(1) obtain st where st: "apply_state af q op generation = Inr st" "apply_problems st = []"
    by (auto simp: problems_now_def and_then_eq_Inr)
  then have "approved_plan_holds st" using replan_recovery [of st] by auto
  moreover have "ap_plan st = latest_plan q (op_id op)" "ap_operation st = op"
    using st(1) by (auto simp: apply_state_def Let_def and_then_eq_Inr)
  ultimately show "rev_approved_at p \<noteq> None" "op_proposal_id op = Some (rev_proposal_id p)"
    using assms(2) by (auto simp: approved_plan_holds_def)
qed

section \<open>The write\<close>

lemma move_through_ok:
  "board_ok ops \<Longrightarrow> move_through facts i generation reason now tos ops = Inr ops' \<Longrightarrow>
    board_ok ops' \<and> map op_id ops' = map op_id ops \<and> later ops ops'
    \<and> (tos \<noteq> [] \<longrightarrow> (\<exists>op \<in> set ops'. op_id op = i \<and> op_status op = last tos))"
proof (induction tos arbitrary: ops)
  case (Cons to tos)
  from Cons.prems(2) obtain current where current: "read_operation ops i = Inr current"
    by (auto simp: and_then_eq_Inr)
  show ?case
  proof (cases "op_status current = to")
    case True
    with Cons.prems(2) current have rest: "move_through facts i generation reason now tos ops = Inr ops'" by simp
    show ?thesis
    proof (cases "tos = []")
      case True
      with \<open>op_status current = to\<close> rest Cons.prems(1) read_operation_Inr [OF current] show ?thesis by auto
    next
      case False
      with Cons.IH [OF Cons.prems(1) rest] show ?thesis by simp
    qed
  next
    case False
    with Cons.prems(2) current obtain ops1 row eff where
      m: "move_in_as facts ops i generation (apply_move reason to) now True = Inr (ops1, row, eff)"
      and rest: "move_through facts i generation reason now tos ops1 = Inr ops'"
      by (auto simp: and_then_eq_Inr)
    note ok = move_in_as_ok [OF Cons.prems(1) m]
    have to: "op_status row = to" using ok(5) by (simp add: apply_move_def)
    show ?thesis
    proof (cases "tos = []")
      case True
      with rest ok to show ?thesis by auto
    next
      case False
      with Cons.IH [OF ok(1) rest] ok(2,7) show ?thesis by (auto intro: later_trans)
    qed
  qed
qed simp

lemma end_replaced_run_core:
  assumes "end_replaced_run q run = Inr q'"
  shows "core_of q' = core_of q" "tables_ok q' = tables_ok q" "q_tasks q' = q_tasks q"
    "q_dependencies q' = q_dependencies q" "q_replacements q' = q_replacements q"
    "q_operations q' = q_operations q" "q_mappings q' = q_mappings q"
  using assms by (auto simp: end_replaced_run_def and_then_eq_Inr)

text \<open>The waits of the task split up, its successors re-pointed, go round no loop.\<close>

lemma split_acyclic:
  assumes acyc: "acyclic (live_waits c)" and running: "c_status c i = Some TaskStatus.InProgress"
    and same: "set S' = set S"
    and D: "D = {e \<in> c_depends c. \<not> (snd e = i \<and> fst e \<in> set S)}
      \<union> {(j, n). \<exists>needs. (j, needs) \<in> set (successor_edges plan S') \<and> n \<in> set needs}"
    and kept: "\<And>j. (j, i) \<in> c_depends c \<Longrightarrow> j \<notin> set S \<Longrightarrow> c_status c j = Some TaskStatus.Canceled"
    and loop: "closes_loop w (successor_edges plan S @ [(i, child_ids plan)]) = None"
    and besides: "\<And>x y. (x, y) \<in> core_waits c \<Longrightarrow>
      (\<And>j. x = WaitNode.Task j \<Longrightarrow> y = WaitNode.Task i \<Longrightarrow> (j, i) \<in> c_replaced c) \<Longrightarrow> (x, y) \<in> waits_rel w"
    and c': "c' = c\<lparr>c_status := (c_status c)(i \<mapsto> TaskStatus.Replaced), c_depends := D,
      c_replaced := c_replaced c \<union> {i} \<times> set (child_ids plan)\<rparr>"
  shows "acyclic (live_waits c')"
proof -
  let ?E = "successor_edges plan S'"
  let ?r = "live_waits c \<inter> waits_rel w" and ?new = "successor_edges plan S @ [(i, child_ids plan)]"
  have "acyclic ?r" by (rule acyclic_subset [OF acyc]) simp
  from closes_loop_acyclic [OF loop this] have acyclic: "acyclic (?r \<union> edges_rel ?new)" by simp
  have splits: "edges_rel ?E \<subseteq> edges_rel ?new"
    using edges_rel_mono [of S' S plan] same by (auto simp: edges_rel_append)
  have "live_waits c' \<subseteq> ?r \<union> edges_rel ?new"
  proof (rule waits_subsetI)
    fix j p assume e: "(WaitNode.Task j, WaitNode.Task p) \<in> live_waits c'"
    then have live: "c_status c j \<noteq> Some TaskStatus.Canceled" using running by (auto simp: c' split: if_splits)
    from e have "(j, p) \<in> D \<or> (j, p) \<in> c_replaced c \<or> j = i \<and> p \<in> set (child_ids plan)"
      by (auto simp: c')
    then consider "(j, p) \<in> c_depends c" "p \<noteq> i \<or> j \<notin> set S"
      | needs where "(j, needs) \<in> set ?E" "p \<in> set needs"
      | "(j, p) \<in> c_replaced c" | "j = i" "p \<in> set (child_ids plan)"
      unfolding D by auto
    then show "(WaitNode.Task j, WaitNode.Task p) \<in> ?r \<union> edges_rel ?new"
    proof cases
      case 1
      then have "p \<noteq> i" using kept [of j] live by auto
      with 1 live besides [of "WaitNode.Task j" "WaitNode.Task p"] show ?thesis by simp
    next
      case 2
      then have "(WaitNode.Task j, WaitNode.Task p) \<in> edges_rel ?E" by (auto simp: edges_rel_def)
      with splits show ?thesis by blast
    next
      case 3
      with live besides [of "WaitNode.Task j" "WaitNode.Task p"] show ?thesis by auto
    next
      case 4
      then show ?thesis by (simp add: edges_rel_append) (simp add: edges_rel_def)
    qed
  next
    fix j g assume "(WaitNode.Task j, WaitNode.Goal g) \<in> live_waits c'"
    then have "(WaitNode.Task j, WaitNode.Goal g) \<in> live_waits c" using running by (auto simp: c' split: if_splits)
    with besides [of "WaitNode.Task j" "WaitNode.Goal g"] show "(WaitNode.Task j, WaitNode.Goal g) \<in> ?r \<union> edges_rel ?new" by simp
  next
    fix j g assume "(WaitNode.Goal g, WaitNode.Task j) \<in> live_waits c'"
    then have "(WaitNode.Goal g, WaitNode.Task j) \<in> live_waits c" using running by (auto simp: c' split: if_splits)
    with besides [of "WaitNode.Goal g" "WaitNode.Task j"] show "(WaitNode.Goal g, WaitNode.Task j) \<in> ?r \<union> edges_rel ?new" by simp
  qed (simp add: c')
  then show ?thesis using acyclic by (rule acyclic_subset [rotated])
qed

text \<open>The task split up, its successors re-pointed.\<close>

lemma split_core_step:
  assumes ok: "core_ok c" "acyclic (live_waits c)" and running: "c_status c i = Some TaskStatus.InProgress"
    and mapped: "successors_mapped plan ctx" and apart: "i \<notin> set (child_ids plan)"
    and children: "\<And>child. child \<in> set (child_ids plan) \<Longrightarrow> c_status c child = Some TaskStatus.Submitted"
    and successors: "\<And>j. j \<in> set S \<longleftrightarrow> (j, i) \<in> c_depends c
      \<and> c_status c j \<notin> {Some TaskStatus.Completed, Some TaskStatus.Canceled, Some TaskStatus.Replaced}"
    and pending: "\<And>j. j \<in> set S \<Longrightarrow> c_status c j \<in> editable"
    and same: "set S' = set S"
    and loop: "closes_loop w (successor_edges plan S @ [(i, child_ids plan)]) = None"
    and besides: "\<And>x y. (x, y) \<in> core_waits c \<Longrightarrow>
      (\<And>j. x = WaitNode.Task j \<Longrightarrow> y = WaitNode.Task i \<Longrightarrow> (j, i) \<in> c_replaced c) \<Longrightarrow> (x, y) \<in> waits_rel w"
    and ds: "set ds = c_depends c"
    and c': "c' = c\<lparr>c_status := (c_status c)(i \<mapsto> TaskStatus.Replaced),
      c_depends := set (repoint i (successor_edges plan S') ds),
      c_replaced := c_replaced c \<union> {i} \<times> set (child_ids plan)\<rparr>"
  shows "core_step c c'"
proof -
  let ?E = "successor_edges plan S'"
  have needs: "j \<in> set S" "set needs \<subseteq> set (child_ids plan)" if "(j, needs) \<in> set ?E" for j needs
    using successor_needs [OF mapped that] same by simp_all
  have D: "set (repoint i ?E ds) = {e \<in> c_depends c. \<not> (snd e = i \<and> fst e \<in> set S)}
      \<union> {(j, n). \<exists>needs. (j, needs) \<in> set ?E \<and> n \<in> set needs}"
    unfolding ds [symmetric] same [symmetric]
    by (subst set_repoint) (use needs(2) apart in \<open>auto simp: successor_edges_fst\<close>)
  have kept: "(j, i) \<in> c_depends c \<Longrightarrow> j \<notin> set S \<Longrightarrow> c_status c j = Some TaskStatus.Canceled" for j
    using successors [of j] core_okD(4) [OF ok(1), of j i] running by auto
  show ?thesis
  proof (rule core_replaced [OF running])
    show "c_status c j \<in> editable" if "j \<in> set (child_ids plan)" for j using children [OF that] by simp
    show "c_status c j \<in> editable \<and> p \<in> set (child_ids plan)"
      if "(j, p) \<in> set (repoint i ?E ds) - c_depends c" for j p
      using that needs pending unfolding D by blast
    show "c_status c j \<notin> editable" if "(j, i) \<in> set (repoint i ?E ds)" for j
    proof -
      have "(j, i) \<in> c_depends c" "j \<notin> set S" using that needs(2) apart unfolding D by auto
      from kept [OF this] show ?thesis by simp
    qed
    show "acyclic (live_waits c')"
      by (rule split_acyclic [OF ok(2) running same D kept loop besides c'])
  qed (rule c')
qed

lemma core_of_rows:
  assumes "q_tasks q' = q_tasks q"
  shows "status_of q' = status_of q" "membership q' = membership q"
  using assms by (simp_all add: status_of_def membership_def row_of_def fun_eq_iff)

lemma successors_now_same:
  "q_tasks q' = q_tasks q \<Longrightarrow> q_dependencies q' = q_dependencies q \<Longrightarrow> successors_now q' = successors_now q"
  by (simp add: successors_now_def fun_eq_iff)

lemma repointed_core:
  assumes "tables_ok q" "op \<in> applied_ids (q_operations q)"
    and "q' = q\<lparr>q_replacements := q_replacements q @ map (\<lambda>child. (op, i, child)) cs,
      q_mappings := ms, q_dependencies := ds\<rparr>"
  shows "tables_ok q'"
    "core_of q' = (core_of q)\<lparr>c_depends := set ds, c_replaced := c_replaced (core_of q) \<union> {i} \<times> set cs\<rparr>"
proof -
  show ok: "tables_ok q'" using assms by (auto simp: tables_ok_def)
  have "c_replaced (core_of q') = c_replaced (core_of q) \<union> {i} \<times> set cs"
    unfolding replaced_rows [OF ok] replaced_rows [OF assms(1)] by (auto simp: assms(3))
  moreover have "status_of q' = status_of q" "membership q' = membership q"
    by (rule core_of_rows; simp add: assms(3))+
  ultimately show "core_of q' = (core_of q)\<lparr>c_depends := set ds, c_replaced := c_replaced (core_of q) \<union> {i} \<times> set cs\<rparr>"
    by (simp add: core_of_def assms(3))
qed

lemma waits_besides:
  assumes "tables_ok q" "(x, y) \<in> core_waits (core_of q)"
    and "\<And>j. x = WaitNode.Task j \<Longrightarrow> y = WaitNode.Task i \<Longrightarrow> (j, i) \<in> c_replaced (core_of q)"
  shows "(x, y) \<in> waits_rel (wait_graph q i)"
proof -
  have "filter (\<lambda>(op, _, _). operation_applied q op) (q_replacements q) = q_replacements q"
    using tables_okD(3) [OF assms(1)] by (force simp: filter_id_conv operation_applied_iff)
  note besides = edges_besides_def [of q i, unfolded this] and edges = wait_edges_def [of q, unfolded this]
  have "(x, y) \<in> set (wait_edges q)" using assms(2) by (simp add: wait_edges_core [OF assms(1)])
  note listed = this [unfolded edges set_append Un_iff set_map]
  show ?thesis
    unfolding waits_rel_wait_graph
  proof (cases "\<exists>j p. x = WaitNode.Task j \<and> y = WaitNode.Task p \<and> (j, p) \<in> set (q_dependencies q)")
    case True
    then obtain j p where depends: "x = WaitNode.Task j" "y = WaitNode.Task p" "(j, p) \<in> set (q_dependencies q)"
      by blast
    show "(x, y) \<in> set (edges_besides q i)"
    proof (cases "p = i")
      case True
      with assms(3) depends obtain op where "(op, j, i) \<in> set (q_replacements q)"
        unfolding replaced_rows [OF assms(1)] by auto
      then show ?thesis unfolding besides set_append depends(1,2) True by force
    next
      case False
      with depends show ?thesis unfolding besides set_append by force
    qed
  next
    case False
    then have "(x, y) \<notin> (\<lambda>(i, p). (WaitNode.Task i, WaitNode.Task p)) ` set (q_dependencies q)" by auto
    with listed show "(x, y) \<in> set (edges_besides q i)"
      unfolding besides set_append Un_iff set_map by blast
  qed
qed

text \<open>Who waits for a task that is split up and is not done: the same before and after the split.\<close>

lemma successors_of_split:
  assumes distinct: "distinct (map task_id (q_tasks q))" "distinct (map task_id (q_tasks q2))"
    and running: "status_of q i = Some TaskStatus.InProgress"
    and pending: "snd ` set (successors_now q i) \<subseteq> {TaskStatus.Draft, TaskStatus.Submitted, TaskStatus.Ready}"
    and after: "q_dependencies q2 = q_dependencies q" "status_of q2 = (status_of q)(i \<mapsto> TaskStatus.Replaced)"
  shows "set (map fst (successors_now q i)) = {j. (j, i) \<in> set (q_dependencies q) \<and> status_of q j \<in> editable}"
    and "set (map fst (successors_now q2 i)) = set (map fst (successors_now q i))"
    and "j \<in> set (map fst (successors_now q i)) \<longleftrightarrow>
      (j, i) \<in> set (q_dependencies q) \<and> (\<exists>s. status_of q j = Some s \<and> \<not> TaskStatus_is_terminal s)"
proof -
  note found = set_successors_now [OF distinct(1)] set_successors_now [OF distinct(2)]
  show member: "j \<in> set (map fst (successors_now q i)) \<longleftrightarrow> (j, i) \<in> set (q_dependencies q)
      \<and> (\<exists>s. status_of q j = Some s \<and> \<not> TaskStatus_is_terminal s)" for j
    using found(1) by force
  have member2: "j \<in> set (map fst (successors_now q2 i)) \<longleftrightarrow> (j, i) \<in> set (q_dependencies q)
      \<and> (\<exists>s. status_of q2 j = Some s \<and> \<not> TaskStatus_is_terminal s)" for j
    using found(2) after(1) by force
  have editable: "status_of q j \<in> editable" if "j \<in> set (map fst (successors_now q i))" for j
    using that pending found(1) by force
  have "(i, i) \<notin> set (q_dependencies q)"
    using editable [of i] running unfolding member by (auto simp: TaskStatus_is_terminal_def)
  then have "j \<in> set (map fst (successors_now q2 i)) \<longleftrightarrow> j \<in> set (map fst (successors_now q i))" for j
    unfolding member member2 after(2) by (cases "j = i") auto
  then show "set (map fst (successors_now q2 i)) = set (map fst (successors_now q i))" by blast
  have "j \<in> set (map fst (successors_now q i)) \<longleftrightarrow> (j, i) \<in> set (q_dependencies q) \<and> status_of q j \<in> editable" for j
    using editable [of j] unfolding member by (auto simp: TaskStatus_is_terminal_def)
  then show "set (map fst (successors_now q i)) = {j. (j, i) \<in> set (q_dependencies q) \<and> status_of q j \<in> editable}"
    by blast
qed

text \<open>What is written before the children are approved.\<close>

lemma split_written:
  assumes ok: "tables_ok q"
    and ops: "move_through facts op_i generation reason now
      [ReplanStatus.Applying, ReplanStatus.Applied] (q_operations q) = Inr ops"
    and q1: "end_replaced_run (q\<lparr>q_operations := ops\<rparr>) run = Inr q1"
    and q2: "replace_task q1 i run stamp = Inr (q2, t)"
    and q3: "q3 = q2\<lparr>q_replacements := q_replacements q2 @ map (\<lambda>child. (op_i, i, child)) cs,
      q_mappings := ms, q_dependencies := ds\<rparr>"
  shows "tables_ok q2" "tables_ok q3" "q_dependencies q2 = q_dependencies q"
    "status_of q2 = (status_of q)(i \<mapsto> TaskStatus.Replaced)"
    "core_of q3 = (core_of q)\<lparr>c_status := (status_of q)(i \<mapsto> TaskStatus.Replaced), c_depends := set ds,
      c_replaced := c_replaced (core_of q) \<union> {i} \<times> set cs\<rparr>"
proof -
  have moved: "board_ok ops" "later (q_operations q) ops" "op_i \<in> applied_ids ops"
    using move_through_ok [OF tables_okD(2) [OF ok] ops] by (auto simp: applied_ids_def intro: rev_image_eqI)
  note on_ops = operations_change [OF ok moved(1) later_applied [OF moved(2)]]
  note r = end_replaced_run_core [OF q1]
  note e = end_task_accepted [OF q2 [unfolded replace_task_def]]
  show ok2: "tables_ok q2" using e(3) r(2) on_ops(1) by simp
  have core2: "core_of q2 = (core_of q)\<lparr>c_status := (status_of q)(i \<mapsto> TaskStatus.Replaced)\<rparr>"
    using e(2) r(1) on_ops(2) by (metis core_of_simps(1))
  show "status_of q2 = (status_of q)(i \<mapsto> TaskStatus.Replaced)" using core2 core_of_simps(1) [of q2] by simp
  show "q_dependencies q2 = q_dependencies q" using e(5) r(4) by simp
  have "op_i \<in> applied_ids (q_operations q2)" using e(7) r(6) moved(3) by simp
  note split = repointed_core [OF ok2 this q3]
  show "tables_ok q3" by (rule split(1))
  show "core_of q3 = (core_of q)\<lparr>c_status := (status_of q)(i \<mapsto> TaskStatus.Replaced), c_depends := set ds,
      c_replaced := c_replaced (core_of q) \<union> {i} \<times> set cs\<rparr>"
    using split(2) by (simp add: core2)
qed

text \<open>A replacement written is the split of the task (\<open>q1\<close>), then the approval of its children.\<close>

lemma write_replacement_split:
  assumes "write_replacement af q op generation reason stamp now = Inr (q', op')"
    and "problems_now af q op generation = Inr []"
    and ok: "tables_ok q" "core_ok (core_of q)" "acyclic (live_waits (core_of q))"
  obtains p members ctx q1 q2 successors where "latest_plan q (op_id op) = Some p"
    and "plan_context af q op (rev_plan p) members = Inr ctx"
    and "codes (check_plan (rev_plan p) ctx) \<subseteq> {NotWithPlanner}"
    and "op_task_id op \<notin> set (child_ids (rev_plan p))"
    and "set successors = {j. (j, op_task_id op) \<in> set (q_dependencies q) \<and> status_of q j \<in> editable}"
    and "core_of q1 = (core_of q)\<lparr>c_status := (status_of q)(op_task_id op \<mapsto> TaskStatus.Replaced),
      c_depends := set (repoint (op_task_id op) (successor_edges (rev_plan p) successors) (q_dependencies q)),
      c_replaced := c_replaced (core_of q) \<union> {op_task_id op} \<times> set (child_ids (rev_plan p))\<rparr>"
    and "core_step (core_of q) (core_of q1)" "tables_ok q1"
    and "live (\<lambda>child q. and_then (apply_transition (af_transition af) q child Approve stamp)
      (\<lambda>(q, _). Inr q)) (child_ids (rev_plan p)) q1 = Inr q2"
    and "q' = add_event (op_task_id op) (Some (op_run_id op)) (EventReplanApplied (op_id op) (child_ids (rev_plan p))) q2"
    and "read_operation (q_operations q2) (op_id op) = Inr op'"
proof -
  let ?i = "op_task_id op"
  obtain p members ctx where p: "latest_plan q (op_id op) = Some p"
    and from_tables: "plan_context af q op (rev_plan p) members = Inr ctx"
    and ctx: "ctx_operation ctx = op" and checked: "codes (check_plan (rev_plan p) ctx) \<subseteq> {NotWithPlanner}"
    and loop: "closes_loop (wait_graph q ?i) (successor_edges (rev_plan p) (map fst (successors_now q ?i))
      @ [(?i, child_ids (rev_plan p))]) = None"
    and running: "status_of q ?i = Some TaskStatus.InProgress"
    and submitted: "\<forall>child \<in> set (child_ids (rev_plan p)). status_of q child = Some TaskStatus.Submitted"
    and pending: "snd ` set (successors_now q ?i) \<subseteq> {TaskStatus.Draft, TaskStatus.Submitted, TaskStatus.Ready}"
    by (rule approved_to_apply [OF assms(2)])
  let ?plan = "rev_plan p"
  from assms(1) p obtain ops q1 q2 t q3 where
    ops: "move_through (af_replan af) (op_id op) generation reason now
      [ReplanStatus.Applying, ReplanStatus.Applied] (q_operations q) = Inr ops"
    and q1: "end_replaced_run (q\<lparr>q_operations := ops\<rparr>) (op_run_id op) = Inr q1"
    and q2: "replace_task q1 ?i (op_run_id op) stamp = Inr (q2, t)"
    and q3: "live (\<lambda>child q. and_then (apply_transition (af_transition af) q child Approve stamp) (\<lambda>(q, _). Inr q))
      (child_ids ?plan)
      (q2\<lparr>q_replacements := q_replacements q2 @ map (\<lambda>child. (op_id op, ?i, child)) (child_ids ?plan),
        q_mappings := q_mappings q2 @ map (\<lambda>m. (op_id op, m)) (mappings_of ?plan),
        q_dependencies := repoint ?i (successor_edges ?plan (map fst (successors_now
          (q2\<lparr>q_replacements := q_replacements q2 @ map (\<lambda>child. (op_id op, ?i, child)) (child_ids ?plan)\<rparr>) ?i)))
          (q_dependencies q2)\<rparr>) = Inr q3"
    and q': "q' = add_event ?i (Some (op_run_id op)) (EventReplanApplied (op_id op) (child_ids ?plan)) q3"
    and op': "read_operation (q_operations q3) (op_id op) = Inr op'"
    unfolding write_replacement_def Let_def by (auto simp: and_then_eq_Inr simp del: move_through.simps live.simps)
  let ?S = "map fst (successors_now q ?i)" and ?S' = "map fst (successors_now q2 ?i)"
  let ?q3 = "q2\<lparr>q_replacements := q_replacements q2 @ map (\<lambda>child. (op_id op, ?i, child)) (child_ids ?plan),
    q_mappings := q_mappings q2 @ map (\<lambda>m. (op_id op, m)) (mappings_of ?plan),
    q_dependencies := repoint ?i (successor_edges ?plan ?S') (q_dependencies q2)\<rparr>"
  note w = split_written [OF ok(1) ops q1 q2 refl [of ?q3]]
  note waiting = successors_of_split [OF tables_okD(1) [OF ok(1)] tables_okD(1) [OF w(1)] running pending w(3,4)]
  have core3: "core_of ?q3 = (core_of q)\<lparr>c_status := (status_of q)(?i \<mapsto> TaskStatus.Replaced),
      c_depends := set (repoint ?i (successor_edges ?plan ?S') (q_dependencies q)),
      c_replaced := c_replaced (core_of q) \<union> {?i} \<times> set (child_ids ?plan)\<rparr>"
    using w(5) by (simp only: w(3))
  have apart: "?i \<notin> set (child_ids ?plan)"
    using no_other_problems(1) [OF checked] unfolding children_pending_def ctx by blast
  have step: "core_step (core_of q) (core_of ?q3)"
  proof (rule split_core_step)
    show "c_status (core_of q) j \<in> editable" if "j \<in> set ?S" for j
      using that unfolding waiting(1) by simp
    show "set ?S' = set ?S" by (rule waiting(2))
    show "j \<in> set ?S \<longleftrightarrow> (j, ?i) \<in> c_depends (core_of q)
        \<and> c_status (core_of q) j \<notin> {Some TaskStatus.Completed, Some TaskStatus.Canceled, Some TaskStatus.Replaced}" for j
      unfolding waiting(3) using core_okD(1) [OF ok(2), of j ?i] by (auto simp: TaskStatus_is_terminal_def)
    show "successors_mapped ?plan ctx" by (rule no_other_problems(6) [OF checked])
    show "?i \<notin> set (child_ids ?plan)" by (rule apart)
    show "core_of ?q3 = (core_of q)\<lparr>c_status := (c_status (core_of q))(?i \<mapsto> TaskStatus.Replaced),
        c_depends := set (repoint ?i (successor_edges ?plan ?S') (q_dependencies q)),
        c_replaced := c_replaced (core_of q) \<union> {?i} \<times> set (child_ids ?plan)\<rparr>"
      unfolding core_of_simps by (rule core3)
    show "(x, y) \<in> waits_rel (wait_graph q ?i)" if "(x, y) \<in> core_waits (core_of q)"
      "\<And>j. x = WaitNode.Task j \<Longrightarrow> y = WaitNode.Task ?i \<Longrightarrow> (j, ?i) \<in> c_replaced (core_of q)" for x y
      by (rule waits_besides [OF ok(1) that])
  qed (use ok running submitted loop in simp_all)
  have "successors_now (q2\<lparr>q_replacements := q_replacements q2
      @ map (\<lambda>child. (op_id op, ?i, child)) (child_ids ?plan)\<rparr>) ?i = successors_now q2 ?i"
    by (rule fun_cong [OF successors_now_same]) simp_all
  with q3 have approved: "live (\<lambda>child q. and_then (apply_transition (af_transition af) q child Approve stamp)
      (\<lambda>(q, _). Inr q)) (child_ids ?plan) ?q3 = Inr q3" by simp
  show thesis
    by (rule that [OF p from_tables checked apart trans [OF waiting(2,1)] core3 step w(2) approved q' op'])
qed

lemma write_replacement_advances:
  assumes "write_replacement af q op generation reason stamp now = Inr (q', op')"
    and "problems_now af q op generation = Inr []"
    and ok: "tables_ok q" "core_ok (core_of q)" "acyclic (live_waits (core_of q))"
  shows "advances q q'"
proof -
  obtain p members ctx q1 q2 successors where "latest_plan q (op_id op) = Some p"
    "plan_context af q op (rev_plan p) members = Inr ctx"
    "codes (check_plan (rev_plan p) ctx) \<subseteq> {NotWithPlanner}" "op_task_id op \<notin> set (child_ids (rev_plan p))"
    "set successors = {j. (j, op_task_id op) \<in> set (q_dependencies q) \<and> status_of q j \<in> editable}"
    "core_of q1 = (core_of q)\<lparr>c_status := (status_of q)(op_task_id op \<mapsto> TaskStatus.Replaced),
      c_depends := set (repoint (op_task_id op) (successor_edges (rev_plan p) successors) (q_dependencies q)),
      c_replaced := c_replaced (core_of q) \<union> {op_task_id op} \<times> set (child_ids (rev_plan p))\<rparr>"
    and step: "core_step (core_of q) (core_of q1)" "tables_ok q1"
    and approved: "live (\<lambda>child q. and_then (apply_transition (af_transition af) q child Approve stamp)
      (\<lambda>(q, _). Inr q)) (child_ids (rev_plan p)) q1 = Inr q2"
    and q': "q' = add_event (op_task_id op) (Some (op_run_id op)) (EventReplanApplied (op_id op) (child_ids (rev_plan p))) q2"
    and "read_operation (q_operations q2) (op_id op) = Inr op'"
    by (rule write_replacement_split [OF assms])
  have "advances q q1" using step by (intro advances_step)
  moreover have "advances q1 q2"
    by (rule live_advances [OF approved step(2)]) (auto simp: and_then_eq_Inr intro: apply_transition_advances)
  ultimately have "advances q q2" by (blast intro: advances_trans)
  then show ?thesis by (simp add: advances_def q')
qed

text \<open>The approval of the children moves nothing else.\<close>

lemma approve_children:
  assumes "live (\<lambda>child q. and_then (apply_transition facts q child Approve stamp) (\<lambda>(q, _). Inr q)) cs q = Inr q'"
  shows "c_depends (core_of q') = c_depends (core_of q)" "c_replaced (core_of q') = c_replaced (core_of q)"
    "status_of q' = (\<lambda>j. if j \<in> set cs then Some TaskStatus.Ready else status_of q j)"
proof -
  let ?approve = "\<lambda>child q. and_then (apply_transition facts q child Approve stamp) (\<lambda>(q, _). Inr q)"
  have one: "core_of q1 = (core_of q)\<lparr>c_status := (c_status (core_of q))(c \<mapsto> TaskStatus.Ready)\<rparr>"
    if "?approve c q = Inr q1" for c q q1
  proof -
    from that obtain t1 where "apply_transition facts q c Approve stamp = Inr (q1, t1)"
      by (auto simp: and_then_eq_Inr)
    then obtain t s where "read_task q c = Inr t"
      "TaskStatus_transition (task_status t) Approve (has_unfinished_run q c) = Inr s"
      "core_of q1 = core_of (set_status q c s stamp)" "tables_ok q1 = tables_ok q" "status_of q c = Some (task_status t)"
      by (rule apply_transition_accepted)
    then show ?thesis
      by (simp add: core_of_set_status TaskStatus_transition_def split: if_splits)
  qed
  have "c_depends (core_of q') = c_depends (core_of q) \<and> c_replaced (core_of q') = c_replaced (core_of q)
    \<and> c_status (core_of q') = (\<lambda>j. if j \<in> set cs then Some TaskStatus.Ready else c_status (core_of q) j)"
    using assms
  proof (induction cs arbitrary: q)
    case (Cons c cs)
    from Cons.prems obtain q1 where q1: "?approve c q = Inr q1" "live ?approve cs q1 = Inr q'"
      by (auto simp: and_then_eq_Inr)
    from Cons.IH [OF q1(2)] one [OF q1(1)] show ?case by (auto simp: fun_eq_iff simp del: core_of_simps)
  qed simp
  then show "c_depends (core_of q') = c_depends (core_of q)" "c_replaced (core_of q') = c_replaced (core_of q)"
    "status_of q' = (\<lambda>j. if j \<in> set cs then Some TaskStatus.Ready else status_of q j)"
    unfolding core_of_simps by blast+
qed

section \<open>The apply\<close>

lemma hold_apply_ok:
  assumes "board_ok ops" "hold_apply af ops i generation reason again recovery now = Inr (ops', recorded)"
  shows "board_ok ops' \<and> later ops ops'"
proof -
  from assms(2) obtain op where op: "read_operation ops i = Inr op"
    by (auto simp: hold_apply_def and_then_eq_Inr)
  note row = read_operation_Inr [OF op]
  let ?written = "op\<lparr>op_status_reason := Some reason, op_updated_at := now\<rparr>"
  have written: "board_ok (update_operation ops ?written)" "later ops (update_operation ops ?written)"
    using board_ok_update(1) [OF assms(1), of op ?written] later_update [OF assms(1), of op ?written]
      board_row [OF assms(1), of op] row by (auto simp: op_row_ok_def)
  have moved: "board_ok ops1 \<and> later ops ops1"
    if "move_in_as facts ops i g step now x = Inr (ops1, r, eff)" for facts g step x ops1 r eff
    using move_in_as_ok(1,7) [OF assms(1) that] by blast
  show ?thesis
  proof (cases "op_generation op = generation")
    case False
    with assms op show ?thesis by (simp add: hold_apply_def)
  next
    case True
    with assms(2) op obtain ops1 op1 recorded1 where
      e1: "(if op_status op = ReplanStatus.Applying then
          and_then (move_in_as (af_replan af) ops i generation (apply_move reason ReplanStatus.Blocked) now True)
            (\<lambda>(ops, op, _). Inr (ops, op, True))
        else if op_status op = ReplanStatus.Blocked \<and> op_return_phase op = Some ReplanStatus.Applying
            \<and> op_status_reason op \<noteq> Some reason
        then Inr (update_operation ops ?written, ?written, True)
        else Inr (ops, op, False)) = Inr (ops1, op1, recorded1)"
      and e2: "(if op_status op1 = ReplanStatus.Blocked \<and> op_return_phase op1 = Some ReplanStatus.Applying
          \<and> recovery = ApplyRecovery.Replan
        then and_then (replan_again (af_replan af) ops1 op1 again now) (\<lambda>(ops, _). Inr (ops, True))
        else Inr (ops1, recorded1)) = Inr (ops', recorded)"
      unfolding hold_apply_def Let_def
      by (auto simp only: and_then_eq_Inr sum.inject simp_thms if_False split_paired_Ex prod.case)
    have first: "board_ok ops1 \<and> later ops ops1"
      using e1 written moved assms(1) by (auto simp: and_then_eq_Inr split: if_splits)
    have then_: "ops' = ops1 \<or> (\<exists>row. replan_again (af_replan af) ops1 op1 again now = Inr (ops', row))"
      using e2 by (auto simp: and_then_eq_Inr split: if_splits)
    from then_ show ?thesis
    proof
      assume "\<exists>row. replan_again (af_replan af) ops1 op1 again now = Inr (ops', row)"
      with replan_again_ok [of ops1] first show ?thesis by (blast intro: later_trans)
    qed (use first in simp)
  qed
qed

lemma begin_replan_apply_ok:
  assumes "board_ok ops" "begin_replan_apply af ops i generation reason now = Inr (ops', op)"
  shows "board_ok ops' \<and> later ops ops'"
  using assms move_in_as_ok(1,7) [OF assms(1)]
  by (fastforce simp: begin_replan_apply_def and_then_eq_Inr split: if_splits)

lemma apply_replacement_cases:
  assumes "apply_replacement af q i generation snapshot_problem reason refusal again stamp now = Inr (q', outcome)"
  obtains (same) "q' = q" "\<And>op. outcome \<noteq> Applied op"
  | (applied) op op' where "read_operation (q_operations q) i = Inr op" "problems_now af q op generation = Inr []"
      "\<not> snapshot_problem" "begun op" "write_replacement af q op generation reason stamp now = Inr (q', op')"
      "outcome = Applied op'"
  | (held) ops recovery recorded where "hold_apply af (q_operations q) i generation refusal again recovery now = Inr (ops, recorded)"
      "q' = q\<lparr>q_operations := ops\<rparr>" "outcome = NotApplied recovery recorded"
proof -
  from assms obtain op where op: "read_operation (q_operations q) i = Inr op"
    by (auto simp: apply_replacement_def and_then_eq_Inr)
  let ?tried = "attempt af q op generation snapshot_problem reason stamp now"
  show thesis
  proof (cases "op_status op = ReplanStatus.Applied \<or> \<not> begun op \<or> op_generation op \<noteq> generation")
    case True
    with assms op show thesis by (intro same) (auto simp: apply_replacement_def split: if_splits)
  next
    case False
    show thesis
    proof (cases "\<exists>q1 op1. ?tried = Inr (Inr (q1, op1))")
      case True
      then obtain q1 op1 where tried: "?tried = Inr (Inr (q1, op1))" by blast
      then have "problems_now af q op generation = Inr [] \<and> \<not> snapshot_problem
          \<and> write_replacement af q op generation reason stamp now = Inr (q1, op1)"
        by (auto simp: attempt_def and_then_eq_Inr split: if_splits)
      moreover have "q' = q1 \<and> outcome = Applied op1"
        using assms False op unfolding apply_replacement_def by (simp add: tried)
      ultimately show thesis using applied [of op op1] op False by blast
    next
      case other: False
      have "\<exists>recovery ops recorded. hold_apply af (q_operations q) i generation refusal again recovery now
          = Inr (ops, recorded) \<and> q' = q\<lparr>q_operations := ops\<rparr> \<and> outcome = NotApplied recovery recorded"
        using assms False op other unfolding apply_replacement_def Let_def
        by (cases ?tried rule: sum.exhaust) (auto simp: and_then_eq_Inr split: sum.splits)
      then show thesis using held by blast
    qed
  qed
qed

lemma apply_replacement_advances:
  assumes "apply_replacement af q i generation snapshot_problem reason refusal again stamp now = Inr (q', outcome)"
    and "tables_ok q" "core_ok (core_of q)" "acyclic (live_waits (core_of q))"
  shows "advances q q'"
  using assms(1)
proof (cases rule: apply_replacement_cases)
  case same
  with assms(2) show ?thesis by (simp add: advances_refl)
next
  case (applied op op')
  from write_replacement_advances [OF applied(5,2) assms(2-4)] show ?thesis .
next
  case (held ops recovery recorded)
  from hold_apply_ok [OF tables_okD(2) [OF assms(2)] held(1)] have "board_ok ops" "later (q_operations q) ops" by simp_all
  from operations_change [OF assms(2) this(1) later_applied [OF this(2)]] held(2) show ?thesis
    by (simp add: advances_same)
qed

section \<open>Plans\<close>

lemma board_advances:
  assumes "tables_ok q" "board_ok ops \<and> later (q_operations q) ops"
  shows "advances q (q\<lparr>q_operations := ops\<rparr>)" "advances q (add_event i run body (q\<lparr>q_plans := ps, q_operations := ops\<rparr>))"
  using operations_change [OF assms(1), of ops] operations_change [of "q\<lparr>q_plans := ps\<rparr>" ops]
    later_applied [of "q_operations q" ops] assms by (simp_all add: advances_same)

lemma move_in_ok:
  "board_ok ops \<Longrightarrow> move_in facts ops i generation step now = Inr (ops', row, eff) \<Longrightarrow> board_ok ops' \<and> later ops ops'"
  using move_in_as_ok(1,7) unfolding move_in_def by blast

lemma proposal_linked_ok:
  assumes "board_ok ops" "op \<in> set ops"
  shows "board_ok (update_operation ops (op\<lparr>op_proposal_id := p, op_updated_at := now\<rparr>))"
    "later ops (update_operation ops (op\<lparr>op_proposal_id := p, op_updated_at := now\<rparr>))"
  using board_ok_update(1) [OF assms, of "op\<lparr>op_proposal_id := p, op_updated_at := now\<rparr>"]
    later_update [OF assms, of "op\<lparr>op_proposal_id := p, op_updated_at := now\<rparr>"] board_row [OF assms]
  by (simp_all add: op_row_ok_def)

lemma replacing_operation_in: "replacing_operation af q proposal = Some op \<Longrightarrow> op \<in> set (q_operations q)"
  unfolding replacing_operation_def by (drule find_Some_in) simp

lemma record_replacement_advances:
  assumes "record_replacement af q proposal members plan hash reason now = Inr q'" "tables_ok q"
  shows "advances q q'"
proof (cases "replacing_operation af q proposal")
  case None
  with assms show ?thesis by (simp add: record_replacement_def advances_refl split: if_splits)
next
  case (Some op)
  let ?linked = "update_operation (q_operations q) (op\<lparr>op_proposal_id := Some proposal, op_updated_at := now\<rparr>)"
  from assms(1) Some obtain plan' where plan: "plan = Some plan'"
    by (auto simp: record_replacement_def split: option.splits)
  with assms(1) Some have checked: "check_replacement af q op plan' members [] = Inr []"
    by (auto simp: record_replacement_def and_then_eq_Inr simp del: not_None_eq split: if_split_asm)
  from assms(1) obtain ops1 op1 ops2 row body i run where
    first: "(if op_status op = ReplanStatus.Parked
      then and_then (move_in (af_replan af) ?linked (op_id op) (op_generation op)
        (plan_move reason ReplanStatus.Planning) now) (\<lambda>(ops, op, _). Inr (ops, op))
      else Inr (?linked, op)) = Inr (ops1, op1)"
    and second: "(if op_status op1 \<noteq> ReplanStatus.Reviewing
      then and_then (move_in (af_replan af) ops1 (op_id op1) (op_generation op1)
        (plan_move reason ReplanStatus.Reviewing) now) (\<lambda>(ops, _). Inr ops)
      else Inr ops1) = Inr ops2"
    and q': "q' = add_event i run body (q\<lparr>q_plans := q_plans q @ [row], q_operations := ops2\<rparr>)"
    by (simp only: record_replacement_def Some plan option.case checked and_then_Inr Let_def simp_thms if_False)
      (simp only: and_then_eq_Inr split_paired_Ex prod.case sum.inject, blast)
  note linked = proposal_linked_ok [OF tables_okD(2) [OF assms(2)] replacing_operation_in [OF Some], where p = "Some proposal" and now = now]
  have ok1: "board_ok ops1 \<and> later ?linked ops1"
    using first linked(1) move_in_ok [OF linked(1)] by (auto simp: and_then_eq_Inr split: if_split_asm)
  then have "board_ok ops2 \<and> later ops1 ops2"
    using second move_in_ok [of ops1] by (auto simp: and_then_eq_Inr split: if_split_asm)
  with ok1 have "board_ok ops2 \<and> later ?linked ops2" by (blast intro: later_trans)
  then have "board_ok ops2 \<and> later (q_operations q) ops2"
    using linked(2) by (blast intro: later_trans)
  from board_advances(2) [OF assms(2) this] q' show ?thesis by simp
qed

lemma approve_replacement_advances:
  assumes "approve_replacement af q op proposal members reason now = Inr q'" "tables_ok q"
  shows "advances q q'"
proof -
  from assms(1) obtain ops ps i run body where
    "(if op_status op = ReplanStatus.AwaitingAnswer
      then and_then (move_in (af_replan af) (q_operations q) (op_id op) (op_generation op)
        (plan_move reason ReplanStatus.Reviewing) now) (\<lambda>(ops, _). Inr ops)
      else Inr (q_operations q)) = Inr ops"
    and q': "q' = add_event i run body (q\<lparr>q_plans := ps, q_operations := ops\<rparr>)"
    unfolding approve_replacement_def Let_def by (auto simp: and_then_eq_Inr split: option.splits if_split_asm)
  then have "board_ok ops \<and> later (q_operations q) ops"
    using move_in_ok [OF tables_okD(2) [OF assms(2)]] tables_okD(2) [OF assms(2)]
    by (auto simp: and_then_eq_Inr split: if_splits)
  from board_advances(2) [OF assms(2) this] q' show ?thesis by simp
qed

lemma plan_moves_advance:
  "proposal_moved af q proposal to reason now = Inr q' \<Longrightarrow> tables_ok q \<Longrightarrow> advances q q'"
  "planner_opened af q i reason now = Inr q' \<Longrightarrow> tables_ok q \<Longrightarrow> advances q q'"
  using move_in_ok [OF tables_okD(2)] board_advances(1)
  by (fastforce simp: proposal_moved_def planner_opened_def and_then_eq_Inr advances_refl split: option.splits if_splits)+

lemma release_each_advances:
  "release_each facts stamp is q = Inr (q', released) \<Longrightarrow> tables_ok q \<Longrightarrow> advances q q'"
proof (induction "is" arbitrary: q released)
  case (Cons i others)
  from Cons.prems(1) obtain t :: Task and q1 released1 where
    first: "(if task_status t = TaskStatus.Submitted
      then and_then (apply_transition facts q i TaskAction.Draft stamp) (\<lambda>(q, _). Inr q) else Inr q) = Inr q1"
    and rest: "release_each facts stamp others q1 = Inr (q', released1)"
    by (auto simp only: release_each.simps and_then_eq_Inr split_paired_Ex prod.case sum.inject prod.inject)
  have "advances q q1"
    using first apply_transition_advances Cons.prems(2) advances_refl
    by (auto simp: and_then_eq_Inr split: if_splits)
  moreover from this have "advances q1 q'" using Cons.IH [OF rest] by (simp add: advances_def)
  ultimately show ?case by (rule advances_trans)
qed (simp add: advances_refl)

lemma release_children_advances:
  assumes "release_children af q op stamp = Inr q'" "tables_ok q"
  shows "advances q q'"
proof (cases "op_proposal_id op")
  case None
  with assms show ?thesis by (simp add: release_children_def advances_refl)
next
  case (Some proposal)
  with assms(1) obtain members q1 released where "release_each (af_transition af) stamp members q = Inr (q1, released)"
    and q': "core_of q' = core_of q1" "tables_ok q' = tables_ok q1"
    by (auto simp: release_children_def and_then_eq_Inr)
  from release_each_advances [OF this(1) assms(2)] q' show ?thesis by (simp add: advances_def)
qed

end
