(* ===== verification/Queue_Life.thy ===== *)
theory Queue_Life
  imports Replacement_Refinement
begin

text \<open>
  The life of the queue: any sequence of the store's transactions from an empty queue, and what
  holds of the queue after it. The step relation has one rule per transaction, each by the writer
  that does it; the goals', the holds' and the runs' own commands change their rows as they like.
  The interface \<open>work_plan\<close> is interpreted on it: every queue is a state of the plan of work.
\<close>

section \<open>Transactions\<close>

inductive queue_step :: "Queue \<Rightarrow> Queue \<Rightarrow> bool" where
  task_added: "insert_task requests q i new now creator = Inr (q', t) \<Longrightarrow> i \<notin> task_id ` set (q_tasks q) \<Longrightarrow>
    queue_step q q'"
| depends: "insert_dependency q i p now = Inr q' \<Longrightarrow> queue_step q q'"
| goal_depends: "insert_goal_dependency q i g now = Inr q' \<Longrightarrow> queue_step q q'"
| undepends: "remove_dependency_authorized authorized q i p now = Inr q' \<Longrightarrow> queue_step q q'"
| goal_undepends: "remove_goal_dependency_authorized authorized q i g now = Inr q' \<Longrightarrow> queue_step q q'"
| regoaled: "set_goal_in q i to_goal now by_whom = Inr (q', t) \<Longrightarrow> queue_step q q'"
| transition: "apply_transition facts q i action now = Inr (q', t) \<Longrightarrow> queue_step q q'"
| claimed: "claim_task cf q = Some (Inr (q', run)) \<Longrightarrow> queue_step q q'"
| completed: "complete_task q i ended now = Inr (q', t) \<Longrightarrow> queue_step q q'"
| reprioritized: "change_priority q i priority now role creator = Inr q' \<Longrightarrow> queue_step q q'"
| repathed: "set_paths_authorized authorized q i paths now = Inr (q', t) \<Longrightarrow> queue_step q q'"
| edited: "edit_task_authorized authorized leased q i e status now = Some (Inr (q', t)) \<Longrightarrow> queue_step q q'"
| replanned: "replan_step (q_operations q) ops \<Longrightarrow> queue_step q (q\<lparr>q_operations := ops\<rparr>)"
| apply_begun: "begin_replan_apply af (q_operations q) j generation reason now_secs = Inr (ops, op) \<Longrightarrow>
    queue_step q (q\<lparr>q_operations := ops\<rparr>)"
| apply_done: "apply_replacement af q j generation snapshot_problem reason refusal again now now_secs
    = Inr (q', outcome) \<Longrightarrow> queue_step q q'"
| plan_recorded: "record_replacement af q proposal members plan hash reason now_secs = Inr q' \<Longrightarrow> queue_step q q'"
| plan_approved: "approve_replacement af q op proposal members reason now_secs = Inr q' \<Longrightarrow> queue_step q q'"
| plan_moved: "proposal_moved af q proposal to reason now_secs = Inr q' \<Longrightarrow> queue_step q q'"
| plan_opened: "planner_opened af q operation_of_request reason now_secs = Inr q' \<Longrightarrow> queue_step q q'"
| plan_released: "release_children af q op now = Inr q' \<Longrightarrow> queue_step q q'"
| others: "queue_step q (q\<lparr>q_goals := gs, q_holds := hs, q_runs := rs\<rparr>)"

definition work_of :: "Queue \<Rightarrow> Work" where
  "work_of q = core_work (core_of q)"

section \<open>The queue is a state of the plan\<close>

lemma work_of_simps [simp]:
  "phase (work_of q) i = map_option phase_of (status_of q i)" "waits (work_of q) = live_waits (core_of q)"
  by (simp_all add: work_of_def)

lemma queue_step_advances:
  assumes "queue_step q q'" "queue_ok q" "work_ok (work_of q)"
  shows "advances q q'"
proof -
  have ok: "tables_ok q" "core_ok (core_of q)" "acyclic (live_waits (core_of q))"
    using assms(2,3) work_okD(1) [of "work_of q"] by (auto simp: queue_ok_def)
  have board: "advances q (q\<lparr>q_operations := ops\<rparr>)" if "board_ok ops \<and> later (q_operations q) ops" for ops
    using operations_change [OF ok(1), of ops] later_applied [of "q_operations q" ops] that
    by (simp add: advances_same)
  from assms(1) show ?thesis
  proof cases
    case task_added
    then show ?thesis using insert_task_advances ok(1) by blast
  next
    case depends
    then show ?thesis using insert_dependency_advances ok(1) by blast
  next
    case goal_depends
    then show ?thesis using insert_goal_dependency_advances ok(1) by blast
  next
    case undepends
    then show ?thesis using remove_dependency_advances ok(1) by blast
  next
    case goal_undepends
    then show ?thesis using remove_goal_dependency_advances ok(1) by blast
  next
    case regoaled
    then show ?thesis using set_goal_in_advances ok(1) by blast
  next
    case transition
    then show ?thesis using apply_transition_advances ok(1) by blast
  next
    case claimed
    then show ?thesis using claim_task_advances ok(1,2) by blast
  next
    case completed
    then show ?thesis using complete_task_advances ok(1) by blast
  next
    case reprioritized
    then show ?thesis using change_priority_advances ok(1) by blast
  next
    case repathed
    then show ?thesis using set_paths_advances ok(1) by blast
  next
    case edited
    then show ?thesis using edit_task_advances ok(1) by blast
  next
    case (replanned ops)
    with board replan_step_ok [OF replanned(2) tables_okD(2) [OF ok(1)]] show ?thesis by simp
  next
    case (apply_begun af j generation reason now_secs ops op)
    with board begin_replan_apply_ok [OF tables_okD(2) [OF ok(1)] apply_begun(2)] show ?thesis by simp
  next
    case apply_done
    then show ?thesis using apply_replacement_advances ok by blast
  next
    case plan_recorded
    then show ?thesis using record_replacement_advances ok(1) by blast
  next
    case plan_approved
    then show ?thesis using approve_replacement_advances ok(1) by blast
  next
    case plan_moved
    then show ?thesis using plan_moves_advance(1) ok(1) by blast
  next
    case plan_opened
    then show ?thesis using plan_moves_advance(2) ok(1) by blast
  next
    case plan_released
    then show ?thesis using release_children_advances ok(1) by blast
  next
    case others
    then show ?thesis using ok(1) by (simp add: advances_same)
  qed
qed

lemma core_steps_work:
  assumes "core_step\<^sup>*\<^sup>* c c'" "core_ok c" "work_ok (core_work c)"
  shows "core_ok c' \<and> work_step\<^sup>*\<^sup>* (core_work c) (core_work c') \<and> work_ok (core_work c')"
  using assms
proof (induction rule: rtranclp_induct)
  case (step b c')
  then have b: "core_ok b" "work_step\<^sup>*\<^sup>* (core_work c) (core_work b)" "work_ok (core_work b)" by auto
  have "work_step\<^sup>*\<^sup>* (core_work b) (core_work c')" by (rule core_step_work [OF step.hyps(2) b(1,3)])
  then show ?case using b core_step_ok [OF step.hyps(2) b(1)] work_steps_ok [of "core_work b" "core_work c'"] by auto
qed auto

lemma empty_queue_ok: "queue_ok empty_queue" "work_of empty_queue = no_work"
proof -
  have core: "core_of empty_queue = \<lparr>c_status = Map.empty, c_goal = Map.empty, c_depends = {}, c_goal_depends = {}, c_replaced = {}\<rparr>"
    by (simp add: core_of_def empty_queue_def status_of_def membership_def row_of_def fun_eq_iff)
  show "queue_ok empty_queue"
    unfolding queue_ok_def core by (simp add: core_ok_def tables_ok_def empty_queue_def)
  show "work_of empty_queue = no_work"
    unfolding work_of_def core by (simp add: core_work_def no_work_def live_waits_def core_waits_def fun_eq_iff)
qed

interpretation queue: work_plan "\<lambda>q. q = empty_queue" queue_step queue_ok work_of
proof
  fix q q' assume step: "queue_step q q'" and ok: "queue_ok q" "work_ok (work_of q)"
  from queue_step_advances [OF step ok] have "tables_ok q'" "core_step\<^sup>*\<^sup>* (core_of q) (core_of q')"
    by (simp_all add: advances_def)
  with core_steps_work [OF this(2)] ok show "queue_ok q'" "work_step\<^sup>*\<^sup>* (work_of q) (work_of q')"
    by (simp_all add: queue_ok_def work_of_def)
qed (simp add: empty_queue_ok)

lemma queue_reachable: "queue.reachable q \<longleftrightarrow> queue_step\<^sup>*\<^sup>* empty_queue q"
  by (simp add: queue.reachable_def)

lemmas queue_life = queue.reachable_ok [unfolded queue_reachable]

lemma queue_life_ok:
  assumes "queue_step\<^sup>*\<^sup>* empty_queue q"
  shows "tables_ok q" "core_ok (core_of q)" "acyclic (live_waits (core_of q))"
  using queue_life [OF assms] by (auto simp: queue_ok_def work_ok_def)

section \<open>The claim order of a reachable queue\<close>

lemma graph_tasks:
  assumes "read_graph_input q = Inr input" "t \<in> set (gi_tasks input)"
  obtains row where "row \<in> set (q_tasks q)" "unfinished_task row" "gt_id t = task_id row"
    and "gt_goal_id t = task_goal_id row" "set (gt_depends_on t) = {p. (task_id row, p) \<in> set (q_dependencies q)}"
    and "gd_goal_id ` set (gt_goal_dependencies t) \<subseteq> {g. (task_id row, g) \<in> set (q_goal_dependencies q)}"
proof -
  from assms obtain rows x where rows: "query_map (task_row q) (sort_key task_id (filter unfinished_task (q_tasks q))) = Inr rows"
    and x: "x \<in> set rows" "graph_task q x = Inr t"
    unfolding read_graph_input_def by (auto simp: and_then_eq_Inr dest: query_map_set)
  from query_map_set [OF rows x(1)] obtain row where row: "row \<in> set (q_tasks q)" "unfinished_task row"
    "task_row q row = Inr x" by auto
  note f = task_row_fields [OF row(3)]
  from x(2) have "gt_id t = task_id x" "gt_goal_id t = task_goal_id x" "gt_depends_on t = depends_on q (task_id x)"
    "gt_goal_dependencies t = goal_dependencies q (task_id x)"
    by (auto simp: graph_task_def and_then_eq_Inr)
  moreover have "set (depends_on q i) = {p. (i, p) \<in> set (q_dependencies q)}" for i
    by (force simp: depends_on_def)
  moreover have "gd_goal_id ` set (goal_dependencies q i) \<subseteq> {g. (i, g) \<in> set (q_goal_dependencies q)}" for i
    by (auto simp: goal_dependencies_def)
  ultimately show thesis by (intro that [OF row(1,2)]) (simp_all add: f(1,3))
qed

lemma blocking_waits:
  assumes "tables_ok q" "read_graph_input q = Inr input" "(p, w) \<in> blocking (gi_tasks input)"
  shows "(WaitNode.Task w, WaitNode.Task p) \<in> (live_waits (core_of q))\<^sup>+"
proof -
  note rows = row_of_distinct [OF tables_okD(1) [OF assms(1)]]
  have status: "status_of q (task_id r) = Some (task_status r)" "membership q (task_id r) = task_goal_id r"
    "task_status r \<noteq> TaskStatus.Canceled" if "r \<in> set (q_tasks q)" "unfinished_task r" for r
    using that rows [of "task_id r" r] by (auto simp: status_of_def membership_def unfinished_task_def)
  from assms(3) obtain t where t: "t \<in> set (gi_tasks input)" "gt_id t = w"
    and why: "p \<in> set (gt_depends_on t) \<or> (\<exists>m \<in> set (gi_tasks input). gt_id m = p
      \<and> (\<exists>d \<in> set (gt_goal_dependencies t). gt_goal_id m = Some (gd_goal_id d)))"
    unfolding blocking_def by blast
  from graph_tasks [OF assms(2) t(1)] obtain row where row: "row \<in> set (q_tasks q)" "unfinished_task row"
    "gt_id t = task_id row" "set (gt_depends_on t) = {p. (task_id row, p) \<in> set (q_dependencies q)}"
    "gd_goal_id ` set (gt_goal_dependencies t) \<subseteq> {g. (task_id row, g) \<in> set (q_goal_dependencies q)}" by metis
  note w = status [OF row(1,2)]
  from why show ?thesis
  proof (elim disjE bexE conjE)
    assume "p \<in> set (gt_depends_on t)"
    then have "(w, p) \<in> set (q_dependencies q)" using row(3,4) t(2) by simp
    then have "(WaitNode.Task w, WaitNode.Task p) \<in> live_waits (core_of q)" using w row(3) t(2) by simp
    then show ?thesis by blast
  next
    fix m d assume m: "m \<in> set (gi_tasks input)" "gt_id m = p" and d: "d \<in> set (gt_goal_dependencies t)"
      "gt_goal_id m = Some (gd_goal_id d)"
    from graph_tasks [OF assms(2) m(1)] obtain other where other: "other \<in> set (q_tasks q)" "unfinished_task other"
      "gt_id m = task_id other" "gt_goal_id m = task_goal_id other" by metis
    note o = status [OF other(1,2)]
    have "(WaitNode.Task w, WaitNode.Goal (gd_goal_id d)) \<in> live_waits (core_of q)"
      using row(3,5) d(1) t(2) w by auto
    moreover have "(WaitNode.Goal (gd_goal_id d), WaitNode.Task p) \<in> live_waits (core_of q)"
      using other m(2) d(2) o by simp
    ultimately show ?thesis by (rule trancl_into_trancl2 [OF _ r_into_trancl])
  qed
qed

lemma blocking_acyclic:
  assumes "queue_step\<^sup>*\<^sup>* empty_queue q" "read_graph_input q = Inr input"
  shows "acyclic (blocking (gi_tasks input))"
proof -
  note ok = queue_life_ok [OF assms(1)]
  have "(WaitNode.Task w, WaitNode.Task p) \<in> (live_waits (core_of q))\<^sup>+" if "(p, w) \<in> (blocking (gi_tasks input))\<^sup>+" for p w
    using that
  proof (induction rule: trancl_induct)
    case (base w)
    then show ?case by (rule blocking_waits [OF ok(1) assms(2)])
  next
    case (step w v)
    from blocking_waits [OF ok(1) assms(2) step.hyps(2)] step.IH show ?case by (rule trancl_trans)
  qed
  then show ?thesis using ok(3) unfolding acyclic_def by blast
qed

lemma claim_order_ends:
  assumes "queue_step\<^sup>*\<^sup>* empty_queue q"
  shows "claim_order q \<noteq> None"
proof (cases "read_graph_input q")
  case (Inr input)
  from graph_critical [OF blocking_acyclic [OF assms Inr]] obtain g where "dependency_graph input None = Some g" by metis
  with Inr show ?thesis by (simp add: claim_order_def)
qed (simp add: claim_order_def)

end
