(* ===== verification/Queue_Promises.thy ===== *)
theory Queue_Promises
  imports Queue_Life
begin

text \<open>
  What the queue promises its callers, over any sequence of its transactions from an empty queue: it
  refines the plan of work, starts a task only after its predecessors, never comes to wait for
  itself, answers every claim, and replaces a task without losing a condition or a successor.
\<close>

section \<open>What is left to do\<close>

text \<open>The waits that count: those of a canceled task do not.\<close>

definition pending_waits :: "Queue \<Rightarrow> (WaitNode \<times> WaitNode) set" where
  "pending_waits q = {(x, y) \<in> set (wait_edges q). \<forall>i. x = WaitNode.Task i \<longrightarrow>
     status_of q i \<noteq> Some TaskStatus.Canceled}"

abbreviation unfinished :: "TaskStatus option set" where
  "unfinished \<equiv> insert (Some TaskStatus.InProgress) editable"

lemma pending_waits_core: "tables_ok q \<Longrightarrow> pending_waits q = live_waits (core_of q)"
  by (auto simp: pending_waits_def live_waits_def wait_edges_core may_wait_def)

lemma unfinished_first:
  assumes "acyclic (pending_waits q)" "status_of q i \<in> unfinished"
  obtains j where "status_of q j \<in> unfinished"
    and "\<forall>p. (WaitNode.Task j, WaitNode.Task p) \<in> (pending_waits q)\<^sup>+ \<longrightarrow> status_of q p \<notin> unfinished"
proof -
  let ?U = "{WaitNode.Task j | j. status_of q j \<in> unfinished}"
  have "finite (pending_waits q)" by (rule finite_subset [OF _ finite_set]) (auto simp: pending_waits_def)
  then have "wf (((pending_waits q)\<^sup>+)\<inverse>)"
    using finite_acyclic_wf_converse [OF _ assms(1)] by (simp add: trancl_converse [symmetric] wf_trancl)
  moreover have "WaitNode.Task i \<in> ?U" using assms(2) by blast
  ultimately obtain z where z: "z \<in> ?U" "\<And>y. (y, z) \<in> ((pending_waits q)\<^sup>+)\<inverse> \<Longrightarrow> y \<notin> ?U"
    by (rule wfE_min) blast
  then obtain j where j: "z = WaitNode.Task j" "status_of q j \<in> unfinished" by blast
  show thesis
  proof (rule that [OF j(2)])
    show "\<forall>p. (WaitNode.Task j, WaitNode.Task p) \<in> (pending_waits q)\<^sup>+ \<longrightarrow> status_of q p \<notin> unfinished"
      using z(2) j(1) by blast
  qed
qed

section \<open>What a claim does\<close>

lemma claim_task_starts:
  assumes "claim_task cf q = Some (Inr (q', Some run))" "tables_ok q" "core_ok (core_of q)"
  obtains row t where "row \<in> set (ready_rows q)" "task_row q row = Inr t" "t \<in> set (claimable cf [t])"
    and "run_task_id run = task_id row" "run_status run = RunStatus.Claimed" "run \<in> set (q_runs q')"
    and "status_of q' = (status_of q)(task_id row \<mapsto> TaskStatus.InProgress)"
    and "q_dependencies q' = q_dependencies q"
proof (rule claim_task_cases [OF assms(1)])
  fix ready t
  assume ready: "ready_tasks q = Inr ready" and t: "t \<in> set (claimable cf ready)"
    and one: "claim_one cf q t = Inr (q', Some run)"
  from t obtain row where row: "row \<in> set (ready_rows q)" "task_row q row = Inr t"
    using query_map_set [OF ready [unfolded ready_tasks_def]] by (auto simp: claimable_def)
  note r = ready_row_claimable [OF assms(2,3) row(1)]
  have i: "task_id t = task_id row" using task_row_fields(1) [OF row(2)] .
  let ?t = "t\<lparr>task_status := TaskStatus.InProgress\<rparr>"
  from one obtain route ops effs kept where run: "run_task_id run = task_id t" "run_status run = RunStatus.Claimed"
    and carry: "carry_open_to (cf_replan cf) (q_operations q) (task_id t) (run_id run) (cf_now_secs cf) = Inr (ops, effs, kept)"
    and q': "q' = write_claim cf q ?t run route ops"
    by (rule claim_one_accepted) auto
  note ops = carry_open_to_ok [OF tables_okD(2) [OF assms(2)] carry]
  have some: "status_of q (task_id ?t) \<noteq> None" using r(2) i by simp
  note w = write_claim_core [OF assms(2) ops(1) later_applied [OF ops(3)] some, of cf run route]
  have written: "run \<in> set (q_runs q')" "q_dependencies q' = q_dependencies q"
    by (auto simp: q' write_claim_def Let_def add_event_def split: option.splits)
  have "c_status (core_of q') = (status_of q)(task_id row \<mapsto> TaskStatus.InProgress)"
    unfolding q' w(2) using i by simp
  then have status: "status_of q' = (status_of q)(task_id row \<mapsto> TaskStatus.InProgress)" by simp
  have "t \<in> set (claimable cf [t])" using t by (auto simp: claimable_def)
  with that [OF row _ _ run(2) written(1) status written(2)] run(1) i show thesis by simp
qed simp

text \<open>A claim that takes none.\<close>

lemma claim_one_takes: "claim_one cf q t = Inr (q', run) \<Longrightarrow> run \<noteq> None"
  by (erule claim_one_accepted) simp

lemma first_of_None: "first_of ts ids = None \<longleftrightarrow> (\<forall>t \<in> set ts. task_id t \<notin> set ids)"
proof -
  have "find_map (\<lambda>i. find (\<lambda>t. task_id t = i) ts) ids = None \<longleftrightarrow> (\<forall>i \<in> set ids. find (\<lambda>t. task_id t = i) ts = None)"
    by (induction ids) (auto split: option.splits)
  then show ?thesis by (auto simp: first_of_def find_None_iff)
qed

lemma claim_fallback_None: "claim_fallback ts order = None \<Longrightarrow> t \<in> set ts \<Longrightarrow> task_wait_for_build t"
  by (auto simp: claim_fallback_def find_None_iff split: option.splits)

lemma claim_nothing:
  assumes "claim_task cf q = Some (Inr (q', None))"
  shows "q' = q \<and> (\<exists>ready. ready_tasks q = Inr ready
    \<and> (\<forall>t \<in> set (claimable cf ready). task_wait_for_build t \<and> task_id t \<notin> set (cf_order cf)))"
proof -
  from assms obtain ready where ready: "ready_tasks q = Inr ready"
    by (auto simp: claim_task_def split: sum.splits)
  let ?ready = "claimable cf ready"
  show ?thesis
  proof (cases "?ready = []")
    case True
    with assms ready show ?thesis by (simp add: claim_task_def)
  next
    case some: False
    show ?thesis
    proof (cases "first_of ?ready (cf_order cf)")
      case (Some t)
      with assms ready some claim_one_takes show ?thesis by (fastforce simp: claim_task_def)
    next
      case None
      with assms ready some obtain order where "(case claim_fallback ?ready order of
          Some t \<Rightarrow> claim_one cf q t | None \<Rightarrow> Inr (q, None)) = Inr (q', None)"
        by (auto simp: claim_task_def and_then_eq_Inr)
      then have "claim_fallback ?ready order = None" "q' = q"
        using claim_one_takes by (fastforce split: option.splits)+
      with ready None claim_fallback_None show ?thesis by (auto simp: first_of_None)
    qed
  qed
qed

text \<open>A successor is given at least one child to wait for.\<close>

lemma successor_needs_some:
  assumes "successors_mapped plan ctx" "children_pending plan ctx"
    and "(j, needs) \<in> set (successor_edges plan successors)"
  shows "needs \<noteq> []"
proof -
  let ?found = "find (\<lambda>s. ps_task_id s = j) (plan_successors plan)"
  have needs: "needs = (case ?found of Some s \<Rightarrow> ps_needs s | None \<Rightarrow> child_ids plan)"
    using assms(3) by (auto simp: successor_edges_def)
  show ?thesis
  proof (cases ?found)
    case (Some s)
    from find_Some_in [OF this] assms(1) have "ps_needs s \<noteq> []" unfolding successors_mapped_def by blast
    with Some needs show ?thesis by simp
  qed (use assms(2) needs in \<open>simp add: children_pending_def\<close>)
qed

section \<open>An example\<close>

text \<open>Task 12 waits for task 7. Task 7 is claimed, and completed; or it is replanned: its run is held,
  its operation saved and planned, and task 8 is to replace it.\<close>

definition example_add :: "int \<Rightarrow> TaskId list \<Rightarrow> Queue \<Rightarrow> Queue stored" where
  "example_add i ds q = (if TaskId i \<in> task_id ` set (q_tasks q) then Inl (Refused [])
     else and_then (insert_task (\<lambda>_. None) q (TaskId i) (Task_Aggregate.example_new\<lparr>new_dependencies := ds\<rparr>) ''t0''
       CreatorPerson) (\<lambda>(q, _). Inr q))"

definition example_transitions :: TransitionFacts where
  "example_transitions = \<lparr>tf_child_ready = (\<lambda>_. Inr ()), tf_judged = (\<lambda>_. Inr ())\<rparr>"

definition example_go :: "int \<Rightarrow> TaskAction \<Rightarrow> Queue \<Rightarrow> Queue stored" where
  "example_go i action q =
     and_then (apply_transition example_transitions q (TaskId i) action ''t1'') (\<lambda>(q, _). Inr q)"

definition example_worker :: Worker where
  "example_worker = projr (worker_resolve None None)"

definition example_claim :: ClaimFacts where
  "example_claim = \<lparr>cf_requested = task_worker, cf_routes = [\<lparr>route_requested = example_worker,
     route_actual = example_worker, route_switch = None\<rparr>], cf_held_classes = [], cf_limited = (\<lambda>_. False),
     cf_order = [], cf_uuid = ''r'', cf_base_commit = CommitSha (replicate 40 CHR ''a''), cf_now = ''t2'', cf_now_secs = 0,
     cf_replan = example_facts\<rparr>"

definition example_take :: "Queue \<Rightarrow> Queue stored" where
  "example_take q = (case claim_task example_claim q of
     Some r \<Rightarrow> and_then r (\<lambda>(q, _). Inr q) | None \<Rightarrow> Inl (Refused []))"

definition example_queued :: "(Queue \<Rightarrow> Queue stored) list" where
  "example_queued = [example_add 7 [], example_add 12 [TaskId 7], example_go 7 Submit, example_go 7 Approve,
     example_go 12 Submit, example_go 12 Approve]"

definition example_complete :: "Queue \<Rightarrow> Queue stored" where
  "example_complete q = and_then (complete_task q (TaskId 7) (RunId ''r'') ''t3'') (\<lambda>(q, _). Inr q)"

definition example_landed :: "(Queue \<Rightarrow> Queue stored) list" where
  "example_landed = example_queued @ [example_take, example_complete, example_take]"

definition example_apply :: ApplyFacts where
  "example_apply = \<lparr>af_proposal = (\<lambda>_. Inr (ProposalStatus.Accepted, [TaskId 8])), af_leased = (\<lambda>_. False),
     af_child_version = (\<lambda>_. ''c''), af_linked = (\<lambda>_. [ReplanId 1]), af_authorities = (\<lambda>_. Map.empty),
     af_sha256 = (\<lambda>text. text), af_version = (\<lambda>_. ''v''), af_acceptance_version = (\<lambda>_. 1),
     af_replan = example_facts, af_transition = example_transitions\<rparr>"

definition example_held :: "Queue \<Rightarrow> Queue stored" where
  "example_held q = Inr (q\<lparr>q_goals := q_goals q, q_holds := q_holds q,
     q_runs := map (\<lambda>r. r\<lparr>run_status := RunStatus.NeedsSession\<rparr>) (q_runs q)\<rparr>)"

definition example_ask :: "Queue \<Rightarrow> Queue stored" where
  "example_ask q = (if rf_new_id example_request \<in> op_id ` set (q_operations q) then Inl (Refused [])
     else and_then (conditions_of example_apply q (TaskId 7)) (\<lambda>conditions.
       and_then (record_replan example_facts (example_request\<lparr>rf_conditions := conditions\<rparr>) (q_operations q)
         Replan_Operation.example_new ReplanOrigin.Worker ''worker'' ''w'' 0) (\<lambda>(ops, _). Inr (q\<lparr>q_operations := ops\<rparr>))))"

definition example_move :: "ReplanStatus \<Rightarrow> Queue \<Rightarrow> Queue stored" where
  "example_move to q = and_then (read_operation (q_operations q) (ReplanId 1)) (\<lambda>op.
     and_then (move_in_as example_facts (q_operations q) (ReplanId 1) (op_generation op)
       \<lparr>move_to = to, move_reason = ''split it'', move_snapshot_id = Some ''s'', move_diagnosis = None\<rparr> 5 False)
       (\<lambda>(ops, _). Inr (q\<lparr>q_operations := ops\<rparr>)))"

definition example_split :: ReplacementPlan where
  "example_split = \<lparr>plan_operation_id = ReplanId 1, plan_task_version = ''v'',
    plan_goal_acceptance_version = None, plan_choice = PlanChoice.Split, plan_rationale = ''smaller'',
    plan_children = [\<lparr>child_task_id = TaskId 8, child_carry = CarrySource.Base, child_order = None\<rparr>],
    plan_mappings = [example_mapping 1 ''a'' 8],
    plan_successors = [\<lparr>ps_task_id = TaskId 12, ps_needs = [TaskId 8], ps_reason = None\<rparr>]\<rparr>"

definition example_submit :: "Queue \<Rightarrow> Queue stored" where
  "example_submit q = record_replacement example_apply q (ProposalId 1) [TaskId 8] (Some example_split) ''h'' ''planned'' 6"

definition example_approve :: "Queue \<Rightarrow> Queue stored" where
  "example_approve q = (case replacing_operation example_apply q (ProposalId 1) of
     Some op \<Rightarrow> approve_replacement example_apply q op (ProposalId 1) [TaskId 8] ''approved'' 7
   | None \<Rightarrow> Inl (Refused []))"

definition example_begin :: "Queue \<Rightarrow> Queue stored" where
  "example_begin q = and_then (begin_replan_apply example_apply (q_operations q) (ReplanId 1) 2 ''apply'' 8)
     (\<lambda>(ops, _). Inr (q\<lparr>q_operations := ops\<rparr>))"

definition example_replanned :: "(Queue \<Rightarrow> Queue stored) list" where
  "example_replanned = example_queued @ [example_take, example_held, example_add 8 [], example_go 8 Submit,
     example_ask, example_move ReplanStatus.PauseRequested, example_move ReplanStatus.Quiescing,
     example_move ReplanStatus.Snapshotting, example_move ReplanStatus.Parked, example_submit, example_approve,
     example_begin]"

text \<open>Each of them is a transaction.\<close>

definition is_step :: "(Queue \<Rightarrow> Queue stored) \<Rightarrow> bool" where
  "is_step f \<longleftrightarrow> (\<forall>q q'. f q = Inr q' \<longrightarrow> queue_step q q')"

lemma steps_reach:
  "\<forall>f \<in> set fs. is_step f \<Longrightarrow> live (\<lambda>f. f) fs q = Inr q' \<Longrightarrow> queue_step\<^sup>*\<^sup>* q q'"
proof (induction fs arbitrary: q)
  case (Cons f fs)
  from Cons.prems(2) obtain q1 where q1: "f q = Inr q1" "live (\<lambda>f. f) fs q1 = Inr q'"
    by (auto simp: and_then_eq_Inr)
  with Cons.prems(1) have "queue_step q q1" by (simp add: is_step_def)
  with Cons.IH [OF _ q1(2)] Cons.prems(1) show ?case by (simp add: converse_rtranclp_into_rtranclp)
qed simp

lemma example_steps:
  "is_step (example_add i ds)" "is_step (example_go i action)" "is_step example_take"
  "is_step example_complete" "is_step example_held" "is_step example_ask" "is_step (example_move to)"
  "is_step example_submit" "is_step example_approve" "is_step example_begin"
proof -
  show "is_step (example_add i ds)"
    by (auto simp: is_step_def example_add_def and_then_eq_Inr intro: task_added split: if_splits)
  show "is_step (example_go i action)"
    by (auto simp: is_step_def example_go_def and_then_eq_Inr intro: transition)
  show "is_step example_take"
    by (auto simp: is_step_def example_take_def and_then_eq_Inr intro: claimed split: option.splits)
  show "is_step example_complete"
    by (auto simp: is_step_def example_complete_def and_then_eq_Inr intro: completed)
  show "is_step example_held"
    by (auto simp only: is_step_def example_held_def sum.inject intro: others)
  show "is_step example_ask"
    by (auto simp: is_step_def example_ask_def and_then_eq_Inr intro!: replanned intro: requested split: if_splits)
  show "is_step (example_move to)"
    by (auto simp: is_step_def example_move_def and_then_eq_Inr intro!: replanned intro: moved)
  show "is_step example_submit"
    by (auto simp: is_step_def example_submit_def intro: plan_recorded)
  show "is_step example_approve"
    by (auto simp: is_step_def example_approve_def intro: plan_approved split: option.splits)
  show "is_step example_begin"
    by (auto simp: is_step_def example_begin_def and_then_eq_Inr intro: apply_begun)
qed

lemma example_lives:
  "\<forall>f \<in> set example_queued. is_step f" "\<forall>f \<in> set example_landed. is_step f"
  "\<forall>f \<in> set example_replanned. is_step f"
  by (auto simp: example_queued_def example_landed_def example_replanned_def example_steps)

definition example_waiting :: Queue where
  "example_waiting = projr (live (\<lambda>f. f) example_queued empty_queue)"

definition example_started :: Queue where
  "example_started = projr (live (\<lambda>f. f) example_landed empty_queue)"

definition example_applying :: Queue where
  "example_applying = projr (live (\<lambda>f. f) example_replanned empty_queue)"

lemma example_waiting_facts:
  "case live (\<lambda>f. f) example_queued empty_queue of
     Inr q \<Rightarrow> map task_id (q_tasks q) = [TaskId 7, TaskId 12]
       \<and> map task_status (q_tasks q) = [TaskStatus.Ready, TaskStatus.Ready]
       \<and> q_dependencies q = [(TaskId 12, TaskId 7)] \<and> q_goal_dependencies q = [] \<and> q_holds q = []
       \<and> q_goals q = [] \<and> q_runs q = [] \<and> q_operations q = []
       \<and> (case claim_task example_claim q of Some (Inr (_, Some _)) \<Rightarrow> True | _ \<Rightarrow> False)
   | Inl _ \<Rightarrow> False"
  by code_simp

lemma example_started_facts:
  "case live (\<lambda>f. f) example_landed empty_queue of
     Inr q \<Rightarrow> (TaskId 12, TaskId 7) \<in> set (q_dependencies q)
       \<and> status_of q (TaskId 12) = Some TaskStatus.InProgress
   | Inl _ \<Rightarrow> False"
  by code_simp

lemma example_applying_facts:
  "case live (\<lambda>f. f) example_replanned empty_queue of
     Inr q \<Rightarrow> (case apply_replacement example_apply q (ReplanId 1) 2 False ''apply'' ''r'' ''a'' ''t3'' 9 of
         Inr (_, Applied _) \<Rightarrow> True | _ \<Rightarrow> False)
   | Inl _ \<Rightarrow> False"
  by code_simp

lemma example_waiting:
  "live (\<lambda>f. f) example_queued empty_queue = Inr example_waiting"
  "map task_id (q_tasks example_waiting) = [TaskId 7, TaskId 12]"
  "map task_status (q_tasks example_waiting) = [TaskStatus.Ready, TaskStatus.Ready]"
  "q_dependencies example_waiting = [(TaskId 12, TaskId 7)]" "q_goal_dependencies example_waiting = []"
  "q_holds example_waiting = []" "q_goals example_waiting = []" "q_runs example_waiting = []"
  "q_operations example_waiting = []"
  "\<exists>q' run. claim_task example_claim example_waiting = Some (Inr (q', Some run))"
  using example_waiting_facts unfolding example_waiting_def
  by (cases "live (\<lambda>f. f) example_queued empty_queue"; auto split: option.splits sum.splits)+

lemma example_started:
  "live (\<lambda>f. f) example_landed empty_queue = Inr example_started"
  "(TaskId 12, TaskId 7) \<in> set (q_dependencies example_started)"
  "status_of example_started (TaskId 12) = Some TaskStatus.InProgress"
  using example_started_facts unfolding example_started_def
  by (cases "live (\<lambda>f. f) example_landed empty_queue"; simp)+

lemma example_applying:
  "live (\<lambda>f. f) example_replanned empty_queue = Inr example_applying"
  "\<exists>q' op. apply_replacement example_apply example_applying (ReplanId 1) 2 False ''apply'' ''r'' ''a'' ''t3'' 9
    = Inr (q', Applied op)"
  using example_applying_facts unfolding example_applying_def
  by (cases "live (\<lambda>f. f) example_replanned empty_queue"; auto split: sum.splits ApplyOutcome.splits)+

lemma example_reach:
  "queue_step\<^sup>*\<^sup>* empty_queue example_waiting" "queue_step\<^sup>*\<^sup>* empty_queue example_started"
  "queue_step\<^sup>*\<^sup>* empty_queue example_applying"
  using steps_reach [OF example_lives(1) example_waiting(1)] steps_reach [OF example_lives(2) example_started(1)]
    steps_reach [OF example_lives(3) example_applying(1)] by simp_all

section \<open>Properties\<close>

text \<open>C1. Refinement. Whatever transactions run, in any order, from an empty queue, the queue is a
  state of the plan of work: it is reached by the plan's steps, who waits for whom has no loop, a
  started or landed task waits for landed tasks only, and a waiting task for no task that was split
  up.\<close>

theorem queue_refines_work:
  assumes "queue_step\<^sup>*\<^sup>* empty_queue q"
  shows "work_step\<^sup>*\<^sup>* no_work (work_of q) \<and> work_ok (work_of q)"
  using queue.reachable_refines queue.reachable_ok assms by (simp add: queue_reachable)

lemma queue_refines_work_witness:
  "work_step\<^sup>*\<^sup>* no_work (work_of example_started) \<and> work_ok (work_of example_started)"
  by (rule queue_refines_work [OF example_reach(2)])

text \<open>C2. A task in progress or completed has every predecessor completed, whenever its edges were
  added and however its predecessors were replanned, moved or canceled meanwhile.\<close>

theorem started_after_predecessors:
  assumes "queue_step\<^sup>*\<^sup>* empty_queue q" "(i, p) \<in> set (q_dependencies q)"
    and "status_of q i \<in> {Some TaskStatus.InProgress, Some TaskStatus.Completed}"
  shows "status_of q p = Some TaskStatus.Completed"
  using core_okD(4) [OF queue_life_ok(2) [OF assms(1)], of i p] assms(2,3) by auto

lemma started_after_predecessors_witness:
  "status_of example_started (TaskId 7) = Some TaskStatus.Completed"
  by (rule started_after_predecessors [OF example_reach(2) example_started(2)]) (simp add: example_started(3))

text \<open>C5. The queue never comes to wait for itself: while a task is unfinished, one is that waits,
  through tasks and goals, for no unfinished task.\<close>

theorem queue_never_deadlocks:
  assumes "queue_step\<^sup>*\<^sup>* empty_queue q" "status_of q i \<in> unfinished"
  shows "\<exists>j. status_of q j \<in> unfinished
    \<and> (\<forall>p. (WaitNode.Task j, WaitNode.Task p) \<in> (pending_waits q)\<^sup>+ \<longrightarrow> status_of q p \<notin> unfinished)"
proof -
  have "acyclic (pending_waits q)"
    using queue_life_ok(1,3) [OF assms(1)] by (simp add: pending_waits_core)
  from unfinished_first [OF this assms(2)] show ?thesis by metis
qed

lemma queue_never_deadlocks_witness:
  "\<exists>j. status_of example_started j \<in> unfinished
    \<and> (\<forall>p. (WaitNode.Task j, WaitNode.Task p) \<in> (pending_waits example_started)\<^sup>+ \<longrightarrow>
      status_of example_started p \<notin> unfinished)"
  by (rule queue_never_deadlocks [OF example_reach(2), of "TaskId 12"]) (simp add: example_started(3))

text \<open>C3. A claim starts a ready task whose predecessors are completed, that no hold, run or replan
  operation has, whose goal is not a draft and whose goal dependencies are achieved, and nothing
  else: every other task keeps its status, and the edges stay.\<close>

theorem claim_starts_ready_task:
  assumes "queue_step\<^sup>*\<^sup>* empty_queue q" "claim_task cf q = Some (Inr (q', Some run))"
  shows "status_of q (run_task_id run) = Some TaskStatus.Ready
    \<and> (\<forall>p. (run_task_id run, p) \<in> set (q_dependencies q) \<longrightarrow> status_of q p = Some TaskStatus.Completed)
    \<and> hold_of q (run_task_id run) = None \<and> \<not> has_unfinished_run q (run_task_id run)
    \<and> (\<forall>op \<in> set (q_operations q). op_task_id op = run_task_id run \<longrightarrow> \<not> ReplanStatus_guards (op_status op))
    \<and> (\<forall>g \<in> set (q_goals q). (membership q (run_task_id run) = Some (goal_id g) \<longrightarrow> goal_status g \<noteq> GoalStatus.Draft)
        \<and> ((run_task_id run, goal_id g) \<in> set (q_goal_dependencies q) \<longrightarrow> goal_verdict g = Some Achieved))
    \<and> status_of q' = (status_of q)(run_task_id run \<mapsto> TaskStatus.InProgress)
    \<and> q_dependencies q' = q_dependencies q
    \<and> run \<in> set (q_runs q') \<and> run_status run = RunStatus.Claimed"
proof -
  note ok = queue_life_ok [OF assms(1)]
  from claim_task_starts [OF assms(2) ok(1,2)] obtain row where row: "row \<in> set (ready_rows q)"
    and run: "run_task_id run = task_id row" "run_status run = RunStatus.Claimed" "run \<in> set (q_runs q')"
    and q': "status_of q' = (status_of q)(task_id row \<mapsto> TaskStatus.InProgress)" "q_dependencies q' = q_dependencies q"
    by metis
  note r = ready_row_claimable [OF ok(1,2) row]
  have "membership q (task_id row) = task_goal_id row" using r(1) by (simp add: membership_def)
  then have goals: "(membership q (task_id row) = Some (goal_id g) \<longrightarrow> goal_status g \<noteq> GoalStatus.Draft)
      \<and> ((task_id row, goal_id g) \<in> set (q_goal_dependencies q) \<longrightarrow> goal_verdict g = Some Achieved)"
    if "g \<in> set (q_goals q)" for g
    using r(5) that by (auto simp: ready_conditions_def list_ex_iff goal_is_achieved_def)
  have ops: "\<not> ReplanStatus_guards (op_status op)" if "op \<in> set (q_operations q)" "op_task_id op = task_id row" for op
    using r(5) that by (auto simp: ready_conditions_def list_ex_iff replan_guarding_guards)
  have free: "\<not> has_unfinished_run q (task_id row)" using r(5) by (simp add: ready_conditions_def)
  show ?thesis unfolding run(1) using r(2-4) free ops goals q' run(2,3) by blast
qed

lemma claim_starts_ready_task_witness:
  "\<exists>run :: TaskRun. status_of example_waiting (run_task_id run) = Some TaskStatus.Ready
    \<and> (\<forall>p. (run_task_id run, p) \<in> set (q_dependencies example_waiting) \<longrightarrow>
      status_of example_waiting p = Some TaskStatus.Completed)"
proof -
  obtain q' run where "claim_task example_claim example_waiting = Some (Inr (q', Some run))"
    using example_waiting(10) by blast
  from claim_starts_ready_task [OF example_reach(1) this] show ?thesis by blast
qed



text \<open>A predecessor of a ready task that is not unfinished any more is completed or was canceled.\<close>

lemma settled_predecessor:
  assumes "queue_step\<^sup>*\<^sup>* empty_queue q" "status_of q j = Some TaskStatus.Ready" "(j, p) \<in> set (q_dependencies q)"
    and "status_of q p \<notin> unfinished" "status_of q p \<noteq> Some TaskStatus.Canceled"
  shows "status_of q p = Some TaskStatus.Completed"
proof -
  note ok = queue_life_ok [OF assms(1)] and work = queue_life [OF assms(1)]
  have "(WaitNode.Task j, WaitNode.Task p) \<in> live_waits (core_of q)" using assms(2,3) by simp
  then have "phase (work_of q) p \<noteq> Some SplitUp"
    by (intro work_okD(3) [of "work_of q" j]) (use work assms(2) in \<open>auto simp: phase_is\<close>)
  then have "status_of q p \<noteq> Some TaskStatus.Replaced" by (simp only: work_of_simps phase_is not_False_eq_True)
  moreover have "status_of q p \<noteq> None" using core_okD(1) [OF ok(2), of j p] assms(3) by simp
  ultimately show ?thesis using assms(4,5)
    by (cases "status_of q p") (auto elim: phase_of.elims intro: TaskStatus.exhaust)
qed

text \<open>C6. Work that is ready is claimable: with nothing else unfinished, no hold, run, operation,
  draft goal or goal dependency in the way and no predecessor canceled, some ready task is
  claimable. No edge can be left that the claims wait for: not onto a replaced task either.\<close>

theorem ready_work_is_claimable:
  assumes "queue_step\<^sup>*\<^sup>* empty_queue q" "status_of q i = Some TaskStatus.Ready"
    and "\<forall>j. status_of q j \<in> unfinished \<longrightarrow> status_of q j = Some TaskStatus.Ready"
    and "\<forall>(j, p) \<in> set (q_dependencies q). status_of q p \<noteq> Some TaskStatus.Canceled"
    and "q_goal_dependencies q = []" "q_holds q = []" "\<forall>g \<in> set (q_goals q). goal_status g \<noteq> GoalStatus.Draft"
    and "\<forall>j. \<not> has_unfinished_run q j" "\<forall>op \<in> set (q_operations q). \<not> ReplanStatus_guards (op_status op)"
  shows "ready_rows q \<noteq> []"
proof -
  note ok = queue_life_ok [OF assms(1)] and work = queue_life [OF assms(1)]
  have "acyclic (pending_waits q)" using ok(1,3) by (simp add: pending_waits_core)
  then obtain j where j: "status_of q j \<in> unfinished"
    "\<forall>p. (WaitNode.Task j, WaitNode.Task p) \<in> (pending_waits q)\<^sup>+ \<longrightarrow> status_of q p \<notin> unfinished"
    by (rule unfinished_first [of q i]) (use assms(2) in simp)
  then have ready: "status_of q j = Some TaskStatus.Ready" using assms(3) by blast
  obtain row where row: "row_of q j = Some row" "task_status row = TaskStatus.Ready"
    using ready by (auto simp: status_of_def)
  have member: "row \<in> set (q_tasks q)" "task_id row = j" using row_of_Some [OF row(1)] by simp_all
  have settled: "status_of q p = Some TaskStatus.Completed" if p: "(j, p) \<in> set (q_dependencies q)" for p
  proof (rule settled_predecessor [OF assms(1) ready p])
    have "(WaitNode.Task j, WaitNode.Task p) \<in> (pending_waits q)\<^sup>+"
      using ok(1) p ready by (auto simp: pending_waits_core)
    then show "status_of q p \<notin> unfinished" using j(2) by blast
  qed (use assms(4) p in blast)
  have "task_status pt = TaskStatus.Completed" if "(j, task_id pt) \<in> set (q_dependencies q)" "pt \<in> set (q_tasks q)" for pt
    using settled [OF that(1)] row_of_distinct [OF tables_okD(1) [OF ok(1)], of "task_id pt" pt] that(2)
    by (simp add: status_of_def)
  then have "\<not> list_ex (\<lambda>(i, p). i = task_id row \<and> list_ex (\<lambda>pt. task_id pt = p \<and> task_status pt \<noteq> TaskStatus.Completed) (q_tasks q))
      (q_dependencies q)" using member(2) by (auto simp: list_ex_iff)
  then have "ready_conditions q row"
    using row(2) assms(5,7-9) unfolding ready_conditions_def by (auto simp: list_ex_iff replan_guarding_guards)
  moreover have "hold_of q (task_id row) = None" using assms(6) by (simp add: hold_of_def)
  ultimately have "row \<in> set (ready_rows q)" using member(1) by (simp add: ready_rows_def)
  then show ?thesis by auto
qed

lemma ready_work_is_claimable_witness: "ready_rows example_waiting \<noteq> []"
proof -
  have rows: "row_of example_waiting j = Some t \<Longrightarrow> task_status t = TaskStatus.Ready \<and> task_id t \<in> {TaskId 7, TaskId 12}" for j t
    using row_of_Some [of example_waiting j t] example_waiting(2,3) by auto
  have known: "row_of example_waiting (TaskId 7) \<noteq> None"
    using example_waiting(2) by (auto simp: row_of_def find_None_iff)
  then obtain t where t: "row_of example_waiting (TaskId 7) = Some t" by blast
  show ?thesis
    by (rule ready_work_is_claimable [OF example_reach(1), of "TaskId 7"])
      (use rows t rows [OF t] in \<open>auto simp: status_of_def has_unfinished_run_def example_waiting(4-9)\<close>)
qed

text \<open>C8. When an edge is accepted: both tasks are known and no hold or operation guards their
  edges, the waiting one has not started, the other was not replaced, and it does not wait, however
  far, for the waiting one. Then the edge is there, and it is the only change to who waits.\<close>

theorem dependency_accepted_iff:
  "insert_dependency q i p now = Inr q' \<longleftrightarrow>
    i \<noteq> p \<and> check_task_step q i GuardedStep.Dependency = Inr ()
    \<and> check_task_step q p GuardedStep.Dependency = Inr ()
    \<and> (\<exists>t. read_task q i = Inr t \<and> Some (task_status t) \<in> editable)
    \<and> (\<exists>t. read_task q p = Inr t \<and> task_status t \<noteq> TaskStatus.Replaced)
    \<and> (WaitNode.Task p, WaitNode.Task i) \<notin> (set (wait_edges q))\<^sup>*
    \<and> q' = (if (i, p) \<in> set (q_dependencies q) then q
        else add_event i None (EventDependencyAdded p)
          (touch (q\<lparr>q_dependencies := q_dependencies q @ [(i, p)]\<rparr>) i now))"
  by (rule insert_dependency_accepted)

text \<open>The edges of the successors after a replacement: to the children, none to the task replaced.\<close>

lemma successors_repointed:
  assumes "successors_mapped plan ctx" "children_pending plan ctx" "i \<notin> set (child_ids plan)"
  shows "s \<in> set successors \<Longrightarrow> (s, i) \<notin> set (repoint i (successor_edges plan successors) ds)
      \<and> (\<exists>child \<in> set (child_ids plan). (s, child) \<in> set (repoint i (successor_edges plan successors) ds))"
    and "(s, x) \<in> set ds \<Longrightarrow> x \<noteq> i \<Longrightarrow> (s, x) \<in> set (repoint i (successor_edges plan successors) ds)"
proof -
  let ?E = "successor_edges plan successors"
  have needs: "needs \<noteq> [] \<and> set needs \<subseteq> set (child_ids plan)" if "(s, needs) \<in> set ?E" for s needs
    using successor_needs(2) [OF assms(1) that] successor_needs_some [OF assms(1,2) that] by blast
  have edges: "set (repoint i ?E ds) = {e \<in> set ds. \<not> (snd e = i \<and> fst e \<in> fst ` set ?E)}
      \<union> {(j, n). \<exists>needs. (j, needs) \<in> set ?E \<and> n \<in> set needs}"
    by (rule set_repoint) (use needs assms(3) in blast)
  then show "(s, x) \<in> set ds \<Longrightarrow> x \<noteq> i \<Longrightarrow> (s, x) \<in> set (repoint i ?E ds)" by simp
  assume s: "s \<in> set successors"
  then obtain needs where e: "(s, needs) \<in> set ?E" using successor_edges_fst [of plan successors] by force
  from needs [OF e] obtain n where "n \<in> set needs" "n \<in> set (child_ids plan)" by (cases needs) auto
  with e have "(s, n) \<in> set (repoint i ?E ds)" unfolding edges by blast
  moreover have "(s, i) \<notin> set (repoint i ?E ds)"
    unfolding edges using s needs assms(3) by (auto simp: successor_edges_fst)
  ultimately show "(s, i) \<notin> set (repoint i ?E ds) \<and> (\<exists>child \<in> set (child_ids plan). (s, child) \<in> set (repoint i ?E ds))"
    using \<open>n \<in> set (child_ids plan)\<close> by blast
qed

text \<open>C4. A replacement that is applied loses nothing: the plan holds every condition of the replaced
  task against the queue as it is, the task is replaced, its children are ready, and each task that
  waited for it and has not started waits for children of it instead, at least one.\<close>

theorem replacement_keeps_work:
  assumes "queue_step\<^sup>*\<^sup>* empty_queue q"
    and "apply_replacement af q j generation snapshot_problem reason refusal again now now_secs = Inr (q', Applied op')"
  shows "\<exists>op p members ctx. read_operation (q_operations q) j = Inr op \<and> latest_plan q (op_id op) = Some p
    \<and> rev_approved_at p \<noteq> None \<and> op_proposal_id op = Some (rev_proposal_id p)
    \<and> plan_context af q op (rev_plan p) members = Inr ctx
    \<and> children_pending (rev_plan p) ctx \<and> items_covered (rev_plan p) ctx \<and> checks_kept (rev_plan p) ctx
    \<and> dependencies_sound (rev_plan p) ctx
    \<and> status_of q' = (\<lambda>i. if i \<in> set (child_ids (rev_plan p)) then Some TaskStatus.Ready
        else if i = op_task_id op then Some TaskStatus.Replaced else status_of q i)
    \<and> (\<forall>s. (s, op_task_id op) \<in> set (q_dependencies q) \<and> status_of q s \<in> editable \<longrightarrow>
        (s, op_task_id op) \<notin> set (q_dependencies q')
        \<and> (\<exists>child \<in> set (child_ids (rev_plan p)). (s, child) \<in> set (q_dependencies q')))
    \<and> (\<forall>s x. (s, x) \<in> set (q_dependencies q) \<and> x \<noteq> op_task_id op \<longrightarrow> (s, x) \<in> set (q_dependencies q'))"
proof (rule apply_replacement_cases [OF assms(2)])
  note ok = queue_life_ok [OF assms(1)]
  fix op op1
  assume op: "read_operation (q_operations q) j = Inr op" and now: "problems_now af q op generation = Inr []"
    and written: "write_replacement af q op generation reason now now_secs = Inr (q', op1)"
  obtain p members ctx q1 q2 successors where p: "latest_plan q (op_id op) = Some p"
    and ctx: "plan_context af q op (rev_plan p) members = Inr ctx"
    and checked: "codes (check_plan (rev_plan p) ctx) \<subseteq> {NotWithPlanner}"
    and apart: "op_task_id op \<notin> set (child_ids (rev_plan p))"
    and successors: "set successors = {j. (j, op_task_id op) \<in> set (q_dependencies q) \<and> status_of q j \<in> editable}"
    and core1: "core_of q1 = (core_of q)\<lparr>c_status := (status_of q)(op_task_id op \<mapsto> TaskStatus.Replaced),
      c_depends := set (repoint (op_task_id op) (successor_edges (rev_plan p) successors) (q_dependencies q)),
      c_replaced := c_replaced (core_of q) \<union> {op_task_id op} \<times> set (child_ids (rev_plan p))\<rparr>"
    and "core_step (core_of q) (core_of q1)" "tables_ok q1"
    and approved: "live (\<lambda>child q. and_then (apply_transition (af_transition af) q child Approve now)
      (\<lambda>(q, _). Inr q)) (child_ids (rev_plan p)) q1 = Inr q2"
    and q': "q' = add_event (op_task_id op) (Some (op_run_id op)) (EventReplanApplied (op_id op) (child_ids (rev_plan p))) q2"
    and "read_operation (q_operations q2) (op_id op) = Inr op1"
    by (rule write_replacement_split [OF written now ok])
  let ?i = "op_task_id op" and ?C = "set (child_ids (rev_plan p))"
  note rules = no_other_problems [OF checked]
  note kept = approve_children [OF approved]
  have status1: "status_of q1 = (status_of q)(?i \<mapsto> TaskStatus.Replaced)"
    using core1 core_of_simps(1) [of q1] by simp
  have same: "core_of q' = core_of q2" by (simp add: q')
  have status: "status_of q' = (\<lambda>i. if i \<in> ?C then Some TaskStatus.Ready
      else if i = ?i then Some TaskStatus.Replaced else status_of q i)"
  proof -
    have "status_of q' = status_of q2" using core_of_simps(1) [of q'] core_of_simps(1) [of q2] by (simp only: same)
    then show ?thesis unfolding kept(3) status1 by (auto simp: fun_eq_iff)
  qed
  have deps: "set (q_dependencies q') = set (repoint ?i (successor_edges (rev_plan p) successors) (q_dependencies q))"
    using core_of_simps(3) [of q'] core_of_simps(3) [of q2] kept(1) by (simp add: same core1)
  note edges = successors_repointed [OF rules(6,1) apart]
  have "(s, ?i) \<notin> set (q_dependencies q') \<and> (\<exists>child \<in> ?C. (s, child) \<in> set (q_dependencies q'))"
    if "(s, ?i) \<in> set (q_dependencies q)" "status_of q s \<in> editable" for s
    unfolding deps using edges(1) that successors by blast
  moreover have "(s, x) \<in> set (q_dependencies q')" if "(s, x) \<in> set (q_dependencies q)" "x \<noteq> ?i" for s x
    unfolding deps using edges(2) that by blast
  ultimately show ?thesis using op p approved_plan_only [OF now p] ctx rules(1-3,5) status by blast
qed (blast, simp)

lemma replacement_keeps_work_witness:
  "\<exists>op p members ctx. read_operation (q_operations example_applying) (ReplanId 1) = Inr op
    \<and> latest_plan example_applying (op_id op) = Some p
    \<and> plan_context example_apply example_applying op (rev_plan p) members = Inr ctx
    \<and> items_covered (rev_plan p) ctx \<and> checks_kept (rev_plan p) ctx"
proof -
  obtain q' op where "apply_replacement example_apply example_applying (ReplanId 1) 2 False ''apply'' ''r'' ''a'' ''t3'' 9
    = Inr (q', Applied op)" using example_applying(2) by blast
  from replacement_keeps_work [OF example_reach(3) this] show ?thesis by blast
qed

end
