(* ===== verification/Run_Store.thy ===== *)
theory Run_Store
  imports Queue_Tasks
begin

text \<open>
  The store of the runs that go: \<^verbatim>\<open>src/infrastructure/runtime_store/mod.rs\<close> and
  \<^verbatim>\<open>coordination.rs\<close>. Beside the queue's tables (\<open>Queue_Store\<close>) are the column
  \<open>supervisor_token\<close> of the runs, the leases, the session processes, the registered supervisors,
  the settling of the holds, the asks and the log of the runs' events.

  A transaction (\<open>tx\<close>) takes the store and returns it with a value, or fails, and then writes
  nothing; \<open>tx_commit_some\<close> and \<open>tx_commit_if\<close> are the handlers that return without a commit, which
  keep the store they got. What a handler asks of the process it runs in (the clock, which pids live,
  its own pid, the stalled detections the events leave open) is the record \<open>Host\<close>. The checks the
  unique indexes of the tables make are made by the writes. Of an event the kind is recorded, not
  what its payload says for the measurement, and the phases of a run, which only the measurement
  reads, are not.
\<close>

section \<open>The tables\<close>

datatype LeaseToken = LeaseToken (lease_token_as_str: string)

record RunLease =
  lease_run_id :: RunId
  lease_token :: LeaseToken
  lease_pid :: int
  lease_heartbeat_at :: int

datatype ProcessRole = Wrapper | Agent

record RunProcess =
  process_run_id :: RunId
  process_role :: ProcessRole
  process_pid :: int
  process_heartbeat_at :: int
  process_exited_at :: "int option"
  process_exit_code :: "int option"

record SupervisorRegistration =
  sup_token :: LeaseToken
  sup_pid :: int
  sup_parallel :: int
  sup_started_at :: int
  sup_heartbeat_at :: int
  sup_mode :: "string option"
  sup_workspace_id :: "string option"
  sup_binary_version :: "string option"
  sup_handoff_accepted :: bool
  sup_handoff_binary :: "string option"
  sup_handoff_requested_at :: "int option"
  sup_auto_update :: bool

datatype AskKind = Stalled | ApproveLanding | ApproveClose | Decide | OtherAsk string

record StoredAsk =
  ask_id :: AskId
  ask_run_id :: "RunId option"
  ask_kind :: AskKind
  ask_options :: "string list"
  ask_answer :: "string option"
  ask_closed_at :: "int option"

datatype RunEventKind =
  LeaseAcquired | LeaseReleased | RuntimeError | RunPlanned | WorkspaceCreated | SupervisionFinished
| ValidationFinished | ScopeViolation | EvidenceMissing | RunSatisfiedClosed | RunSatisfiedDecided
| LandingDecided | RecoveryParked | ReplanParked | HoldParked | RunE2eStarted | RunE2eFailed
| LandingRecheckFailed | ProviderSwitched | IntegrationStarted | IntegrationDeferred
| IntegrationHeld | IntegrationFailed | IntegrationError | IntegrationHandedOver | RunIntegrated
| CleanupFailed | WorkspaceClosed | RunUnfinishedChanged | RunAdopted | RunRecovered
| WorkerModeConverted | ResumeStarted | ResumeSkipped | ResumeFinished | AutoRepaired
| RecoveryRequested | TriageStarted | TriageFinished | TriageDecided | HoldResultKept
| HoldResultApplied | StallResolved | WrapperStarted | AgentStarted | SessionExited
| AskAnswered | AskClosed | ReplanRestored | ReplanRestoreFailed | RunLogged string

record RunStore =
  s_queue :: Queue
  s_supervised :: "RunId \<rightharpoonup> LeaseToken"
  s_leases :: "RunLease list"
  s_processes :: "RunProcess list"
  s_supervisors :: "SupervisorRegistration list"
  s_settled :: "HoldId \<rightharpoonup> int"
  s_asks :: "StoredAsk list"
  s_log :: "(RunId \<times> RunEventKind) list"

definition empty_store :: RunStore where
  "empty_store = \<lparr>s_queue = empty_queue, s_supervised = Map.empty, s_leases = [], s_processes = [],
     s_supervisors = [], s_settled = Map.empty, s_asks = [], s_log = []\<rparr>"

record Host =
  host_now :: int
  host_stamp :: string
  host_alive :: "int \<Rightarrow> bool"
  host_pid :: int
  host_stalled :: "RunId \<Rightarrow> nat"

definition HEARTBEAT_TIMEOUT_SECS :: int where
  "HEARTBEAT_TIMEOUT_SECS = 30"

section \<open>Transactions\<close>

type_synonym 'a tx = "RunStore \<Rightarrow> (RunStore \<times> 'a) stored"

definition tx_return :: "'a \<Rightarrow> 'a tx" where
  "tx_return x = (\<lambda>s. Inr (s, x))"

definition tx_fail :: "string \<Rightarrow> 'a tx" where
  "tx_fail message = (\<lambda>s. Inl (Refused message))"

definition tx_bind :: "'a tx \<Rightarrow> ('a \<Rightarrow> 'b tx) \<Rightarrow> 'b tx" where
  "tx_bind m k = (\<lambda>s. and_then (m s) (\<lambda>(s, x). k x s))"

definition tx_then :: "'a tx \<Rightarrow> 'b tx \<Rightarrow> 'b tx" where
  "tx_then m n = tx_bind m (\<lambda>_. n)"

definition tx_read :: "(RunStore \<Rightarrow> 'a) \<Rightarrow> ('a \<Rightarrow> 'b tx) \<Rightarrow> 'b tx" where
  "tx_read f k = (\<lambda>s. k (f s) s)"

definition tx_write :: "(RunStore \<Rightarrow> RunStore) \<Rightarrow> unit tx" where
  "tx_write f = (\<lambda>s. Inr (f s, ()))"

definition tx_ensure :: "bool \<Rightarrow> string \<Rightarrow> unit tx" where
  "tx_ensure b message = (if b then tx_return () else tx_fail message)"

definition tx_check :: "'a stored \<Rightarrow> 'a tx" where
  "tx_check r = (\<lambda>s. and_then r (\<lambda>x. Inr (s, x)))"

definition tx_queue :: "(Queue \<Rightarrow> (Queue \<times> 'a) stored) \<Rightarrow> 'a tx" where
  "tx_queue f = (\<lambda>s. and_then (f (s_queue s)) (\<lambda>(q, x). Inr (s\<lparr>s_queue := q\<rparr>, x)))"

text \<open>A handler that returns \<open>None\<close>, or \<open>false\<close>, before its commit has written nothing.\<close>

definition tx_commit_some :: "'a option tx \<Rightarrow> 'a option tx" where
  "tx_commit_some m = (\<lambda>s. and_then (m s) (\<lambda>(s', x). Inr (if x = None then s else s', x)))"

definition tx_commit_if :: "bool tx \<Rightarrow> bool tx" where
  "tx_commit_if m = (\<lambda>s. and_then (m s) (\<lambda>(s', b). Inr (if b then s' else s, b)))"

section \<open>Rows\<close>

definition stored_run :: "RunStore \<Rightarrow> RunId \<Rightarrow> TaskRun option" where
  "stored_run s i = find (\<lambda>r. run_id r = i) (q_runs (s_queue s))"

text \<open>The run as stored if the token is its supervisor.\<close>

definition supervised_run :: "RunStore \<Rightarrow> RunId \<Rightarrow> LeaseToken \<Rightarrow> TaskRun option" where
  "supervised_run s i token = option_filter (\<lambda>_. s_supervised s i = Some token) (stored_run s i)"

definition lease_of :: "RunStore \<Rightarrow> RunId \<Rightarrow> RunLease option" where
  "lease_of s i = find (\<lambda>l. lease_run_id l = i) (s_leases s)"

definition run_leased :: "RunStore \<Rightarrow> RunId \<Rightarrow> bool" where
  "run_leased s i \<longleftrightarrow> lease_of s i \<noteq> None"

definition holds_lease :: "RunStore \<Rightarrow> RunId \<Rightarrow> LeaseToken \<Rightarrow> bool" where
  "holds_lease s i token \<longleftrightarrow> list_ex (\<lambda>l. lease_run_id l = i \<and> lease_token l = token) (s_leases s)"

definition lease_is_stale :: "Host \<Rightarrow> RunLease \<Rightarrow> bool" where
  "lease_is_stale h l \<longleftrightarrow> \<not> host_alive h (lease_pid l)
     \<or> host_now h - lease_heartbeat_at l > HEARTBEAT_TIMEOUT_SECS"

definition registration :: "RunStore \<Rightarrow> LeaseToken \<Rightarrow> SupervisorRegistration option" where
  "registration s token = find (\<lambda>r. sup_token r = token) (s_supervisors s)"

text \<open>The pid a lease records: the registered supervisor's, or the process's own.\<close>

definition holder_pid :: "Host \<Rightarrow> LeaseToken \<Rightarrow> RunStore \<Rightarrow> int" where
  "holder_pid h token s = (case registration s token of Some r \<Rightarrow> sup_pid r | None \<Rightarrow> host_pid h)"

definition run_missing :: "RunId \<Rightarrow> string" where
  "run_missing i = ''run '' @ run_id_as_str i @ '' does not exist''"

section \<open>Leases\<close>

definition insert_lease :: "RunId \<Rightarrow> LeaseToken \<Rightarrow> int \<Rightarrow> int \<Rightarrow> unit tx" where
  "insert_lease i token pid now =
    tx_read (\<lambda>s. run_leased s i) (\<lambda>leased.
    tx_then (tx_ensure (\<not> leased) ''UNIQUE constraint failed: run_leases.run_id'')
      (tx_write (\<lambda>s. s\<lparr>s_leases := s_leases s @
        [\<lparr>lease_run_id = i, lease_token = token, lease_pid = pid, lease_heartbeat_at = now\<rparr>]\<rparr>)))"

text \<open>\<open>UPDATE \<dots> heartbeat_at WHERE run_id AND token\<close>: whether a row was there.\<close>

definition refresh_lease :: "RunId \<Rightarrow> LeaseToken \<Rightarrow> int \<Rightarrow> bool tx" where
  "refresh_lease i token now =
    tx_read (\<lambda>s. holds_lease s i token) (\<lambda>held.
    tx_then (tx_write (\<lambda>s. s\<lparr>s_leases := map (\<lambda>l. if lease_run_id l = i \<and> lease_token l = token
        then l\<lparr>lease_heartbeat_at := now\<rparr> else l) (s_leases s)\<rparr>))
      (tx_return held))"

definition renew_lease :: "Host \<Rightarrow> RunId \<Rightarrow> LeaseToken \<Rightarrow> unit tx" where
  "renew_lease h i token =
    tx_bind (refresh_lease i token (host_now h)) (\<lambda>renewed.
    tx_ensure renewed ''run lease is missing or held by another supervisor'')"

text \<open>\<open>DELETE \<dots> WHERE run_id AND token\<close>: whether a row was there.\<close>

definition delete_lease :: "RunId \<Rightarrow> LeaseToken \<Rightarrow> bool tx" where
  "delete_lease i token =
    tx_read (\<lambda>s. holds_lease s i token) (\<lambda>held.
    tx_then (tx_write (\<lambda>s. s\<lparr>s_leases :=
        filter (\<lambda>l. \<not> (lease_run_id l = i \<and> lease_token l = token)) (s_leases s)\<rparr>))
      (tx_return held))"

text \<open>Nobody holds the run: a stale lease is deleted, a live one refuses.\<close>

definition clear_stale_lease :: "Host \<Rightarrow> RunId \<Rightarrow> bool tx" where
  "clear_stale_lease h i =
    tx_read (\<lambda>s. lease_of s i) (\<lambda>lease. case lease of
      None \<Rightarrow> tx_return True
    | Some l \<Rightarrow> if \<not> lease_is_stale h l then tx_return False
        else tx_then (tx_write (\<lambda>s. s\<lparr>s_leases := filter (\<lambda>l. lease_run_id l \<noteq> i) (s_leases s)\<rparr>))
          (tx_return True))"

definition set_supervisor :: "RunId \<Rightarrow> LeaseToken \<Rightarrow> unit tx" where
  "set_supervisor i token = tx_write (\<lambda>s. s\<lparr>s_supervised := (s_supervised s)(i \<mapsto> token)\<rparr>)"

section \<open>Holds\<close>

definition latest_run_id :: "RunStore \<Rightarrow> TaskId \<Rightarrow> RunId option" where
  "latest_run_id s task = map_option run_id (latest_run (s_queue s) task)"

text \<open>Whether a replanning's park of the run ended \<open>blocked\<close> while it stopped or saved the work.\<close>

definition park_blocked :: "RunStore \<Rightarrow> RunId \<Rightarrow> bool" where
  "park_blocked s i \<longleftrightarrow> list_ex (\<lambda>op. op_run_id op = i \<and> op_status op = ReplanStatus.Blocked
     \<and> op_return_phase op \<in> {Some ReplanStatus.PauseRequested, Some ReplanStatus.Quiescing,
         Some ReplanStatus.Snapshotting}) (q_operations (s_queue s))"

definition registered_writer :: "RunStore \<Rightarrow> RunId \<Rightarrow> bool" where
  "registered_writer s i \<longleftrightarrow>
    list_ex (\<lambda>p. process_run_id p = i \<and> process_exited_at p = None) (s_processes s)"

definition rest_writer :: "RunStore \<Rightarrow> RunId \<Rightarrow> bool \<Rightarrow> RestWriter" where
  "rest_writer s i checked = \<lparr>rw_park_blocked = park_blocked s i,
     rw_registered_process = registered_writer s i, rw_checked = checked\<rparr>"

text \<open>The open hold settles now, unless it did: whether it was still settling.\<close>

definition settle_open :: "HoldId \<Rightarrow> int \<Rightarrow> bool tx" where
  "settle_open hold now =
    tx_read (\<lambda>s. list_ex (\<lambda>g. hg_hold g = hold) (q_holds (s_queue s)) \<and> s_settled s hold = None) (\<lambda>settling.
    if settling then tx_then (tx_write (\<lambda>s. s\<lparr>s_settled := (s_settled s)(hold \<mapsto> now)\<rparr>)) (tx_return True)
    else tx_return False)"

definition settle_at_rest_in :: "Host \<Rightarrow> RunId \<Rightarrow> bool \<Rightarrow> bool tx" where
  "settle_at_rest_in h i checked = tx_read (\<lambda>s. s) (\<lambda>s. case stored_run s i of
     None \<Rightarrow> tx_return False
   | Some run \<Rightarrow> (case hold_of (s_queue s) (run_task_id run) of
       None \<Rightarrow> tx_return False
     | Some hold \<Rightarrow>
         if settles_at_rest (run_status run) (run_leased s i) (latest_run_id s (run_task_id run) = Some i)
              (rest_writer s i checked)
         then settle_open (hg_hold hold) (host_now h)
         else tx_return False))"

section \<open>Events\<close>

definition log_event :: "RunId \<Rightarrow> RunEventKind \<Rightarrow> unit tx" where
  "log_event i kind = tx_write (\<lambda>s. s\<lparr>s_log := s_log s @ [(i, kind)]\<rparr>)"

text \<open>A lease given back, or a recovery, settles a hold that waited for the step it ends.\<close>

definition run_event :: "Host \<Rightarrow> RunId \<Rightarrow> RunEventKind \<Rightarrow> unit tx" where
  "run_event h i kind =
    tx_read (\<lambda>s. stored_run s i) (\<lambda>run.
    tx_then (tx_ensure (run \<noteq> None) ''Query returned no rows'')
    (tx_then (log_event i kind)
      (if kind \<in> {LeaseReleased, RunRecovered}
       then tx_then (settle_at_rest_in h i False) (tx_return ()) else tx_return ())))"

fun record_events :: "Host \<Rightarrow> RunId \<Rightarrow> RunEventKind list \<Rightarrow> unit tx" where
  "record_events h i [] = tx_return ()"
| "record_events h i (kind # kinds) = tx_then (run_event h i kind) (record_events h i kinds)"

section \<open>Saving a run\<close>

text \<open>The unique indexes of the runs: one per ID, one unfinished and one landed per task, one landing
  at a time.\<close>

definition run_indexes_ok :: "TaskRun list \<Rightarrow> bool" where
  "run_indexes_ok rs \<longleftrightarrow> distinct (map run_id rs)
     \<and> distinct (map run_task_id (filter (\<lambda>r. run_status r \<in> set unfinished_statuses) rs))
     \<and> distinct (map run_task_id (filter (\<lambda>r. run_status r = RunStatus.Integrated) rs))
     \<and> length (filter (\<lambda>r. run_status r = RunStatus.Integrating) rs) \<le> 1"

text \<open>The columns a save writes.\<close>

definition saved_row :: "TaskRun \<Rightarrow> TaskRun \<Rightarrow> TaskRun" where
  "saved_row row run = row\<lparr>run_status := run_status run, run_repo_path := run_repo_path run,
     run_run_dir := run_run_dir run, run_branch := run_branch run,
     run_worktree_path := run_worktree_path run, run_receipt_path := run_receipt_path run,
     run_log_path := run_log_path run, run_workspace_id := run_workspace_id run,
     run_result_commit := run_result_commit run, run_last_error := run_last_error run,
     run_workspace_closed_at := run_workspace_closed_at run\<rparr>"

definition update_run_row :: "RunId \<Rightarrow> (TaskRun \<Rightarrow> TaskRun) \<Rightarrow> RunStore \<Rightarrow> RunStore" where
  "update_run_row i f s = s\<lparr>s_queue := (s_queue s)\<lparr>q_runs :=
     map (\<lambda>r. if run_id r = i then f r else r) (q_runs (s_queue s))\<rparr>\<rparr>"

definition save_run_row :: "TaskRun \<Rightarrow> RunStatus \<Rightarrow> LeaseToken option \<Rightarrow> bool tx" where
  "save_run_row run from token = (\<lambda>s. case stored_run s (run_id run) of
     None \<Rightarrow> Inr (s, False)
   | Some row \<Rightarrow>
       if run_status row = from \<and> (token = None \<or> s_supervised s (run_id run) = token)
       then (let s' = update_run_row (run_id run) (\<lambda>row. saved_row row run) s
         in if run_indexes_ok (q_runs (s_queue s')) then Inr (s', True)
            else Inl (Refused ''UNIQUE constraint failed: task_runs''))
       else Inr (s, False))"

definition unfinished_change :: "RunStatus \<Rightarrow> RunStatus \<Rightarrow> RunEventKind list" where
  "unfinished_change from to =
    (if RunStatus_is_unfinished from \<noteq> RunStatus_is_unfinished to then [RunUnfinishedChanged] else [])"

definition save_run :: "Host \<Rightarrow> TaskRun \<Rightarrow> RunStatus \<Rightarrow> LeaseToken option \<Rightarrow> bool tx" where
  "save_run h run from token =
    tx_bind (save_run_row run from token) (\<lambda>saved.
    if saved then
      tx_then (if unfinished_change from (run_status run) \<noteq> []
        then log_event (run_id run) RunUnfinishedChanged else tx_return ())
      (tx_then (if from \<noteq> run_status run
        then tx_then (settle_at_rest_in h (run_id run) False) (tx_return ()) else tx_return ())
      (tx_return True))
    else tx_return False)"

text \<open>The run read, the command applied, the result saved. The reason of a refusal goes to a log
  file, not to the caller.\<close>

definition apply_run ::
  "Host \<Rightarrow> RunId \<Rightarrow> LeaseToken option \<Rightarrow> string \<Rightarrow> (TaskRun \<Rightarrow> TaskRun result) \<Rightarrow> TaskRun tx" where
  "apply_run h i token refusal command =
    tx_read (\<lambda>s. stored_run s i) (\<lambda>stored. case stored of
      None \<Rightarrow> tx_fail refusal
    | Some run \<Rightarrow> (case command run of
        Inl _ \<Rightarrow> tx_fail refusal
      | Inr changed \<Rightarrow>
          tx_bind (save_run h changed (run_status run) token) (\<lambda>saved.
          tx_then (tx_ensure saved refusal) (tx_return changed))))"

definition apply_recorded ::
  "Host \<Rightarrow> RunId \<Rightarrow> LeaseToken option \<Rightarrow> string \<Rightarrow> (TaskRun \<Rightarrow> (TaskRun \<times> RunEventKind list) result)
    \<Rightarrow> TaskRun tx" where
  "apply_recorded h i token refusal command =
    tx_read (\<lambda>s. stored_run s i) (\<lambda>stored. case stored of
      None \<Rightarrow> tx_fail refusal
    | Some run \<Rightarrow> (case command run of
        Inl _ \<Rightarrow> tx_fail refusal
      | Inr (changed, kinds) \<Rightarrow>
          tx_bind (save_run h changed (run_status run) token) (\<lambda>saved.
          tx_then (tx_ensure saved refusal)
          (tx_then (record_events h i kinds) (tx_return changed)))))"

end
