(* ===== verification/Run_Coordination.thy ===== *)
theory Run_Coordination
  imports Run_Store
begin

text \<open>
  The coordination of the supervisors: \<^verbatim>\<open>src/infrastructure/runtime_store/coordination.rs\<close>. The
  heartbeats of leases and registrations, the registration of a supervisor and its handoff to
  another binary, the lease given back, and the processes of a session. The slot limits and the
  providers of a registration are settings the claims do not read and are left out, but for
  \<open>parallel\<close>.
\<close>

section \<open>Heartbeats\<close>

definition heartbeat_leases :: "Host \<Rightarrow> LeaseToken \<Rightarrow> nat tx" where
  "heartbeat_leases h token =
    tx_read (\<lambda>s. length (filter (\<lambda>l. lease_token l = token) (s_leases s))) (\<lambda>leases.
    tx_then (tx_write (\<lambda>s. s\<lparr>s_leases := map (\<lambda>l. if lease_token l = token
        then l\<lparr>lease_heartbeat_at := host_now h\<rparr> else l) (s_leases s)\<rparr>))
      (tx_return leases))"

definition update_registration ::
  "LeaseToken \<Rightarrow> (SupervisorRegistration \<Rightarrow> SupervisorRegistration) \<Rightarrow> RunStore \<Rightarrow> RunStore" where
  "update_registration token f s = s\<lparr>s_supervisors :=
     map (\<lambda>r. if sup_token r = token then f r else r) (s_supervisors s)\<rparr>"

text \<open>An \<open>UPDATE\<close> of the token's registration under a condition: whether a row was changed.\<close>

definition change_registration ::
  "LeaseToken \<Rightarrow> (SupervisorRegistration \<Rightarrow> bool) \<Rightarrow> (SupervisorRegistration \<Rightarrow> SupervisorRegistration)
    \<Rightarrow> bool tx" where
  "change_registration token condition f =
    tx_read (\<lambda>s. registration s token) (\<lambda>r. case option_filter condition r of
      None \<Rightarrow> tx_return False
    | Some _ \<Rightarrow> tx_then (tx_write (update_registration token f)) (tx_return True))"

definition refresh_registration :: "Host \<Rightarrow> LeaseToken \<Rightarrow> bool tx" where
  "refresh_registration h token =
    change_registration token (\<lambda>_. True) (\<lambda>r. r\<lparr>sup_heartbeat_at := host_now h\<rparr>)"

definition heartbeat :: "Host \<Rightarrow> LeaseToken \<Rightarrow> (bool \<times> nat) tx" where
  "heartbeat h token =
    tx_bind (refresh_registration h token) (\<lambda>registered.
    tx_bind (heartbeat_leases h token) (\<lambda>leases. tx_return (registered, leases)))"

section \<open>Registrations\<close>

definition new_registration :: "Host \<Rightarrow> LeaseToken \<Rightarrow> int \<Rightarrow> int \<Rightarrow> string \<Rightarrow> SupervisorRegistration" where
  "new_registration h token pid parallel binary_version =
    \<lparr>sup_token = token, sup_pid = pid, sup_parallel = parallel, sup_started_at = host_now h,
     sup_heartbeat_at = host_now h, sup_mode = None, sup_workspace_id = None,
     sup_binary_version = Some binary_version, sup_handoff_accepted = False,
     sup_handoff_binary = None, sup_handoff_requested_at = None, sup_auto_update = False\<rparr>"

definition register_supervisor ::
  "Host \<Rightarrow> LeaseToken \<Rightarrow> int \<Rightarrow> int \<Rightarrow> string \<Rightarrow> SupervisorRegistration tx" where
  "register_supervisor h token pid parallel binary_version =
    tx_then (tx_ensure (1 \<le> parallel) ''parallel must be at least 1'')
    (tx_read (\<lambda>s. registration s token) (\<lambda>known.
    tx_then (tx_ensure (known = None) ''supervisor token is already registered'')
    (tx_then (tx_write (\<lambda>s. s\<lparr>s_supervisors := s_supervisors s
        @ [new_registration h token pid parallel binary_version]\<rparr>))
      (tx_return (new_registration h token pid parallel binary_version)))))"

definition no_longer_registered :: "LeaseToken \<Rightarrow> string" where
  "no_longer_registered token =
    ''supervisor '' @ lease_token_as_str token @ '' is no longer registered''"

definition set_supervisor_mode :: "LeaseToken \<Rightarrow> string \<Rightarrow> string option \<Rightarrow> unit tx" where
  "set_supervisor_mode token mode workspace =
    tx_bind (change_registration token (\<lambda>_. True) (\<lambda>r. r\<lparr>sup_mode := Some mode, sup_workspace_id := workspace\<rparr>))
      (\<lambda>changed. tx_ensure changed (no_longer_registered token))"

definition remove_registration :: "LeaseToken \<Rightarrow> unit tx" where
  "remove_registration token =
    tx_write (\<lambda>s. s\<lparr>s_supervisors := filter (\<lambda>r. sup_token r \<noteq> token) (s_supervisors s)\<rparr>)"

definition deregister_supervisor :: "LeaseToken \<Rightarrow> bool tx" where
  "deregister_supervisor token =
    tx_read (\<lambda>s. registration s token) (\<lambda>known.
    tx_then (remove_registration token) (tx_return (known \<noteq> None)))"

text \<open>The stop is an event of the queue, of no run, and is not in the log of the runs.\<close>

definition prune_supervisor :: "LeaseToken \<Rightarrow> bool tx" where
  "prune_supervisor token =
    tx_read (\<lambda>s. registration s token) (\<lambda>known. case known of
      None \<Rightarrow> tx_return False
    | Some _ \<Rightarrow> tx_then (remove_registration token) (tx_return True))"

definition set_auto_update :: "LeaseToken \<Rightarrow> bool \<Rightarrow> unit tx" where
  "set_auto_update token enabled =
    tx_bind (change_registration token (\<lambda>_. True) (\<lambda>r. r\<lparr>sup_auto_update := enabled\<rparr>))
      (\<lambda>changed. tx_ensure changed (no_longer_registered token))"

section \<open>Handoffs\<close>

definition accept_handoff :: "LeaseToken \<Rightarrow> unit tx" where
  "accept_handoff token =
    tx_bind (change_registration token (\<lambda>_. True) (\<lambda>r. r\<lparr>sup_handoff_accepted := True\<rparr>))
      (\<lambda>changed. tx_ensure changed (no_longer_registered token))"

definition request_handoff :: "Host \<Rightarrow> LeaseToken \<Rightarrow> string \<Rightarrow> bool tx" where
  "request_handoff h token binary = change_registration token sup_handoff_accepted
     (\<lambda>r. r\<lparr>sup_handoff_binary := Some binary, sup_handoff_requested_at := Some (host_now h)\<rparr>)"

definition cancel_handoff :: "LeaseToken \<Rightarrow> string \<Rightarrow> bool tx" where
  "cancel_handoff token binary = change_registration token (\<lambda>r. sup_handoff_binary r = Some binary)
     (\<lambda>r. r\<lparr>sup_handoff_binary := None, sup_handoff_requested_at := None\<rparr>)"

definition take_handoff :: "LeaseToken \<Rightarrow> string \<Rightarrow> bool tx" where
  "take_handoff token binary = change_registration token (\<lambda>r. sup_handoff_binary r = Some binary)
     (\<lambda>r. r\<lparr>sup_handoff_binary := None, sup_handoff_requested_at := None, sup_handoff_accepted := False\<rparr>)"

definition handoff_request :: "RunStore \<Rightarrow> LeaseToken \<Rightarrow> string option" where
  "handoff_request s token = Option.bind (registration s token) sup_handoff_binary"

definition resume_registration :: "Host \<Rightarrow> LeaseToken \<Rightarrow> int \<Rightarrow> string \<Rightarrow> unit tx" where
  "resume_registration h token pid binary_version =
    tx_bind (change_registration token (\<lambda>r. sup_pid r = pid)
      (\<lambda>r. r\<lparr>sup_binary_version := Some binary_version, sup_heartbeat_at := host_now h,
        sup_handoff_accepted := True, sup_handoff_binary := None, sup_handoff_requested_at := None\<rparr>))
      (\<lambda>changed. tx_ensure changed (''supervisor '' @ lease_token_as_str token @ '' (pid '' @ show_int pid
        @ '') is no longer registered; nothing to hand off to''))"

text \<open>A supervisor asked to hand off starts nothing that would hold the handoff back.\<close>

definition refuse_on_handoff :: "LeaseToken \<Rightarrow> unit tx" where
  "refuse_on_handoff token =
    tx_read (\<lambda>s. handoff_request s token) (\<lambda>asked.
    tx_ensure (asked = None) ''the supervisor is asked to hand off'')"

section \<open>Leases given back\<close>

definition release_lease :: "Host \<Rightarrow> RunId \<Rightarrow> LeaseToken \<Rightarrow> unit tx" where
  "release_lease h i token =
    tx_bind (delete_lease i token) (\<lambda>deleted.
    tx_then (tx_ensure deleted ''run lease was lost'')
      (run_event h i LeaseReleased))"

definition backend_slots :: "RunStore \<Rightarrow> LeaseToken option \<Rightarrow> nat \<times> int option" where
  "backend_slots s token =
    (length (filter (\<lambda>l. token = None \<or> token = Some (lease_token l)) (s_leases s)),
     (case filter (\<lambda>r. token = None \<or> token = Some (sup_token r)) (s_supervisors s) of
        [] \<Rightarrow> None | rs \<Rightarrow> Some (sum_list (map sup_parallel rs))))"

section \<open>Processes of a session\<close>

definition assert_wrapper :: "RunId \<Rightarrow> int \<Rightarrow> unit tx" where
  "assert_wrapper i pid =
    tx_read (\<lambda>s. list_ex (\<lambda>p. process_run_id p = i \<and> process_role p = Wrapper \<and> process_pid p = pid
      \<and> process_exited_at p = None) (s_processes s)) (\<lambda>valid.
    tx_ensure valid ''wrapper is not the live owner of this run'')"

text \<open>The primary key of a process is its run and role.\<close>

definition insert_process :: "Host \<Rightarrow> RunId \<Rightarrow> ProcessRole \<Rightarrow> int \<Rightarrow> string \<Rightarrow> unit tx" where
  "insert_process h i role pid refusal =
    tx_read (\<lambda>s. list_ex (\<lambda>p. process_run_id p = i \<and> process_role p = role) (s_processes s)) (\<lambda>known.
    tx_then (tx_ensure (\<not> known) refusal)
      (tx_write (\<lambda>s. s\<lparr>s_processes := s_processes s @ [\<lparr>process_run_id = i, process_role = role,
        process_pid = pid, process_heartbeat_at = host_now h, process_exited_at = None,
        process_exit_code = None\<rparr>]\<rparr>)))"

definition update_processes ::
  "(RunProcess \<Rightarrow> bool) \<Rightarrow> (RunProcess \<Rightarrow> RunProcess) \<Rightarrow> unit tx" where
  "update_processes condition f = tx_write (\<lambda>s. s\<lparr>s_processes :=
     map (\<lambda>p. if condition p then f p else p) (s_processes s)\<rparr>)"

definition clear_processes :: "RunId \<Rightarrow> unit tx" where
  "clear_processes i = tx_write (\<lambda>s. s\<lparr>s_processes := filter (\<lambda>p. process_run_id p \<noteq> i) (s_processes s)\<rparr>)"

definition is_ok :: "'e + 'a \<Rightarrow> bool" where
  "is_ok r = (case r of Inl _ \<Rightarrow> False | Inr _ \<Rightarrow> True)"

definition register_resume_wrapper :: "Host \<Rightarrow> RunId \<Rightarrow> LeaseToken \<Rightarrow> int \<Rightarrow> unit tx" where
  "register_resume_wrapper h i token pid =
    tx_then (renew_lease h i token)
    (tx_read (\<lambda>s. supervised_run s i token) (\<lambda>run.
    tx_then (tx_ensure (case run of None \<Rightarrow> False
        | Some r \<Rightarrow> is_ok (run_check_resumable r) \<or> is_ok (run_check_reopenable r))
      ''run is not being resumed by this supervisor'')
    (tx_then (insert_process h i Wrapper pid ''wrapper is already registered; a resume may only launch once'')
      (run_event h i WrapperStarted))))"

definition register_resume_agent :: "Host \<Rightarrow> RunId \<Rightarrow> int \<Rightarrow> int \<Rightarrow> unit tx" where
  "register_resume_agent h i wrapper_pid agent_pid =
    tx_then (assert_wrapper i wrapper_pid)
    (tx_then (insert_process h i Agent agent_pid ''UNIQUE constraint failed: run_processes'')
      (run_event h i AgentStarted))"

definition clear_lost_session :: "RunId \<Rightarrow> Host \<Rightarrow> LeaseToken \<Rightarrow> int option \<Rightarrow> unit tx" where
  "clear_lost_session i h token lost =
    tx_then (renew_lease h i token)
    (tx_read (\<lambda>s. (supervised_run s i token, find (\<lambda>p. process_run_id p = i \<and> process_role p = Wrapper
        \<and> process_exited_at p = None) (s_processes s))) (\<lambda>(run, wrapper).
    tx_then (tx_ensure (case run of None \<Rightarrow> False | Some r \<Rightarrow> is_ok (run_check_reopenable r))
      ''run is not running under this supervisor'')
    (tx_then (tx_ensure (case wrapper of None \<Rightarrow> True | Some p \<Rightarrow> Some (process_pid p) = lost)
      (''a wrapper of run '' @ run_id_as_str i @ '' registered meanwhile''))
      (clear_processes i))))"

definition session_reopened :: "Host \<Rightarrow> RunId \<Rightarrow> LeaseToken \<Rightarrow> string \<Rightarrow> unit tx" where
  "session_reopened h i token workspace =
    tx_then (renew_lease h i token)
    (tx_then (apply_run h i (Some token) ''run is not running under this supervisor''
      (\<lambda>run. run_reopen_workspace run workspace))
    (tx_then (run_event h i WorkspaceCreated) (run_event h i AutoRepaired)))"

definition register_wrapper :: "Host \<Rightarrow> RunId \<Rightarrow> LeaseToken \<Rightarrow> int \<Rightarrow> unit tx" where
  "register_wrapper h i token pid =
    tx_then (renew_lease h i token)
    (tx_read (\<lambda>s. supervised_run s i token) (\<lambda>run.
    tx_then (tx_ensure (case run of None \<Rightarrow> False | Some r \<Rightarrow> is_ok (run_check_ready_for_wrapper r))
      ''run is not ready for its wrapper'')
    (tx_then (insert_process h i Wrapper pid ''wrapper is already registered; a run may only launch once'')
      (run_event h i WrapperStarted))))"

definition register_agent :: "Host \<Rightarrow> RunId \<Rightarrow> int \<Rightarrow> int \<Rightarrow> unit tx" where
  "register_agent h i wrapper_pid agent_pid =
    tx_then (assert_wrapper i wrapper_pid)
    (tx_then (insert_process h i Agent agent_pid ''UNIQUE constraint failed: run_processes'')
    (tx_then (apply_run h i None ''run is not starting'' run_mark_running)
      (run_event h i AgentStarted)))"

definition register_turn_agent :: "Host \<Rightarrow> RunId \<Rightarrow> int \<Rightarrow> int \<Rightarrow> unit tx" where
  "register_turn_agent h i wrapper_pid agent_pid =
    tx_then (assert_wrapper i wrapper_pid)
    (tx_read (\<lambda>s. list_ex (\<lambda>p. process_run_id p = i \<and> process_role p = Agent \<and> process_exited_at p = None)
      (s_processes s)) (\<lambda>known.
    tx_then (update_processes (\<lambda>p. process_run_id p = i \<and> process_role p = Agent \<and> process_exited_at p = None)
      (\<lambda>p. p\<lparr>process_pid := agent_pid, process_heartbeat_at := host_now h\<rparr>))
      (tx_ensure known ''the session's first agent is not registered'')))"

definition heartbeat_wrapper :: "Host \<Rightarrow> RunId \<Rightarrow> int \<Rightarrow> unit tx" where
  "heartbeat_wrapper h i pid =
    tx_then (assert_wrapper i pid)
      (update_processes (\<lambda>p. process_run_id p = i \<and> process_exited_at p = None)
        (\<lambda>p. p\<lparr>process_heartbeat_at := host_now h\<rparr>))"

definition wrapper_exited :: "Host \<Rightarrow> RunId \<Rightarrow> int \<Rightarrow> int \<Rightarrow> unit tx" where
  "wrapper_exited h i pid exit_code =
    tx_then (assert_wrapper i pid)
    (tx_then (update_processes (\<lambda>p. process_run_id p = i \<and> process_exited_at p = None)
      (\<lambda>p. p\<lparr>process_exited_at := Some (host_now h), process_exit_code := Some exit_code,
        process_heartbeat_at := host_now h\<rparr>))
      (run_event h i SessionExited))"

end
