(* ===== verification/Run_Transitions.thy ===== *)
theory Run_Transitions
  imports Run_Coordination
begin

text \<open>
  The runs saved as they move: \<^verbatim>\<open>src/infrastructure/runtime_store/transitions.rs\<close>, with the
  transitions that come with their events (\<^verbatim>\<open>src/domain/run/recorded.rs\<close>). Claim, provisioning,
  supervision, validation, parking and landing, each the transaction its handler is, with the asks
  and the holds it settles.
\<close>

section \<open>Transitions with their events\<close>

type_synonym recorded = "(TaskRun \<times> RunEventKind list) result"

definition recording :: "RunEventKind \<Rightarrow> TaskRun result \<Rightarrow> recorded" where
  "recording kind r = and_then r (\<lambda>run. Inr (run, [kind]))"

definition end_session :: "TaskRun \<Rightarrow> int option \<Rightarrow> bool \<Rightarrow> recorded" where
  "end_session run exit_code receipt = recording SupervisionFinished (run_finish_session run exit_code receipt)"

record Validation =
  val_accepted :: bool
  val_result_commit :: "CommitSha option"
  val_reason :: "string option"
  val_evidence_missing :: "string list"
  val_spike_result_missing :: "string list"
  val_scope_violation :: "string list"
  val_already_satisfied :: bool

definition Validation_resumable :: "Validation \<Rightarrow> bool" where
  "Validation_resumable v \<longleftrightarrow> val_evidence_missing v \<noteq> [] \<or> val_spike_result_missing v \<noteq> []
     \<or> val_scope_violation v \<noteq> []"

definition validated :: "TaskRun \<Rightarrow> Validation \<Rightarrow> TaskRun result" where
  "validated run v =
    (if val_already_satisfied v
     then and_then (require_status run [RunStatus.Validating] ''claim already satisfied'') (\<lambda>_. Inr run)
     else if val_accepted v then (case val_result_commit v of
         Some commit \<Rightarrow> run_accept run commit
       | None \<Rightarrow> Inl (InvalidCommit ''accepted result commit''))
     else run_reject run (val_result_commit v) (val_reason v) (Validation_resumable v))"

definition record_validation :: "TaskRun \<Rightarrow> Validation \<Rightarrow> recorded" where
  "record_validation run v = and_then (validated run v) (\<lambda>run.
     Inr (run, ValidationFinished #
       (if run_status run = RunStatus.NeedsSession
        then [if val_scope_violation v \<noteq> [] then ScopeViolation else EvidenceMissing] else [])))"

definition record_satisfied_close :: "TaskRun \<Rightarrow> recorded" where
  "record_satisfied_close run = recording RunSatisfiedClosed (run_close_satisfied run)"

definition record_satisfied_decision :: "TaskRun \<Rightarrow> string \<Rightarrow> recorded" where
  "record_satisfied_decision run reason = recording RunSatisfiedDecided (run_decide_satisfied run reason)"

definition record_landing_decision :: "TaskRun \<Rightarrow> RunStatus \<Rightarrow> string \<Rightarrow> recorded" where
  "record_landing_decision run to reason = recording LandingDecided (run_decide_landing run to reason)"

definition record_live_park :: "TaskRun \<Rightarrow> string \<Rightarrow> recorded" where
  "record_live_park run reason = recording RecoveryParked (run_park_live run reason)"

definition record_replan_park :: "TaskRun \<Rightarrow> string \<Rightarrow> recorded" where
  "record_replan_park run reason = recording ReplanParked (run_park_for_replan run reason)"

definition record_hold_park :: "TaskRun \<Rightarrow> string \<Rightarrow> recorded" where
  "record_hold_park run reason = recording HoldParked (run_park_for_hold run reason)"

definition record_e2e_park :: "TaskRun \<Rightarrow> string \<Rightarrow> recorded" where
  "record_e2e_park run reason = recording RunE2eFailed (run_park_after_e2e run reason)"

definition record_recheck_park :: "TaskRun \<Rightarrow> string \<Rightarrow> recorded" where
  "record_recheck_park run reason = recording LandingRecheckFailed (run_park_after_recheck run reason)"

section \<open>Asks and stalled detections\<close>

definition unclosed_ask :: "RunId \<Rightarrow> AskKind \<Rightarrow> StoredAsk \<Rightarrow> bool" where
  "unclosed_ask i kind a \<longleftrightarrow> ask_run_id a = Some i \<and> ask_kind a = kind \<and> ask_closed_at a = None"

text \<open>An open ask gets the answer from the runtime; an answered one is closed as applied.\<close>

definition close_by_runtime :: "string \<Rightarrow> int \<Rightarrow> StoredAsk \<Rightarrow> StoredAsk" where
  "close_by_runtime answer now a =
    a\<lparr>ask_answer := (if ask_answer a = None then Some answer else ask_answer a), ask_closed_at := Some now\<rparr>"

definition close_asks_in :: "Host \<Rightarrow> RunId \<Rightarrow> AskKind \<Rightarrow> string \<Rightarrow> unit tx" where
  "close_asks_in h i kind answer = tx_write (\<lambda>s. s\<lparr>
     s_asks := map (\<lambda>a. if unclosed_ask i kind a then close_by_runtime answer (host_now h) a else a) (s_asks s),
     s_log := s_log s @ map (\<lambda>a. (i, if ask_answer a = None then AskAnswered else AskClosed))
       (filter (unclosed_ask i kind) (s_asks s))\<rparr>)"

text \<open>The landing or close question was asked of the work before a park.\<close>

definition close_landing_asks :: "Host \<Rightarrow> RunId \<Rightarrow> string \<Rightarrow> unit tx" where
  "close_landing_asks h i answer =
    tx_then (close_asks_in h i ApproveLanding answer) (close_asks_in h i ApproveClose answer)"

definition end_stalled_detections :: "Host \<Rightarrow> RunId \<Rightarrow> string \<Rightarrow> unit tx" where
  "end_stalled_detections h i answer =
    tx_then (close_asks_in h i Stalled answer)
      (record_events h i (replicate (host_stalled h i) StallResolved))"

definition STALL_ABANDONED_CLOSED :: string where
  "STALL_ABANDONED_CLOSED = ''the supervisor gave up on the run; closed by the runtime''"

definition STALL_RECOVERED_CLOSED :: string where
  "STALL_RECOVERED_CLOSED = ''the run was recovered; closed by the runtime''"

section \<open>Claim and provisioning\<close>

text \<open>The claim of the queue with the run's supervisor and lease. The insertion of the run meets the
  unique indexes. The outer \<open>None\<close> is \<open>claim_task\<close>'s.\<close>

definition lease_claimed :: "Host \<Rightarrow> LeaseToken \<Rightarrow> TaskRun option \<Rightarrow> TaskRun option tx" where
  "lease_claimed h token claimed = (case claimed of
     None \<Rightarrow> tx_return None
   | Some run \<Rightarrow>
       tx_read (holder_pid h token) (\<lambda>pid.
       tx_then (set_supervisor (run_id run) token)
       (tx_then (insert_lease (run_id run) token pid (host_now h))
       (tx_then (run_event h (run_id run) LeaseAcquired) (tx_return (Some run))))))"

definition claim_for_supervisor ::
  "Host \<Rightarrow> LeaseToken \<Rightarrow> ClaimFacts \<Rightarrow> RunStore \<Rightarrow> (RunStore \<times> TaskRun option) stored option" where
  "claim_for_supervisor h token cf s = map_option (\<lambda>claim.
     and_then claim (\<lambda>(q, claimed).
     if run_indexes_ok (q_runs q) then lease_claimed h token claimed (s\<lparr>s_queue := q\<rparr>)
     else Inl (Refused ''UNIQUE constraint failed: task_runs''))) (claim_task cf (s_queue s))"

definition abandon_run :: "Host \<Rightarrow> RunId \<Rightarrow> LeaseToken \<Rightarrow> string \<Rightarrow> TaskRun tx" where
  "abandon_run h i token message =
    tx_bind (apply_run h i None ''run does not exist'' (\<lambda>run. run_abandon run message)) (\<lambda>run.
    tx_bind (delete_lease i token) (\<lambda>_.
    tx_then (run_event h i RuntimeError)
    (tx_then (end_stalled_detections h i STALL_ABANDONED_CLOSED) (tx_return run))))"

definition plan_run :: "Host \<Rightarrow> RunId \<Rightarrow> LeaseToken \<Rightarrow> RunPlan \<Rightarrow> unit tx" where
  "plan_run h i token plan =
    tx_then (renew_lease h i token)
    (tx_then (apply_run h i (Some token) ''run cannot be provisioned twice''
      (\<lambda>run. run_start_provisioning run plan))
      (run_event h i RunPlanned))"

definition workspace_created :: "Host \<Rightarrow> RunId \<Rightarrow> LeaseToken \<Rightarrow> string \<Rightarrow> unit tx" where
  "workspace_created h i token workspace =
    tx_then (renew_lease h i token)
    (tx_then (apply_run h i (Some token) ''workspace cannot be attached to this run''
      (\<lambda>run. run_attach_workspace run workspace))
      (run_event h i WorkspaceCreated))"

definition record_runtime_error :: "Host \<Rightarrow> RunId \<Rightarrow> string \<Rightarrow> unit tx" where
  "record_runtime_error h i message =
    tx_then (apply_run h i None ''run does not exist'' (\<lambda>run. run_abandon run message))
      (run_event h i RuntimeError)"

section \<open>Supervision and validation\<close>

definition under_lease ::
  "Host \<Rightarrow> RunId \<Rightarrow> LeaseToken \<Rightarrow> string \<Rightarrow> (TaskRun \<Rightarrow> recorded) \<Rightarrow> TaskRun tx" where
  "under_lease h i token refusal command =
    tx_then (renew_lease h i token) (apply_recorded h i (Some token) refusal command)"

definition finish_supervision :: "Host \<Rightarrow> RunId \<Rightarrow> LeaseToken \<Rightarrow> bool \<Rightarrow> TaskRun tx" where
  "finish_supervision h i token receipt =
    tx_then (renew_lease h i token)
    (tx_read (\<lambda>s. Option.bind (find (\<lambda>p. process_run_id p = i \<and> process_role p = Wrapper
        \<and> process_exited_at p \<noteq> None) (s_processes s)) process_exit_code) (\<lambda>code. case code of
      None \<Rightarrow> tx_fail ''wrapper has not reported session exit''
    | Some code \<Rightarrow> apply_recorded h i (Some token) ''run is not owned by this supervisor''
        (\<lambda>run. end_session run (Some code) receipt)))"

definition finish_lost_session :: "Host \<Rightarrow> RunId \<Rightarrow> LeaseToken \<Rightarrow> int \<Rightarrow> bool \<Rightarrow> TaskRun tx" where
  "finish_lost_session h i token exit_code receipt =
    under_lease h i token ''run is not owned by this supervisor''
      (\<lambda>run. end_session run (Some exit_code) receipt)"

definition finish_supervision_live :: "Host \<Rightarrow> RunId \<Rightarrow> LeaseToken \<Rightarrow> TaskRun tx" where
  "finish_supervision_live h i token =
    under_lease h i token ''run is not owned by this supervisor'' (\<lambda>run. end_session run None True)"

definition restart_validation :: "Host \<Rightarrow> RunId \<Rightarrow> LeaseToken \<Rightarrow> TaskRun tx" where
  "restart_validation h i token =
    tx_then (renew_lease h i token)
      (apply_run h i (Some token) ''run is not awaiting integration under this supervisor''
        run_restart_validation)"

definition finish_validation :: "Host \<Rightarrow> RunId \<Rightarrow> LeaseToken \<Rightarrow> Validation \<Rightarrow> TaskRun tx" where
  "finish_validation h i token v =
    under_lease h i token ''run is not validating under this supervisor'' (\<lambda>run. record_validation run v)"

definition switch_provider :: "Host \<Rightarrow> RunId \<Rightarrow> LeaseToken \<Rightarrow> Worker \<Rightarrow> unit tx" where
  "switch_provider h i token worker =
    tx_then (renew_lease h i token)
    (tx_then (tx_write (update_run_row i (\<lambda>run. run_running_on run worker)))
      (run_event h i ProviderSwitched))"

section \<open>Decisions\<close>

definition leased_refusal :: "RunId \<Rightarrow> string" where
  "leased_refusal i = ''run '' @ run_id_as_str i @ '' is leased''"

definition unleased :: "RunId \<Rightarrow> string \<Rightarrow> unit tx" where
  "unleased i refusal = tx_read (\<lambda>s. run_leased s i) (\<lambda>leased. tx_ensure (\<not> leased) refusal)"

definition run_is_not :: "RunId \<Rightarrow> string \<Rightarrow> string" where
  "run_is_not i what = ''run '' @ run_id_as_str i @ '' is not '' @ what"

definition decide_landing :: "Host \<Rightarrow> RunId \<Rightarrow> RunStatus \<Rightarrow> string \<Rightarrow> TaskRun tx" where
  "decide_landing h i to reason =
    tx_then (unleased i (leased_refusal i))
      (apply_recorded h i None (run_is_not i ''awaiting integration'')
        (\<lambda>run. record_landing_decision run to reason))"

text \<open>The guard of a run's task, which must be there.\<close>

definition check_run_step :: "RunId \<Rightarrow> GuardedStep \<Rightarrow> unit tx" where
  "check_run_step i step = tx_read (\<lambda>s. s) (\<lambda>s. case stored_run s i of
     None \<Rightarrow> tx_fail (run_missing i)
   | Some run \<Rightarrow> tx_check (check_task_step (s_queue s) (run_task_id run) step))"

definition close_satisfied :: "Host \<Rightarrow> RunId \<Rightarrow> LeaseToken option \<Rightarrow> (Task \<times> TaskRun) tx" where
  "close_satisfied h i token =
    tx_then (case token of
        Some token \<Rightarrow> renew_lease h i token
      | None \<Rightarrow> unleased i (leased_refusal i))
    (tx_then (check_run_step i GuardedStep.Integrate)
    (tx_bind (apply_recorded h i None (run_is_not i ''validating'') record_satisfied_close) (\<lambda>run.
    tx_then (case token of
        Some token \<Rightarrow> tx_bind (delete_lease i token) (\<lambda>_. run_event h i LeaseReleased)
      | None \<Rightarrow> tx_return ())
    (tx_bind (tx_queue (\<lambda>q. complete_task q (run_task_id run) i (host_stamp h))) (\<lambda>task.
    tx_return (task, run))))))"

datatype TaskMove = MoveReady | MoveCancel

definition TaskMove_action :: "TaskMove \<Rightarrow> TaskAction" where
  "TaskMove_action m = (case m of MoveReady \<Rightarrow> TaskAction.Ready | MoveCancel \<Rightarrow> TaskAction.Cancel)"

definition decide_satisfied ::
  "Host \<Rightarrow> TransitionFacts \<Rightarrow> RunId \<Rightarrow> string \<Rightarrow> TaskMove \<Rightarrow> TaskRun tx" where
  "decide_satisfied h facts i reason to =
    tx_then (unleased i (leased_refusal i))
    (tx_bind (apply_recorded h i None (run_is_not i ''validating'')
      (\<lambda>run. record_satisfied_decision run reason)) (\<lambda>run.
    tx_bind (tx_queue (\<lambda>q. apply_transition facts q (run_task_id run) (TaskMove_action to) (host_stamp h)))
      (\<lambda>_. tx_return run)))"

section \<open>Parking\<close>

definition park_live :: "Host \<Rightarrow> RunId \<Rightarrow> LeaseToken \<Rightarrow> string \<Rightarrow> TaskRun tx" where
  "park_live h i token reason =
    under_lease h i token ''run is not running under this supervisor'' (\<lambda>run. record_live_park run reason)"

definition park_e2e_failed :: "Host \<Rightarrow> RunId \<Rightarrow> LeaseToken \<Rightarrow> string \<Rightarrow> TaskRun tx" where
  "park_e2e_failed h i token reason =
    under_lease h i token ''run is not awaiting integration under this supervisor''
      (\<lambda>run. record_e2e_park run reason)"

text \<open>A lease that goes with its park.\<close>

definition give_back :: "Host \<Rightarrow> RunId \<Rightarrow> LeaseToken \<Rightarrow> unit tx" where
  "give_back h i token =
    tx_bind (delete_lease i token) (\<lambda>deleted.
    tx_then (tx_ensure deleted ''run lease was lost'') (run_event h i LeaseReleased))"

definition move_operation ::
  "Host \<Rightarrow> ReplanFacts \<Rightarrow> ReplanId \<Rightarrow> int \<Rightarrow> ReplanMove \<Rightarrow> ReplanOperation tx" where
  "move_operation h facts op generation step = tx_queue (\<lambda>q.
     and_then (move_in facts (q_operations q) op generation step (host_now h)) (\<lambda>(ops, moved, _).
     Inr (q\<lparr>q_operations := ops\<rparr>, moved)))"

definition settle_replan ::
  "Host \<Rightarrow> ReplanFacts \<Rightarrow> ReplanId \<Rightarrow> int \<Rightarrow> ReplanMove \<Rightarrow> LeaseToken option
    \<Rightarrow> (ReplanOperation \<times> TaskRun) tx" where
  "settle_replan h facts op generation step token =
    tx_bind (move_operation h facts op generation step) (\<lambda>parked.
    let i = op_run_id parked;
        park = (\<lambda>run. record_replan_park run (move_reason step));
        refusal = ''run cannot be parked for its replanning''
    in tx_bind (case token of
        Some token \<Rightarrow> tx_bind (under_lease h i token refusal park) (\<lambda>run.
          tx_then (give_back h i token) (tx_return run))
      | None \<Rightarrow> tx_then (unleased i (leased_refusal i @ '': its holder parks it''))
          (apply_recorded h i None refusal park)) (\<lambda>run.
      tx_then (close_landing_asks h i (''the run was parked for replan operation ''
          @ show_int (replan_id_as_i64 op) @ ''; this question no longer applies to it''))
        (tx_return (parked, run))))"

definition park_for_hold ::
  "Host \<Rightarrow> HoldId \<Rightarrow> RunId \<Rightarrow> LeaseToken \<Rightarrow> string \<Rightarrow> TaskRun option tx" where
  "park_for_hold h hold i token reason = tx_commit_some (
    tx_bind (settle_open hold (host_now h)) (\<lambda>settled.
    if \<not> settled then tx_return None
    else tx_bind (under_lease h i token ''run cannot be parked for its task's hold''
        (\<lambda>run. record_hold_park run reason)) (\<lambda>run.
      tx_then (give_back h i token)
      (tx_then (close_landing_asks h i (''the run was parked for the hold ''
          @ show_int (hold_id_as_i64 hold) @ '' of its task; this question no longer applies to it''))
        (tx_return (Some run))))))"

definition rest_fenced :: "Host \<Rightarrow> RunId \<Rightarrow> LeaseToken \<Rightarrow> string \<Rightarrow> TaskRun option tx" where
  "rest_fenced h i token reason = tx_commit_some (
    tx_then (renew_lease h i token)
    (tx_read (\<lambda>s. s) (\<lambda>s. case stored_run s i of
      None \<Rightarrow> tx_fail (run_missing i)
    | Some run \<Rightarrow> (case TaskGuards_fence \<lparr>tg_replan = guard_of (q_operations (s_queue s)) (run_task_id run),
          tg_hold = hold_of (s_queue s) (run_task_id run)\<rparr> of
        None \<Rightarrow> tx_return None
      | Some fence \<Rightarrow>
          tx_bind (apply_recorded h i (Some token) ''run cannot rest for its task's fence''
            (\<lambda>run. case fence of
               FenceReplan _ \<Rightarrow> record_replan_park run reason
             | FenceHold _ \<Rightarrow> record_hold_park run reason)) (\<lambda>run.
          tx_then (give_back h i token)
          (tx_then (close_landing_asks h i (''the run rested out of its slot for the ''
              @ (case fence of FenceReplan _ \<Rightarrow> ''replan operation'' | FenceHold _ \<Rightarrow> ''hold'')
              @ '' that fences its task; this question no longer applies to it''))
            (tx_return (Some run))))))))"

definition settle_hold_at_rest :: "Host \<Rightarrow> HoldId \<Rightarrow> RunId \<Rightarrow> RunStatus \<Rightarrow> bool tx" where
  "settle_hold_at_rest h hold i status = tx_read (\<lambda>s. s) (\<lambda>s. case stored_run s i of
     None \<Rightarrow> tx_return False
   | Some run \<Rightarrow>
       if run_status run \<noteq> status
          \<or> map_option hg_hold (hold_of (s_queue s) (run_task_id run)) \<noteq> Some hold
       then tx_return False
       else settle_at_rest_in h i True)"

definition release_for_hold :: "Host \<Rightarrow> HoldId \<Rightarrow> RunId \<Rightarrow> LeaseToken \<Rightarrow> bool tx" where
  "release_for_hold h hold i token =
    tx_then (give_back h i token)
    (tx_read (\<lambda>s. s) (\<lambda>s. case stored_run s i of
      None \<Rightarrow> tx_fail (run_missing i)
    | Some run \<Rightarrow>
        if map_option hg_hold (hold_of (s_queue s) (run_task_id run)) = Some hold \<and> s_settled s hold \<noteq> None
        then tx_return True
        else settle_at_rest_in h i True))"

definition park_rechecked :: "Host \<Rightarrow> RunId \<Rightarrow> LeaseToken option \<Rightarrow> string \<Rightarrow> TaskRun option tx" where
  "park_rechecked h i token reason = tx_read (\<lambda>s. s) (\<lambda>s.
    if map_option lease_token (lease_of s i) \<noteq> token
       \<or> map_option run_status (stored_run s i) \<noteq> Some RunStatus.AwaitingIntegration
    then tx_return None
    else tx_bind (apply_run h i None (run_is_not i ''awaiting integration'')
        (\<lambda>run. run_park_after_recheck run reason)) (\<lambda>run.
      tx_then (case token of
          Some token \<Rightarrow> tx_bind (delete_lease i token) (\<lambda>_. run_event h i LeaseReleased)
        | None \<Rightarrow> tx_return ())
      (tx_then (record_events h i [LandingRecheckFailed]) (tx_return (Some run)))))"

section \<open>The landing\<close>

definition begin_e2e :: "Host \<Rightarrow> RunId \<Rightarrow> LeaseToken \<Rightarrow> bool \<Rightarrow> unit tx" where
  "begin_e2e h i token refused_by_handoff =
    tx_then (if refused_by_handoff then refuse_on_handoff token else tx_return ())
      (run_event h i RunE2eStarted)"

text \<open>Who lands: a person's command, by its own pid, or a supervisor that is to be live.\<close>

datatype SlotHolder = Command int | LiveSupervisor

definition registration_live :: "Host \<Rightarrow> LeaseToken \<Rightarrow> unit tx" where
  "registration_live h token = tx_read (\<lambda>s. registration s token) (\<lambda>r. case r of
     None \<Rightarrow> tx_fail ''the supervisor that asked is not registered''
   | Some r \<Rightarrow> tx_ensure (\<not> (host_now h - sup_heartbeat_at r > HEARTBEAT_TIMEOUT_SECS))
       ''the registration of the supervisor that asked has expired'')"

text \<open>\<open>INSERT \<dots> ON CONFLICT DO UPDATE \<dots> WHERE token\<close>: the lease is the token's already or nobody's.\<close>

definition take_landing_lease :: "Host \<Rightarrow> RunId \<Rightarrow> LeaseToken \<Rightarrow> int \<Rightarrow> unit tx" where
  "take_landing_lease h i token pid =
    tx_read (\<lambda>s. lease_of s i) (\<lambda>lease. case lease of
      None \<Rightarrow> insert_lease i token pid (host_now h)
    | Some l \<Rightarrow> if lease_token l = token
        then tx_write (\<lambda>s. s\<lparr>s_leases := map (\<lambda>l. if lease_run_id l = i \<and> lease_token l = token
          then l\<lparr>lease_pid := pid, lease_heartbeat_at := host_now h\<rparr> else l) (s_leases s)\<rparr>)
        else tx_fail ''run is still leased'')"

definition landing_now :: "RunStore \<Rightarrow> RunId option" where
  "landing_now s = map_option run_id (find (\<lambda>r. run_status r = RunStatus.Integrating) (q_runs (s_queue s)))"

definition begin_integration_then ::
  "Host \<Rightarrow> RunId \<Rightarrow> LeaseToken \<Rightarrow> bool \<Rightarrow> SlotHolder option \<Rightarrow> 'a tx \<Rightarrow> (TaskRun \<times> 'a) tx" where
  "begin_integration_then h i token refused_by_handoff holder continue =
    tx_then (if holder = Some LiveSupervisor then registration_live h token else tx_return ())
    (tx_then (if refused_by_handoff then refuse_on_handoff token else tx_return ())
    (tx_read landing_now (\<lambda>busy.
    tx_then (tx_ensure (busy = None) (case busy of
        Some other \<Rightarrow> if other = i then ''run '' @ run_id_as_str i @ '' is already integrating''
          else ''run '' @ run_id_as_str other @ '' is integrating; one run lands at a time''
      | None \<Rightarrow> ''''))
    (tx_then (check_run_step i GuardedStep.Integrate)
    (tx_bind (apply_run h i None (''run '' @ run_id_as_str i
        @ '': only a run awaiting integration or a session can be integrated'') run_begin_integration) (\<lambda>run.
    tx_read (\<lambda>s. case holder of Some (Command pid) \<Rightarrow> pid | _ \<Rightarrow> holder_pid h token s) (\<lambda>pid.
    tx_then (take_landing_lease h i token pid)
    (tx_then (run_event h i IntegrationStarted)
    (tx_bind continue (\<lambda>done. tx_return (run, done)))))))))))"

definition begin_integration :: "Host \<Rightarrow> RunId \<Rightarrow> LeaseToken \<Rightarrow> TaskRun tx" where
  "begin_integration h i token =
    tx_bind (begin_integration_then h i token True None (tx_return ())) (\<lambda>(run, _). tx_return run)"

definition begin_integration_over_handoff :: "Host \<Rightarrow> RunId \<Rightarrow> LeaseToken \<Rightarrow> TaskRun tx" where
  "begin_integration_over_handoff h i token =
    tx_bind (begin_integration_then h i token False None (tx_return ())) (\<lambda>(run, _). tx_return run)"

definition leave_integration ::
  "Host \<Rightarrow> RunId \<Rightarrow> LeaseToken \<Rightarrow> RunEventKind \<Rightarrow> (TaskRun \<Rightarrow> TaskRun result) \<Rightarrow> TaskRun tx" where
  "leave_integration h i token kind command =
    tx_then (renew_lease h i token)
    (tx_bind (apply_run h i None (run_is_not i ''integrating'') command) (\<lambda>run.
    tx_bind (delete_lease i token) (\<lambda>_.
    tx_then (run_event h i kind)
    (tx_then (run_event h i LeaseReleased) (tx_return run)))))"

definition defer_integration :: "Host \<Rightarrow> RunId \<Rightarrow> LeaseToken \<Rightarrow> string \<Rightarrow> TaskRun tx" where
  "defer_integration h i token reason =
    leave_integration h i token IntegrationDeferred (\<lambda>run. run_defer_integration run reason)"

definition hold_integration :: "Host \<Rightarrow> RunId \<Rightarrow> LeaseToken \<Rightarrow> string \<Rightarrow> TaskRun tx" where
  "hold_integration h i token reason =
    leave_integration h i token IntegrationHeld (\<lambda>run. run_hold_integration run reason)"

definition fail_integration :: "Host \<Rightarrow> RunId \<Rightarrow> LeaseToken \<Rightarrow> string \<Rightarrow> TaskRun tx" where
  "fail_integration h i token reason =
    leave_integration h i token IntegrationFailed (\<lambda>run. run_fail_integration run reason)"

definition abort_integration :: "Host \<Rightarrow> RunId \<Rightarrow> LeaseToken \<Rightarrow> RunStatus \<Rightarrow> string \<Rightarrow> TaskRun tx" where
  "abort_integration h i token revert_to message =
    leave_integration h i token IntegrationError (\<lambda>run. run_abort_integration run revert_to message)"

definition hand_over_integration :: "Host \<Rightarrow> RunId \<Rightarrow> LeaseToken \<Rightarrow> RunStatus \<Rightarrow> TaskRun tx" where
  "hand_over_integration h i token revert_to =
    tx_then (renew_lease h i token)
    (tx_bind (apply_run h i None (run_is_not i ''integrating'')
      (\<lambda>run. run_hand_over_integration run revert_to)) (\<lambda>run.
    tx_then (run_event h i IntegrationHandedOver) (tx_return run)))"

definition land_run :: "Host \<Rightarrow> RunId \<Rightarrow> LeaseToken \<Rightarrow> CommitSha \<Rightarrow> (Task \<times> TaskRun) tx" where
  "land_run h i token commit =
    tx_then (renew_lease h i token)
    (tx_bind (apply_run h i None (run_is_not i ''integrating'') (\<lambda>run. run_finish_integration run commit)) (\<lambda>run.
    tx_bind (delete_lease i token) (\<lambda>_.
    tx_then (run_event h i RunIntegrated)
    (tx_then (run_event h i LeaseReleased)
    (tx_bind (tx_queue (\<lambda>q. complete_task q (run_task_id run) i (host_stamp h))) (\<lambda>task.
    tx_return (task, run)))))))"

text \<open>The same landing sent again is answered as it was recorded.\<close>

definition finish_integration :: "Host \<Rightarrow> RunId \<Rightarrow> LeaseToken \<Rightarrow> CommitSha \<Rightarrow> (Task \<times> TaskRun) tx" where
  "finish_integration h i token commit = tx_read (\<lambda>s. s) (\<lambda>s.
    case option_filter (\<lambda>r. run_status r = RunStatus.Integrated \<and> run_result_commit r = Some commit)
        (stored_run s i) of
      Some landed \<Rightarrow>
        tx_bind (tx_check (read_task (s_queue s) (run_task_id landed))) (\<lambda>task. tx_return (task, landed))
    | None \<Rightarrow> land_run h i token commit)"

section \<open>Cleaning up\<close>

definition record_cleanup_failure :: "Host \<Rightarrow> RunId \<Rightarrow> string \<Rightarrow> unit tx" where
  "record_cleanup_failure h i message =
    tx_then (apply_run h i None ''run does not exist'' (\<lambda>run. run_record_cleanup_failure run message))
      (run_event h i CleanupFailed)"

definition not_at_rest :: string where
  "not_at_rest = ''run is not awaiting integration, a session or an already_satisfied claim with an open workspace under this supervisor''"

definition workspace_closed :: "Host \<Rightarrow> RunId \<Rightarrow> LeaseToken \<Rightarrow> TaskRun tx" where
  "workspace_closed h i token =
    tx_then (renew_lease h i token)
    (tx_bind (apply_run h i (Some token) not_at_rest (\<lambda>run. run_workspace_closed run (host_now h))) (\<lambda>run.
    tx_then (run_event h i WorkspaceClosed) (tx_return run)))"

definition cleanup_failed :: "Host \<Rightarrow> RunId \<Rightarrow> LeaseToken \<Rightarrow> string \<Rightarrow> TaskRun tx" where
  "cleanup_failed h i token message =
    tx_then (renew_lease h i token)
    (tx_bind (apply_run h i (Some token) not_at_rest (\<lambda>run. run_record_close_failure run message)) (\<lambda>run.
    tx_then (run_event h i CleanupFailed) (tx_return run)))"

definition record_workspace_closed :: "Host \<Rightarrow> RunId \<Rightarrow> string \<Rightarrow> unit tx" where
  "record_workspace_closed h i workspace = tx_read (\<lambda>s. stored_run s i) (\<lambda>stored.
    tx_then (case stored of
        None \<Rightarrow> tx_return ()
      | Some run \<Rightarrow>
          tx_bind (tx_check (domain (run_record_closed_workspace run workspace (host_now h)))) (\<lambda>changed.
          tx_then (save_run h changed (run_status run) None) (tx_return ())))
      (run_event h i WorkspaceClosed))"

end
