(* ===== verification/Run_Recovery.thy ===== *)
theory Run_Recovery
  imports Run_Transitions
begin

text \<open>
  Runs taken over and brought back: \<^verbatim>\<open>src/infrastructure/runtime_store/recovery.rs\<close>. The adoption
  of a run whose supervisor is gone, the leases taken for a review, a park or a restore, recovery,
  resumes and the recovery job's rounds. What the run's events say of its resumes and rounds
  (\<open>ResumeCount::of\<close>, \<open>triage_state\<close>, the records of a continuation, the judgement of a stranded
  landing) comes in with the call.
\<close>

section \<open>Taking a run over\<close>

definition adoptable :: "RunStatus list" where
  "adoptable = [RunStatus.Running, RunStatus.Validating, RunStatus.AwaitingIntegration, RunStatus.NeedsSession]"

definition swap_lease :: "RunId \<Rightarrow> LeaseToken \<Rightarrow> LeaseToken \<Rightarrow> int \<Rightarrow> int \<Rightarrow> unit tx" where
  "swap_lease i previous token pid now = tx_write (\<lambda>s. s\<lparr>s_leases :=
     map (\<lambda>l. if lease_run_id l = i \<and> lease_token l = previous
       then l\<lparr>lease_token := token, lease_pid := pid, lease_heartbeat_at := now\<rparr> else l) (s_leases s)\<rparr>)"

definition adopt_run ::
  "Host \<Rightarrow> RunId \<Rightarrow> LeaseToken \<Rightarrow> LeaseToken \<Rightarrow> int \<Rightarrow> TaskRun option tx" where
  "adopt_run h i previous token pid = tx_commit_some (tx_read (\<lambda>s. s) (\<lambda>s.
    case (option_filter (\<lambda>l. lease_token l = previous) (lease_of s i), stored_run s i) of
      (Some lease, Some run) \<Rightarrow>
        if run_status run \<notin> set adoptable \<or> \<not> lease_is_stale h lease then tx_return None
        else tx_then (swap_lease i previous token pid (host_now h))
          (tx_then (set_supervisor i token)
          (tx_then (run_event h i RunAdopted)
          (tx_read (\<lambda>s. stored_run s i) tx_return)))
    | _ \<Rightarrow> tx_return None))"

text \<open>The lease, unless one that is not stale holds the run.\<close>

definition lease_in :: "Host \<Rightarrow> RunId \<Rightarrow> LeaseToken \<Rightarrow> bool tx" where
  "lease_in h i token =
    tx_bind (clear_stale_lease h i) (\<lambda>free.
    if \<not> free then tx_return False
    else tx_read (holder_pid h token) (\<lambda>pid.
      tx_then (insert_lease i token pid (host_now h))
      (tx_then (set_supervisor i token)
      (tx_then (run_event h i LeaseAcquired) (tx_return True)))))"

definition step_guarded :: "RunStore \<Rightarrow> RunId \<Rightarrow> GuardedStep \<Rightarrow> bool" where
  "step_guarded s i step = (case stored_run s i of
     None \<Rightarrow> False
   | Some run \<Rightarrow> \<not> is_ok (check_task_step (s_queue s) (run_task_id run) step))"

definition lease_unheld ::
  "Host \<Rightarrow> RunId \<Rightarrow> LeaseToken \<Rightarrow> RunStatus \<Rightarrow> GuardedStep option \<Rightarrow> TaskRun option tx" where
  "lease_unheld h i token status guarded = tx_commit_some (tx_read (\<lambda>s. s) (\<lambda>s.
    if map_option run_status (stored_run s i) \<noteq> Some status
       \<or> (case guarded of None \<Rightarrow> False | Some step \<Rightarrow> step_guarded s i step)
    then tx_return None
    else tx_bind (lease_in h i token) (\<lambda>leased.
      if leased then tx_read (\<lambda>s. stored_run s i) tx_return else tx_return None)))"

definition lease_awaiting :: "Host \<Rightarrow> RunId \<Rightarrow> LeaseToken \<Rightarrow> TaskRun option tx" where
  "lease_awaiting h i token =
    lease_unheld h i token RunStatus.AwaitingIntegration (Some GuardedStep.Integrate)"

definition lease_satisfied :: "Host \<Rightarrow> RunId \<Rightarrow> LeaseToken \<Rightarrow> TaskRun option tx" where
  "lease_satisfied h i token = lease_unheld h i token RunStatus.Validating (Some GuardedStep.Integrate)"

text \<open>\<open>judged\<close> is the judgement of the run's events; the rest of what it reads is here.\<close>

definition lease_stranded_landing ::
  "Host \<Rightarrow> (RunStore \<Rightarrow> bool) \<Rightarrow> RunId \<Rightarrow> LeaseToken \<Rightarrow> TaskRun option tx" where
  "lease_stranded_landing h judged i token = tx_commit_some (tx_read (\<lambda>s. s) (\<lambda>s.
    if map_option run_status (stored_run s i) \<noteq> Some RunStatus.AwaitingIntegration
       \<or> run_leased s i \<or> \<not> judged s
    then tx_return None
    else tx_bind (lease_in h i token) (\<lambda>leased.
      if leased then tx_read (\<lambda>s. stored_run s i) tx_return else tx_return None)))"

definition resting :: "RunStatus list" where
  "resting = [RunStatus.NeedsSession, RunStatus.AwaitingIntegration, RunStatus.Validating,
     RunStatus.Failed, RunStatus.Interrupted]"

text \<open>The lease kept if it is the token's own, else taken.\<close>

definition own_or_lease_in :: "Host \<Rightarrow> RunId \<Rightarrow> LeaseToken \<Rightarrow> bool tx" where
  "own_or_lease_in h i token =
    tx_bind (refresh_lease i token (host_now h)) (\<lambda>own.
    if own then tx_return True else lease_in h i token)"

definition lease_for_park ::
  "Host \<Rightarrow> RunId \<Rightarrow> LeaseToken \<Rightarrow> ReplanId \<Rightarrow> int \<Rightarrow> TaskRun option tx" where
  "lease_for_park h i token op generation = tx_commit_some (tx_read (\<lambda>s. s) (\<lambda>s.
    tx_bind (tx_check (read_operation (q_operations (s_queue s)) op)) (\<lambda>operation.
    if op_run_id operation \<noteq> i \<or> op_generation operation \<noteq> generation
       \<or> \<not> ReplanStatus_parks (op_status operation)
       \<or> \<not> (case stored_run s i of None \<Rightarrow> False | Some run \<Rightarrow> run_status run \<in> set resting)
    then tx_return None
    else tx_bind (own_or_lease_in h i token) (\<lambda>leased.
      if leased then tx_read (\<lambda>s. stored_run s i) tx_return else tx_return None))))"

definition lease_for_hold_park ::
  "Host \<Rightarrow> RunId \<Rightarrow> LeaseToken \<Rightarrow> HoldId \<Rightarrow> TaskRun option tx" where
  "lease_for_hold_park h i token hold = tx_commit_some (tx_read (\<lambda>s. s) (\<lambda>s. case stored_run s i of
     None \<Rightarrow> tx_return None
   | Some run \<Rightarrow>
       if run_status run \<notin> set resting
          \<or> map_option hg_hold (hold_of (s_queue s) (run_task_id run)) \<noteq> Some hold
          \<or> s_settled s hold \<noteq> None
          \<or> latest_run_id s (run_task_id run) \<noteq> Some i
       then tx_return None
       else tx_bind (own_or_lease_in h i token) (\<lambda>leased.
         if leased then tx_read (\<lambda>s. stored_run s i) tx_return else tx_return None)))"

section \<open>Recovery\<close>

definition recover_run :: "Host \<Rightarrow> RunId \<Rightarrow> nat \<Rightarrow> TaskRun tx" where
  "recover_run h i checked_processes = tx_read (\<lambda>s. s) (\<lambda>s.
    tx_then (tx_ensure (case lease_of s i of None \<Rightarrow> True
        | Some l \<Rightarrow> \<not> (host_now h - HEARTBEAT_TIMEOUT_SECS \<le> lease_heartbeat_at l))
      ''run lease heartbeat is fresh'')
    (tx_then (tx_ensure (length (filter (\<lambda>p. process_run_id p = i) (s_processes s)) = checked_processes)
      ''run processes changed during recovery; inspect doctor again'')
    (tx_then (tx_ensure (stored_run s i \<noteq> None) (run_missing i))
    (tx_bind (apply_run h i None (''run '' @ run_id_as_str i @ '': only unfinished runs can be recovered'')
        run_interrupt) (\<lambda>run.
    tx_then (tx_write (\<lambda>s. s\<lparr>s_leases := filter (\<lambda>l. lease_run_id l \<noteq> i) (s_leases s)\<rparr>))
    (tx_then (run_event h i RunRecovered)
    (tx_then (end_stalled_detections h i STALL_RECOVERED_CLOSED)
      (tx_return run))))))))"

section \<open>Resumes\<close>

record ResumeCount =
  rc_counted :: nat
  rc_conflict_only :: nat
  rc_kill_only :: nat
  rc_provider_only :: nat
  rc_conflict_requests :: nat
  rc_parked_for_conflict :: bool
  rc_parked_for_send_back :: bool
  rc_parked_for_hold :: bool

definition MAX_RESUME_ATTEMPTS :: nat where "MAX_RESUME_ATTEMPTS = 3"
definition KILL_ONLY_RESUME_LIMIT :: nat where "KILL_ONLY_RESUME_LIMIT = 3"
definition PROVIDER_ONLY_RESUME_LIMIT :: nat where "PROVIDER_ONLY_RESUME_LIMIT = 3"

definition conflict_attempts :: "ResumeCount \<Rightarrow> nat" where
  "conflict_attempts c = rc_conflict_only c + rc_conflict_requests c"

definition resumes_exhausted :: "ResumeCount \<Rightarrow> nat \<Rightarrow> bool" where
  "resumes_exhausted c limit \<longleftrightarrow> \<not> rc_parked_for_hold c
     \<and> (rc_counted c \<ge> MAX_RESUME_ATTEMPTS
        \<or> rc_kill_only c \<ge> KILL_ONLY_RESUME_LIMIT
        \<or> rc_provider_only c \<ge> PROVIDER_ONLY_RESUME_LIMIT
        \<or> rc_conflict_only c \<ge> limit \<and> \<not> rc_parked_for_send_back c
        \<or> rc_parked_for_conflict c \<and> conflict_attempts c \<ge> limit)"

text \<open>A session still heartbeating is left alone.\<close>

definition session_live :: "Host \<Rightarrow> RunStore \<Rightarrow> RunId \<Rightarrow> bool" where
  "session_live h s i \<longleftrightarrow> list_ex (\<lambda>p. process_run_id p = i \<and> process_exited_at p = None
     \<and> host_now h - HEARTBEAT_TIMEOUT_SECS \<le> process_heartbeat_at p) (s_processes s)"

definition lease_parked_run :: "Host \<Rightarrow> RunId \<Rightarrow> LeaseToken \<Rightarrow> bool \<Rightarrow> bool tx" where
  "lease_parked_run h i token clear = tx_read (\<lambda>s. s) (\<lambda>s.
    if map_option run_status (stored_run s i) \<noteq> Some RunStatus.NeedsSession then tx_return False
    else tx_bind (clear_stale_lease h i) (\<lambda>free.
      if \<not> free \<or> session_live h s i then tx_return False
      else tx_then (if clear then clear_processes i else tx_return ())
        (tx_read (holder_pid h token) (\<lambda>pid.
        tx_then (insert_lease i token pid (host_now h))
        (tx_then (set_supervisor i token) (tx_return True))))))"

definition begin_resume ::
  "Host \<Rightarrow> RunId \<Rightarrow> LeaseToken \<Rightarrow> ResumeCount \<Rightarrow> nat \<Rightarrow> bool \<Rightarrow> TaskRun option tx" where
  "begin_resume h i token resumes limit repair = tx_commit_some (tx_read (\<lambda>s. s) (\<lambda>s. case stored_run s i of
     None \<Rightarrow> tx_return None
   | Some run \<Rightarrow>
       if \<not> is_ok (run_check_resumable run) \<or> step_guarded s i GuardedStep.Resume
          \<or> resumes_exhausted resumes limit
       then tx_return None
       else tx_bind (lease_parked_run h i token True) (\<lambda>leased.
         if \<not> leased then tx_return None
         else tx_then (if run_worker_mode run = WorkerMode.Interactive
             then tx_then (tx_write (update_run_row i (\<lambda>r. run_running_on r
                 \<lparr>worker_provider = run_actual_provider r, worker_mode = WorkerMode.Headless\<rparr>)))
               (run_event h i WorkerModeConverted)
             else tx_return ())
           (tx_then (run_event h i LeaseAcquired)
           (tx_then (run_event h i ResumeStarted)
           (tx_then (if repair then run_event h i AutoRepaired else tx_return ())
           (tx_read (\<lambda>s. stored_run s i) tx_return)))))))"

definition skip_resume ::
  "Host \<Rightarrow> RunId \<Rightarrow> LeaseToken \<Rightarrow> CommitSha \<Rightarrow> bool \<Rightarrow> TaskRun option tx" where
  "skip_resume h i token head approved = tx_commit_some (tx_read (\<lambda>s. step_guarded s i GuardedStep.Resume)
    (\<lambda>guarded.
    if guarded then tx_return None
    else tx_bind (lease_parked_run h i token False) (\<lambda>leased.
      if \<not> leased then tx_return None
      else tx_bind (apply_run h i None (run_is_not i ''needs_session'')
          (\<lambda>run. run_skip_resume run head approved)) (\<lambda>run.
        tx_then (run_event h i LeaseAcquired)
        (tx_then (run_event h i ResumeSkipped) (tx_return (Some run)))))))"

definition end_resume ::
  "Host \<Rightarrow> RunId \<Rightarrow> LeaseToken \<Rightarrow> RunStatus option \<Rightarrow> string option \<Rightarrow> CommitSha option \<Rightarrow> bool
    \<Rightarrow> TaskRun option tx" where
  "end_resume h i token status reason landing keep_lease =
    tx_then (renew_lease h i token)
    (tx_then (case landing of
        None \<Rightarrow> tx_return ()
      | Some head \<Rightarrow> tx_then (apply_run h i None (run_is_not i ''needs_session'')
          (\<lambda>run. run_resolve_approved_resume run head)) (tx_return ()))
    (tx_then (case status of
        None \<Rightarrow> tx_return ()
      | Some to \<Rightarrow> tx_then (apply_run h i None (run_is_not i ''needs_session'')
          (\<lambda>run. run_finish_resume run to reason)) (tx_return ()))
    (tx_then (run_event h i ResumeFinished)
    (tx_then (if keep_lease then tx_return ()
      else tx_bind (delete_lease i token) (\<lambda>_. run_event h i LeaseReleased))
    (tx_read (\<lambda>s. stored_run s i) tx_return)))))"

definition finish_resume ::
  "Host \<Rightarrow> RunId \<Rightarrow> LeaseToken \<Rightarrow> RunStatus option \<Rightarrow> string option \<Rightarrow> bool \<Rightarrow> TaskRun option tx" where
  "finish_resume h i token status reason keep_lease = end_resume h i token status reason None keep_lease"

definition finish_approved_resume ::
  "Host \<Rightarrow> RunId \<Rightarrow> LeaseToken \<Rightarrow> CommitSha \<Rightarrow> TaskRun option tx" where
  "finish_approved_resume h i token head = end_resume h i token None None (Some head) True"

section \<open>Rounds of the recovery job\<close>

text \<open>The latest run of a task in progress, in one of the statuses.\<close>

definition latest_in_progress :: "RunStore \<Rightarrow> RunId \<Rightarrow> RunStatus list \<Rightarrow> TaskRun option" where
  "latest_in_progress s i statuses = option_filter (\<lambda>run. run_status run \<in> set statuses
     \<and> status_of (s_queue s) (run_task_id run) = Some TaskStatus.InProgress
     \<and> latest_run_id s (run_task_id run) = Some i) (stored_run s i)"

definition begin_triage :: "Host \<Rightarrow> RunId \<Rightarrow> LeaseToken \<Rightarrow> bool \<Rightarrow> bool \<Rightarrow> TaskRun option tx" where
  "begin_triage h i token due requested = tx_commit_some (tx_read (\<lambda>s. s) (\<lambda>s.
    case latest_in_progress s i [RunStatus.Failed, RunStatus.Interrupted] of
      None \<Rightarrow> tx_return None
    | Some run \<Rightarrow>
        if step_guarded s i GuardedStep.Recover \<or> \<not> due then tx_return None
        else tx_bind (clear_stale_lease h i) (\<lambda>free.
          if \<not> free then tx_return None
          else tx_read (holder_pid h token) (\<lambda>pid.
            tx_then (insert_lease i token pid (host_now h))
            (tx_then (run_event h i LeaseAcquired)
            (tx_then (if requested then run_event h i RecoveryRequested else tx_return ())
            (tx_then (run_event h i TriageStarted) (tx_return (Some run)))))))))"

definition revivable :: "RunStore \<Rightarrow> RunId \<Rightarrow> bool" where
  "revivable s i = (case stored_run s i of
     None \<Rightarrow> False
   | Some run \<Rightarrow> latest_run_id s (run_task_id run) = Some i
       \<and> (case status_of (s_queue s) (run_task_id run) of
            None \<Rightarrow> False | Some t \<Rightarrow> \<not> TaskStatus_is_terminal t))"

datatype TriageAction = Retry | RetryInherit | Resume string | HandOff | WaitFor | AskPerson

definition TriageAction_moves_on :: "TriageAction \<Rightarrow> bool" where
  "TriageAction_moves_on a = (case a of WaitFor \<Rightarrow> False | AskPerson \<Rightarrow> False | _ \<Rightarrow> True)"

definition ready_again :: "Host \<Rightarrow> TransitionFacts \<Rightarrow> TaskId \<Rightarrow> unit tx" where
  "ready_again h facts task =
    tx_then (tx_queue (\<lambda>q. apply_transition facts q task TaskAction.Ready (host_stamp h))) (tx_return ())"

text \<open>\<open>inherited\<close> is whether the task was retried with a branch carried over before.\<close>

definition apply_triage_action ::
  "Host \<Rightarrow> TransitionFacts \<Rightarrow> bool \<Rightarrow> TaskRun \<Rightarrow> TriageAction \<Rightarrow> unit tx" where
  "apply_triage_action h facts inherited run action = (let i = run_id run; changed = ''run '' @ run_id_as_str i @ '' changed'' in
    case action of
      Retry \<Rightarrow> ready_again h facts (run_task_id run)
    | RetryInherit \<Rightarrow>
        tx_then (tx_ensure (\<not> inherited) (''task '' @ show_int (task_id_as_i64 (run_task_id run))
          @ '' was retried with a branch carried over already''))
          (ready_again h facts (run_task_id run))
    | Resume instruction \<Rightarrow>
        tx_read (\<lambda>s. revivable s i) (\<lambda>again.
        tx_then (tx_ensure again (''run '' @ run_id_as_str i
          @ '' is no longer the latest run of a task that goes on''))
        (tx_then (apply_run h i None changed (\<lambda>run. run_resume_after_triage run instruction)) (tx_return ())))
    | HandOff \<Rightarrow>
        tx_read (\<lambda>s. status_of (s_queue s) (run_task_id run) = Some TaskStatus.InProgress
          \<and> latest_run_id s (run_task_id run) = Some i) (\<lambda>latest.
        tx_then (tx_ensure latest (''run '' @ run_id_as_str i
          @ '' is no longer the latest run of an in_progress task''))
        (tx_then (apply_run h i None changed run_hand_off_after_triage) (tx_return ())))
    | WaitFor \<Rightarrow> tx_return ()
    | AskPerson \<Rightarrow> tx_return ())"

definition keep_held_verdict :: "Host \<Rightarrow> RunId \<Rightarrow> RunEventKind list \<Rightarrow> unit tx" where
  "keep_held_verdict h i also =
    record_events h i (TriageFinished # filter (\<lambda>kind. kind \<noteq> AutoRepaired) also @ [HoldResultKept])"

definition finish_triage ::
  "Host \<Rightarrow> TransitionFacts \<Rightarrow> bool \<Rightarrow> RunId \<Rightarrow> LeaseToken \<Rightarrow> TriageAction \<Rightarrow> RunEventKind list
    \<Rightarrow> TaskRun option tx" where
  "finish_triage h facts inherited i token action also =
    tx_then (renew_lease h i token)
    (tx_read (\<lambda>s. s) (\<lambda>s. case stored_run s i of
      None \<Rightarrow> tx_fail ''Query returned no rows''
    | Some run \<Rightarrow>
        tx_then (tx_ensure (is_ok (run_check_triageable run)) (''run '' @ run_id_as_str i
          @ '': only failed or interrupted runs are triaged''))
        (tx_then (if TriageAction_moves_on action \<and> hold_of (s_queue s) (run_task_id run) \<noteq> None
          then keep_held_verdict h i also
          else tx_then (apply_triage_action h facts inherited run action)
            (record_events h i (TriageFinished # also)))
        (tx_read (\<lambda>s. stored_run s i) tx_return))))"

datatype Exhaustion = Recover | Inherit

definition exhaust_resumes ::
  "Host \<Rightarrow> TransitionFacts \<Rightarrow> RunId \<Rightarrow> Exhaustion \<Rightarrow> string \<Rightarrow> ResumeCount \<Rightarrow> nat \<Rightarrow> bool
    \<Rightarrow> TaskRun option tx" where
  "exhaust_resumes h facts i exhaustion reason resumes limit inherits = tx_commit_some (tx_read (\<lambda>s. s) (\<lambda>s.
    case latest_in_progress s i [RunStatus.NeedsSession] of
      None \<Rightarrow> tx_return None
    | Some run \<Rightarrow>
        if hold_of (s_queue s) (run_task_id run) \<noteq> None
           \<or> guard_of (q_operations (s_queue s)) (run_task_id run) \<noteq> None
           \<or> \<not> resumes_exhausted resumes limit
           \<or> exhaustion = Inherit \<and> \<not> inherits
        then tx_return None
        else tx_bind (clear_stale_lease h i) (\<lambda>free.
          if \<not> free then tx_return None
          else tx_bind (apply_run h i None (''run '' @ run_id_as_str i @ '' changed'')
              (\<lambda>run. run_exhaust_resumes run reason)) (\<lambda>run.
            tx_then (if exhaustion = Inherit then ready_again h facts (run_task_id run) else tx_return ())
            (tx_then (record_events h i (case exhaustion of
                Recover \<Rightarrow> [RecoveryRequested] | Inherit \<Rightarrow> [AutoRepaired, TriageFinished]))
              (tx_return (Some run)))))))"

section \<open>A person's answer to a round\<close>

datatype TriageAnswer = AnswerRetry | AnswerResume | AnswerCancel | AnswerRecover

definition triage_answer :: "RunId \<Rightarrow> bool \<Rightarrow> string \<Rightarrow> string list \<Rightarrow> bool \<Rightarrow> string + TriageAnswer" where
  "triage_answer i pending answer options again =
    (if \<not> pending then Inl (''not an answered, unclosed ask of run '' @ run_id_as_str i)
     else if answer = ''retry'' then Inr AnswerRetry
     else if answer = ''resume'' then (if again then Inr AnswerResume
       else Inl (''run '' @ run_id_as_str i @ '' is no longer the latest run of a task that goes on''))
     else if answer = ''cancel'' then Inr AnswerCancel
     else if answer \<in> set options then Inr AnswerRecover
     else Inl (answer @ '' is not an answer the recovery applies''))"

definition triage_answer_refusal ::
  "RunId \<Rightarrow> bool \<Rightarrow> (TaskId \<times> RunStatus) option \<Rightarrow> RunId option \<Rightarrow> string option" where
  "triage_answer_refusal i leased run latest =
    (if leased then Some (leased_refusal i)
     else (case run of
       None \<Rightarrow> Some (run_missing i)
     | Some (task, status) \<Rightarrow>
         if status \<notin> {RunStatus.Failed, RunStatus.Interrupted}
         then Some (run_is_not i ''failed or interrupted'')
         else if latest \<noteq> Some i
         then Some (''run '' @ run_id_as_str i @ '' is no longer the latest run of task ''
           @ show_int (task_id_as_i64 task))
         else None))"

definition unleased_latest_triageable :: "Host \<Rightarrow> RunId \<Rightarrow> TaskRun tx" where
  "unleased_latest_triageable h i = tx_read (\<lambda>s. s) (\<lambda>s.
    let leased = (case lease_of s i of None \<Rightarrow> False | Some l \<Rightarrow> \<not> lease_is_stale h l);
        run = (if leased then None else stored_run s i);
        latest = Option.bind run (\<lambda>run. latest_run_id s (run_task_id run))
    in case (triage_answer_refusal i leased (map_option (\<lambda>run. (run_task_id run, run_status run)) run) latest, run) of
      (None, Some run) \<Rightarrow> tx_bind (clear_stale_lease h i) (\<lambda>_. tx_return run)
    | (Some why, _) \<Rightarrow> tx_fail why
    | (None, None) \<Rightarrow> tx_fail (run_missing i))"

definition pending_ask :: "RunStore \<Rightarrow> AskId \<Rightarrow> RunId \<Rightarrow> StoredAsk option" where
  "pending_ask s ask i = find (\<lambda>a. ask_id a = ask \<and> ask_run_id a = Some i \<and> ask_answer a \<noteq> None
     \<and> ask_closed_at a = None) (s_asks s)"

definition close_ask :: "AskId \<Rightarrow> int \<Rightarrow> unit tx" where
  "close_ask ask now = tx_write (\<lambda>s. s\<lparr>s_asks := map (\<lambda>a. if ask_id a = ask \<and> ask_closed_at a = None
     then a\<lparr>ask_closed_at := Some now\<rparr> else a) (s_asks s)\<rparr>)"

text \<open>\<open>kept\<close> is whether a hold kept this answer and it is not settled yet.\<close>

definition decide_triage ::
  "Host \<Rightarrow> TransitionFacts \<Rightarrow> bool \<Rightarrow> RunId \<Rightarrow> AskId \<Rightarrow> string \<Rightarrow> string \<Rightarrow> TaskRun option tx" where
  "decide_triage h facts kept i ask answer reason =
    tx_bind (unleased_latest_triageable h i) (\<lambda>run.
    tx_read (\<lambda>s. s) (\<lambda>s.
    tx_then (tx_check (domain (check_step \<lparr>tg_replan = None,
        tg_hold = hold_of (s_queue s) (run_task_id run)\<rparr> GuardedStep.Recover)))
    (case triage_answer i (pending_ask s ask i \<noteq> None) answer
        (case pending_ask s ask i of None \<Rightarrow> [] | Some a \<Rightarrow> ask_options a) (revivable s i) of
      Inl why \<Rightarrow> tx_fail why
    | Inr action \<Rightarrow>
        tx_then (if kept then run_event h i HoldResultApplied else tx_return ())
        (tx_then (case action of
            AnswerRetry \<Rightarrow> ready_again h facts (run_task_id run)
          | AnswerResume \<Rightarrow> tx_then (apply_run h i None (''run '' @ run_id_as_str i @ '' changed'')
              (\<lambda>run. run_resume_after_triage run reason)) (tx_return ())
          | AnswerCancel \<Rightarrow> tx_then (tx_queue (\<lambda>q. apply_transition facts q (run_task_id run)
              TaskAction.Cancel (host_stamp h))) (tx_return ())
          | AnswerRecover \<Rightarrow> tx_return ())
        (tx_then (close_ask ask (host_now h))
        (tx_then (run_event h i TriageDecided)
        (tx_read (\<lambda>s. stored_run s i) tx_return)))))))"

section \<open>Restoring a parked run's work\<close>

datatype RestoreStart = Done | Owned | Elsewhere

definition begin_restore ::
  "Host \<Rightarrow> (RunStore \<Rightarrow> ContinuationRecord list) \<Rightarrow> RunId \<Rightarrow> LeaseToken \<Rightarrow> ReplanId \<Rightarrow> int \<Rightarrow> RestoreStart tx" where
  "begin_restore h records i token op generation = tx_read (\<lambda>s. s) (\<lambda>s.
    tx_bind (tx_check (read_operation (q_operations (s_queue s)) op)) (\<lambda>operation.
    if op_run_id operation \<noteq> i \<or> op_generation operation \<noteq> generation
       \<or> \<not> ReplanStatus_reopens (op_status operation)
    then tx_return Elsewhere
    else if restored_now operation (records s) then tx_return Done
    else if map_option run_status (stored_run s i) \<noteq> Some RunStatus.NeedsSession then tx_return Elsewhere
    else tx_bind (tx_commit_if (own_or_lease_in h i token)) (\<lambda>leased.
      tx_return (if leased then Owned else Elsewhere))))"

definition reopen_operation :: "Host \<Rightarrow> ReplanFacts \<Rightarrow> ReplanId \<Rightarrow> int \<Rightarrow> string \<Rightarrow> bool tx" where
  "reopen_operation h facts op generation why = tx_queue (\<lambda>q.
     and_then (reopen_blocked facts (q_operations q) op generation why (host_now h)) (\<lambda>(ops, reopened).
     Inr (q\<lparr>q_operations := ops\<rparr>, reopened)))"

text \<open>\<open>restored\<close> is \<open>None\<close> for work restored, else why not.\<close>

definition record_restore_in ::
  "Host \<Rightarrow> ReplanFacts \<Rightarrow> RunId \<Rightarrow> ReplanId \<Rightarrow> int \<Rightarrow> string option \<Rightarrow> bool tx" where
  "record_restore_in h facts i op generation restored = (case restored of
     None \<Rightarrow> tx_then (run_event h i ReplanRestored) (tx_return True)
   | Some why \<Rightarrow> tx_then (run_event h i ReplanRestoreFailed) (reopen_operation h facts op generation why))"

definition record_restore ::
  "Host \<Rightarrow> ReplanFacts \<Rightarrow> RunId \<Rightarrow> LeaseToken \<Rightarrow> ReplanId \<Rightarrow> int \<Rightarrow> string option \<Rightarrow> bool tx" where
  "record_restore h facts i token op generation restored = tx_commit_if (
    tx_bind (refresh_lease i token (host_now h)) (\<lambda>held.
    if \<not> held then tx_return False
    else tx_read (\<lambda>s. s) (\<lambda>s.
      tx_bind (tx_check (read_operation (q_operations (s_queue s)) op)) (\<lambda>operation.
      if op_generation operation \<noteq> generation \<or> \<not> ReplanStatus_reopens (op_status operation)
      then tx_return False
      else tx_bind (record_restore_in h facts i op generation restored) (\<lambda>recorded.
        if \<not> recorded then tx_return False
        else tx_bind (delete_lease i token) (\<lambda>_.
          tx_then (run_event h i LeaseReleased) (tx_return True)))))))"

text \<open>Two transactions: what was not recorded, or failed to be, still gives the lease back.\<close>

definition give_back_restore :: "Host \<Rightarrow> RunId \<Rightarrow> LeaseToken \<Rightarrow> unit tx" where
  "give_back_restore h i token =
    tx_bind (delete_lease i token) (\<lambda>deleted.
    if deleted then run_event h i LeaseReleased else tx_return ())"

definition finish_restore ::
  "Host \<Rightarrow> ReplanFacts \<Rightarrow> RunId \<Rightarrow> LeaseToken \<Rightarrow> ReplanId \<Rightarrow> int \<Rightarrow> string option
    \<Rightarrow> (bool stored) tx" where
  "finish_restore h facts i token op generation restored = (\<lambda>s.
    case record_restore h facts i token op generation restored s of
      Inr (s', True) \<Rightarrow> Inr (s', Inr True)
    | Inr (s', False) \<Rightarrow> and_then (give_back_restore h i token s') (\<lambda>(s, _). Inr (s, Inr False))
    | Inl e \<Rightarrow> and_then (give_back_restore h i token s) (\<lambda>(s, _). Inr (s, Inl e)))"

definition fail_continuation_start ::
  "Host \<Rightarrow> ReplanFacts \<Rightarrow> (RunStore \<Rightarrow> ContinuationRecord list) \<Rightarrow> RunId \<Rightarrow> LeaseToken \<Rightarrow> ReplanId \<Rightarrow> int
    \<Rightarrow> string \<Rightarrow> bool tx" where
  "fail_continuation_start h facts records i token op generation why = tx_commit_if (
    tx_bind (refresh_lease i token (host_now h)) (\<lambda>held.
    if \<not> held then tx_return False
    else tx_read (\<lambda>s. s) (\<lambda>s.
      tx_bind (tx_check (read_operation (q_operations (s_queue s)) op)) (\<lambda>operation.
      if op_run_id operation \<noteq> i \<or> op_generation operation \<noteq> generation
         \<or> \<not> ReplanStatus_reopens (op_status operation)
         \<or> \<not> first_resume_of_continuation operation (records s)
      then tx_return False
      else tx_then (run_event h i ReplanRestoreFailed) (reopen_operation h facts op generation why)))))"

end
