(* ===== verification/Run_Frame.thy ===== *)
theory Run_Frame
  imports Run_Recovery Queue_Life
begin

text \<open>
  What every transaction of the store of runs keeps. \<open>tx_frame\<close> is the interface: a reflexive and
  transitive relation of stores that the combinators of transactions carry. It is interpreted on
  \<open>store_advances\<close> (the queue makes its own steps, each run moves by its own commands, the tables
  keep their keys, and a live lease is touched by its holder only), on \<open>quiet\<close>, under which no run
  lands besides, and on the stores with the same leases.
\<close>

section \<open>The interface\<close>

definition keeps_at :: "(RunStore \<Rightarrow> RunStore \<Rightarrow> bool) \<Rightarrow> RunStore \<Rightarrow> 'a tx \<Rightarrow> bool" where
  "keeps_at R s m \<longleftrightarrow> (\<forall>s' x. m s = Inr (s', x) \<longrightarrow> R s s')"

definition keeps :: "(RunStore \<Rightarrow> RunStore \<Rightarrow> bool) \<Rightarrow> 'a tx \<Rightarrow> bool" where
  "keeps R m \<longleftrightarrow> (\<forall>s. keeps_at R s m)"

lemma keepsI: "(\<And>s. keeps_at R s m) \<Longrightarrow> keeps R m"
  by (simp add: keeps_def)

lemma keepsD: "keeps R m \<Longrightarrow> m s = Inr (s', x) \<Longrightarrow> R s s'"
  by (auto simp: keeps_def keeps_at_def)

lemma keeps_atD: "keeps_at R s m \<Longrightarrow> m s = Inr (s', x) \<Longrightarrow> R s s'"
  by (simp add: keeps_at_def)

lemma keeps_at_keeps: "keeps R m \<Longrightarrow> keeps_at R s m"
  by (simp add: keeps_def)

lemma keeps_if: "(b \<Longrightarrow> keeps R m) \<Longrightarrow> (\<not> b \<Longrightarrow> keeps R n) \<Longrightarrow> keeps R (if b then m else n)"
  by simp

lemma keeps_option:
  "(x = None \<Longrightarrow> keeps R m) \<Longrightarrow> (\<And>y. x = Some y \<Longrightarrow> keeps R (f y)) \<Longrightarrow>
    keeps R (case x of None \<Rightarrow> m | Some y \<Rightarrow> f y)"
  by (cases x) simp_all

lemma keeps_prod: "(\<And>a b. x = (a, b) \<Longrightarrow> keeps R (f a b)) \<Longrightarrow> keeps R (case x of (a, b) \<Rightarrow> f a b)"
  by (cases x) simp

lemma keeps_at_if:
  "(b \<Longrightarrow> keeps_at R s m) \<Longrightarrow> (\<not> b \<Longrightarrow> keeps_at R s n) \<Longrightarrow> keeps_at R s (if b then m else n)"
  by simp

lemma keeps_at_option:
  "(x = None \<Longrightarrow> keeps_at R s m) \<Longrightarrow> (\<And>y. x = Some y \<Longrightarrow> keeps_at R s (f y)) \<Longrightarrow>
    keeps_at R s (case x of None \<Rightarrow> m | Some y \<Rightarrow> f y)"
  by (cases x) simp_all

lemma keeps_sum:
  "(\<And>e. x = Inl e \<Longrightarrow> keeps R (f e)) \<Longrightarrow> (\<And>y. x = Inr y \<Longrightarrow> keeps R (g y)) \<Longrightarrow>
    keeps R (case x of Inl e \<Rightarrow> f e | Inr y \<Rightarrow> g y)"
  by (cases x) simp_all

lemma keeps_read: "(\<And>x. keeps R (k x)) \<Longrightarrow> keeps R (tx_read f k)"
  by (simp add: keeps_def keeps_at_def tx_read_def)

lemma keeps_at_read: "keeps_at R s (k (f s)) \<Longrightarrow> keeps_at R s (tx_read f k)"
  by (simp add: keeps_at_def tx_read_def)

lemma keeps_fail: "keeps R (tx_fail message)"
  by (simp add: keeps_def keeps_at_def tx_fail_def)

lemma keeps_write: "(\<And>s. R s (f s)) \<Longrightarrow> keeps R (tx_write f)"
  by (simp add: keeps_def keeps_at_def tx_write_def)

locale tx_frame =
  fixes R :: "RunStore \<Rightarrow> RunStore \<Rightarrow> bool"
  assumes refl: "R s s"
    and trans: "R s t \<Longrightarrow> R t u \<Longrightarrow> R s u"
begin

lemma keeps_return: "keeps R (tx_return x)"
  by (simp add: keeps_def keeps_at_def tx_return_def refl)

lemma keeps_at_bind:
  assumes "keeps_at R s m" "\<And>x. keeps R (k x)"
  shows "keeps_at R s (tx_bind m k)"
  unfolding keeps_at_def
proof (intro allI impI)
  fix u y assume "tx_bind m k s = Inr (u, y)"
  then obtain t x where "m s = Inr (t, x)" "k x t = Inr (u, y)" by (auto simp: tx_bind_def and_then_eq_Inr)
  with assms have "R s t" "R t u" by (auto simp: keeps_at_def dest: keepsD)
  then show "R s u" by (rule trans)
qed

lemma keeps_bind: "keeps R m \<Longrightarrow> (\<And>x. keeps R (k x)) \<Longrightarrow> keeps R (tx_bind m k)"
  unfolding keeps_def [of R m] by (rule keepsI) (simp add: keeps_at_bind)

lemma keeps_then: "keeps R m \<Longrightarrow> keeps R n \<Longrightarrow> keeps R (tx_then m n)"
  by (simp add: tx_then_def keeps_bind)

lemma keeps_at_then: "keeps_at R s m \<Longrightarrow> keeps R n \<Longrightarrow> keeps_at R s (tx_then m n)"
  by (simp add: tx_then_def keeps_at_bind)

lemma keeps_ensure: "keeps R (tx_ensure b message)"
  by (simp add: tx_ensure_def keeps_return keeps_fail)

lemma keeps_at_ensure_then:
  "(b \<Longrightarrow> keeps_at R s n) \<Longrightarrow> keeps_at R s (tx_then (tx_ensure b message) n)"
  by (auto simp: tx_then_def tx_ensure_def tx_bind_def tx_return_def tx_fail_def keeps_at_def and_then_eq_Inr)

lemma keeps_check: "keeps R (tx_check r)"
  by (auto simp: keeps_def keeps_at_def tx_check_def and_then_eq_Inr refl)

lemma keeps_at_commit_some: "keeps_at R s m \<Longrightarrow> keeps_at R s (tx_commit_some m)"
  by (auto simp: keeps_at_def tx_commit_some_def and_then_eq_Inr refl)

lemma keeps_commit_some: "keeps R m \<Longrightarrow> keeps R (tx_commit_some m)"
  by (auto simp: keeps_def keeps_at_def tx_commit_some_def and_then_eq_Inr refl)

lemma keeps_commit_if: "keeps R m \<Longrightarrow> keeps R (tx_commit_if m)"
  by (auto simp: keeps_def keeps_at_def tx_commit_if_def and_then_eq_Inr refl)

lemma keeps_record_events: "(\<And>kind. keeps R (run_event h i kind)) \<Longrightarrow> keeps R (record_events h i kinds)"
  by (induction kinds) (simp_all add: keeps_return keeps_then)

lemmas keeps_structure = keeps_return keeps_fail keeps_bind keeps_then keeps_ensure keeps_check
  keeps_commit_some keeps_commit_if keeps_read keeps_if keeps_option keeps_prod keeps_sum keeps_record_events

end

section \<open>The runs\<close>

text \<open>The commands a save writes: all but those of the worker's provider.\<close>

definition plain_command :: "RunCommand \<Rightarrow> bool" where
  "plain_command c \<longleftrightarrow> (\<forall>w. c \<noteq> Requesting w \<and> c \<noteq> RunningOn w)"

definition landing_command :: "RunCommand \<Rightarrow> bool" where
  "landing_command c \<longleftrightarrow> c = CloseSatisfied \<or> (\<exists>commit. c = FinishIntegration commit)"

definition landed :: "TaskRun \<Rightarrow> bool" where
  "landed r \<longleftrightarrow> run_status r \<in> {RunStatus.Integrated, RunStatus.Succeeded}"

definition run_reaches :: "TaskRun \<Rightarrow> TaskRun \<Rightarrow> bool" where
  "run_reaches r r' \<longleftrightarrow> (\<exists>cs. run_runs r cs r')"

lemma run_reaches_refl [simp]: "run_reaches r r"
  unfolding run_reaches_def by (rule exI [of _ "[]"]) (simp add: life_iff_live)

lemma run_reaches_trans: "run_reaches r s \<Longrightarrow> run_reaches s t \<Longrightarrow> run_reaches r t"
  unfolding run_reaches_def using life_append [of run_apply] by blast

lemma run_reaches_command: "run_apply c r = Inr r' \<Longrightarrow> run_reaches r r'"
  unfolding run_reaches_def by (rule exI [of _ "[c]"]) (simp add: life_iff_live)

lemma run_reaches_identity: "run_reaches r r' \<Longrightarrow> run_identity r' = run_identity r"
proof -
  have "run_runs r cs r' \<Longrightarrow> run_identity r' = run_identity r" for cs
    by (induction cs arbitrary: r) (auto simp: life_iff_live and_then_eq_Inr dest: run_apply_identity)
  then show "run_reaches r r' \<Longrightarrow> run_identity r' = run_identity r" by (auto simp: run_reaches_def)
qed

lemma run_reaches_ids: "run_reaches r r' \<Longrightarrow> run_id r' = run_id r \<and> run_task_id r' = run_task_id r"
  by (drule run_reaches_identity) (simp add: run_identity_def)

lemma plain_worker:
  "run_apply c r = Inr r' \<Longrightarrow> plain_command c \<Longrightarrow> run_requested_provider r' = run_requested_provider r
    \<and> run_actual_provider r' = run_actual_provider r \<and> run_worker_mode r' = run_worker_mode r"
  by (cases c) (auto simp: plain_command_def run_command_defs and_then_eq_Inr split: if_splits)

lemma landed_by_command:
  "run_apply c r = Inr r' \<Longrightarrow> \<not> landing_command c \<Longrightarrow> landed r' \<Longrightarrow> landed r"
  by (cases c) (auto simp: landing_command_def landed_def run_command_defs and_then_eq_Inr split: if_splits)

text \<open>What a saved command does: \<open>drawn\<close> from the commands of the run.\<close>

definition drawn :: "(RunCommand \<Rightarrow> bool) \<Rightarrow> (TaskRun \<Rightarrow> TaskRun result) \<Rightarrow> bool" where
  "drawn P f \<longleftrightarrow> (\<forall>r r'. f r = Inr r' \<longrightarrow> r' = r \<or> (\<exists>c. run_apply c r = Inr r' \<and> plain_command c \<and> P c))"

abbreviation settled_command :: "RunCommand \<Rightarrow> bool" where
  "settled_command c \<equiv> \<not> landing_command c"

abbreviation any_command :: "RunCommand \<Rightarrow> bool" where
  "any_command c \<equiv> True"

lemma drawnI: "(\<And>r r'. f r = Inr r' \<Longrightarrow> r' = r \<or> run_apply c r = Inr r') \<Longrightarrow> plain_command c \<Longrightarrow> P c \<Longrightarrow> drawn P f"
  unfolding drawn_def by blast

lemma drawn_any: "drawn P f \<Longrightarrow> drawn any_command f"
  unfolding drawn_def by blast

lemma saved_row_same:
  assumes "run_apply c r = Inr r'" "plain_command c"
  shows "saved_row r r' = r'"
  using plain_worker [OF assms] run_apply_identity [OF assms(1)]
  by (cases r, cases r') (simp add: saved_row_def run_identity_def)

lemma saved_row_refl: "saved_row r r = r"
  by (cases r) (simp add: saved_row_def)

lemma drawn_reaches: "drawn P f \<Longrightarrow> f r = Inr r' \<Longrightarrow> run_reaches r r' \<and> saved_row r r' = r'"
  unfolding drawn_def using run_reaches_command saved_row_same saved_row_refl run_reaches_refl by metis

lemma drawn_landed: "drawn settled_command f \<Longrightarrow> f r = Inr r' \<Longrightarrow> landed r' \<Longrightarrow> landed r"
  unfolding drawn_def using landed_by_command by blast

definition runs_advance :: "TaskRun list \<Rightarrow> TaskRun list \<Rightarrow> bool" where
  "runs_advance rs rs' \<longleftrightarrow> (\<exists>us ts. rs' = us @ ts \<and> list_all2 run_reaches rs us
     \<and> (\<forall>t \<in> set ts. \<exists>t0. run_status t0 = RunStatus.Claimed \<and> run_reaches t0 t))"

lemma runs_advance_pointwise: "list_all2 run_reaches rs us \<Longrightarrow> runs_advance rs us"
  unfolding runs_advance_def by (intro exI [of _ us] exI [of _ "[]"]) simp

lemma runs_advance_refl [simp]: "runs_advance rs rs"
  by (rule runs_advance_pointwise) (simp add: list_all2_same)

lemma runs_advance_trans:
  assumes "runs_advance a b" "runs_advance b c"
  shows "runs_advance a c"
proof -
  from assms(1) obtain us ts where b: "b = us @ ts" "list_all2 run_reaches a us"
    "\<forall>t \<in> set ts. \<exists>t0. run_status t0 = RunStatus.Claimed \<and> run_reaches t0 t"
    by (auto simp: runs_advance_def)
  from assms(2) b(1) obtain us' ts' new where c: "c = us' @ ts' @ new" "list_all2 run_reaches us us'"
    "list_all2 run_reaches ts ts'" "\<forall>t \<in> set new. \<exists>t0. run_status t0 = RunStatus.Claimed \<and> run_reaches t0 t"
    by (auto simp: runs_advance_def list_all2_append1)
  have "list_all2 run_reaches a us'"
    using b(2) c(2) by (rule list_all2_trans [rotated]) (rule run_reaches_trans)
  moreover have "\<exists>t0. run_status t0 = RunStatus.Claimed \<and> run_reaches t0 t" if "t \<in> set ts'" for t
  proof -
    from that obtain i where "i < length ts'" "ts' ! i = t" by (auto simp: in_set_conv_nth)
    with c(3) have "ts ! i \<in> set ts \<and> run_reaches (ts ! i) t" by (auto simp: list_all2_conv_all_nth)
    then obtain u where "u \<in> set ts" "run_reaches u t" by blast
    with b(3) show ?thesis by (meson run_reaches_trans)
  qed
  ultimately show ?thesis
    unfolding runs_advance_def using c(1,4) by (intro exI [of _ us'] exI [of _ "ts' @ new"]) auto
qed

end
