(* ===== verification/Run_Keeps.thy ===== *)
theory Run_Keeps
  imports Run_Frame
begin

text \<open>
  What the transactions of the store of runs keep, read through \<open>tx_frame\<close>. \<open>moves\<close> is the frame
  of every handler: the tables keep their keys, the queue makes its own steps, each run moves by its
  own commands, no run lands unless the handler is one that lands, and a live lease is touched by
  its holder only. The primitives come first, then a line per handler.
\<close>

section \<open>The frame of a handler\<close>

definition tables_sound :: "RunStore \<Rightarrow> bool" where
  "tables_sound s \<longleftrightarrow> run_indexes_ok (q_runs (s_queue s)) \<and> distinct (map lease_run_id (s_leases s))
     \<and> distinct (map sup_token (s_supervisors s))
     \<and> distinct (map (\<lambda>p. (process_run_id p, process_role p)) (s_processes s))"

definition leases_kept :: "Host \<Rightarrow> LeaseToken option \<Rightarrow> RunStore \<Rightarrow> RunStore \<Rightarrow> bool" where
  "leases_kept h actor s s' \<longleftrightarrow> (\<forall>i l. lease_of s i = Some l \<and> \<not> lease_is_stale h l
     \<and> Some (lease_token l) \<noteq> actor \<longrightarrow> lease_of s' i = Some l)"

text \<open>No run lands but one of the set; no task becomes completed.\<close>

definition none_lands :: "RunId set \<Rightarrow> RunStore \<Rightarrow> RunStore \<Rightarrow> bool" where
  "none_lands lands s s' \<longleftrightarrow> (\<forall>r' \<in> set (q_runs (s_queue s')). landed r' \<and> run_id r' \<notin> lands
     \<longrightarrow> (\<exists>r \<in> set (q_runs (s_queue s)). landed r \<and> run_id r = run_id r' \<and> run_task_id r = run_task_id r'))"

definition none_completes :: "Queue \<Rightarrow> Queue \<Rightarrow> bool" where
  "none_completes q q' \<longleftrightarrow>
    (\<forall>i. status_of q' i = Some TaskStatus.Completed \<longrightarrow> status_of q i = Some TaskStatus.Completed)"

definition moves :: "RunId set \<Rightarrow> Host \<Rightarrow> LeaseToken option \<Rightarrow> RunStore \<Rightarrow> RunStore \<Rightarrow> bool" where
  "moves lands h actor s s' \<longleftrightarrow> (tables_sound s \<longrightarrow> tables_sound s' \<and> queue_step\<^sup>*\<^sup>* (s_queue s) (s_queue s')
     \<and> runs_advance (q_runs (s_queue s)) (q_runs (s_queue s'))
     \<and> none_lands lands s s' \<and> none_completes (s_queue s) (s_queue s') \<and> leases_kept h actor s s')"

lemma none_lands_refl [simp]: "none_lands lands s s"
  by (auto simp: none_lands_def)

lemma none_lands_trans: "none_lands lands s t \<Longrightarrow> none_lands lands t u \<Longrightarrow> none_lands lands s u"
  unfolding none_lands_def by metis

lemma none_completes_refl [simp]: "none_completes q q"
  by (simp add: none_completes_def)

lemma none_completes_trans: "none_completes p q \<Longrightarrow> none_completes q r \<Longrightarrow> none_completes p r"
  by (simp add: none_completes_def)

lemma leases_kept_trans: "leases_kept h a s t \<Longrightarrow> leases_kept h a t u \<Longrightarrow> leases_kept h a s u"
  unfolding leases_kept_def by blast

lemma leases_kept_same: "s_leases s' = s_leases s \<Longrightarrow> leases_kept h a s s'"
  by (simp add: leases_kept_def lease_of_def)

interpretation moves: tx_frame "moves lands h actor" for lands h actor
proof
  show "moves lands h actor s s" for s by (simp add: moves_def leases_kept_def)
  show "moves lands h actor s u" if "moves lands h actor s t" "moves lands h actor t u" for s t u
    unfolding moves_def [of _ _ _ s u]
  proof (intro impI)
    assume "tables_sound s"
    with that have m: "tables_sound u" "queue_step\<^sup>*\<^sup>* (s_queue s) (s_queue t)" "queue_step\<^sup>*\<^sup>* (s_queue t) (s_queue u)"
      "runs_advance (q_runs (s_queue s)) (q_runs (s_queue t))" "runs_advance (q_runs (s_queue t)) (q_runs (s_queue u))"
      "none_lands lands s t" "none_lands lands t u" "leases_kept h actor s t" "leases_kept h actor t u"
      "none_completes (s_queue s) (s_queue t)" "none_completes (s_queue t) (s_queue u)"
      by (auto simp: moves_def)
    show "tables_sound u \<and> queue_step\<^sup>*\<^sup>* (s_queue s) (s_queue u) \<and> runs_advance (q_runs (s_queue s)) (q_runs (s_queue u))
        \<and> none_lands lands s u \<and> none_completes (s_queue s) (s_queue u) \<and> leases_kept h actor s u"
      using m(1) rtranclp_trans [OF m(2,3)] runs_advance_trans [OF m(4,5)] leases_kept_trans [OF m(8,9)]
        none_lands_trans [OF m(6,7)] none_completes_trans [OF m(10,11)] by blast
  qed
qed

interpretation same_leases: tx_frame "\<lambda>s s'. s_leases s' = s_leases s"
  by unfold_locales simp_all

lemma moves_tables:
  assumes "s_queue s' = s_queue s" "tables_sound s \<Longrightarrow> tables_sound s'" "leases_kept h a s s'"
  shows "moves lands h a s s'"
  using assms by (simp add: moves_def none_lands_def) blast

section \<open>Primitives\<close>

subsection \<open>Leases\<close>

lemma lease_of_append: "lease_of s i = Some l \<Longrightarrow> lease_of (s\<lparr>s_leases := s_leases s @ ls\<rparr>) i = Some l"
  by (auto simp: lease_of_def find_append)

lemma find_map_same:
  "find P xs = Some x \<Longrightarrow> (\<And>y. P (f y) = P y) \<Longrightarrow> f x = x \<Longrightarrow> find P (map f xs) = Some x"
  by (induction xs) (auto split: if_splits)

lemma find_filter_same: "find P xs = Some x \<Longrightarrow> Q x \<Longrightarrow> find P (filter Q xs) = Some x"
  by (induction xs) (auto split: if_splits)

lemma find_pred: "find P xs = Some x \<Longrightarrow> P x"
  by (auto simp: find_Some_iff)

lemma leases_kept_map:
  assumes "s_leases s' = map f (s_leases s)" "\<And>l. lease_run_id (f l) = lease_run_id l"
    and "\<And>l. lease_of s (lease_run_id l) = Some l \<Longrightarrow> Some (lease_token l) \<noteq> a \<Longrightarrow> \<not> lease_is_stale h l \<Longrightarrow> f l = l"
  shows "leases_kept h a s s'"
  unfolding leases_kept_def
proof (intro allI impI)
  fix i l assume l: "lease_of s i = Some l \<and> \<not> lease_is_stale h l \<and> Some (lease_token l) \<noteq> a"
  then have "lease_run_id l = i" by (auto simp: lease_of_def dest: find_pred)
  then have "f l = l" using l assms(3) [of l] by auto
  with l show "lease_of s' i = Some l"
    unfolding lease_of_def assms(1) by (intro find_map_same) (auto simp: assms(2))
qed

lemma leases_kept_filter:
  assumes "s_leases s' = filter P (s_leases s)"
    and "\<And>l. lease_of s (lease_run_id l) = Some l \<Longrightarrow> Some (lease_token l) \<noteq> a \<Longrightarrow> \<not> lease_is_stale h l \<Longrightarrow> P l"
  shows "leases_kept h a s s'"
  unfolding leases_kept_def
proof (intro allI impI)
  fix i l assume l: "lease_of s i = Some l \<and> \<not> lease_is_stale h l \<and> Some (lease_token l) \<noteq> a"
  then have "lease_run_id l = i" by (auto simp: lease_of_def dest: find_pred)
  then have "P l" using l assms(2) [of l] by auto
  with l show "lease_of s' i = Some l"
    unfolding lease_of_def assms(1) by (intro find_filter_same) auto
qed

lemma lease_ids_map: "(\<And>l. lease_run_id (f l) = lease_run_id l) \<Longrightarrow> map lease_run_id (map f ls) = map lease_run_id ls"
  by (simp add: comp_def)

lemma tables_sound_leases:
  "tables_sound s \<Longrightarrow> distinct (map lease_run_id ls) \<Longrightarrow> tables_sound (s\<lparr>s_leases := ls\<rparr>)"
  by (simp add: tables_sound_def)

lemma moves_lease_map:
  assumes "\<And>l. lease_run_id (f l) = lease_run_id l"
    and "\<And>l. lease_of s (lease_run_id l) = Some l \<Longrightarrow> Some (lease_token l) \<noteq> a \<Longrightarrow> \<not> lease_is_stale h l \<Longrightarrow> f l = l"
  shows "moves lands h a s (s\<lparr>s_leases := map f (s_leases s)\<rparr>)"
proof (rule moves_tables)
  show "leases_kept h a s (s\<lparr>s_leases := map f (s_leases s)\<rparr>)"
    by (rule leases_kept_map [of _ f]) (use assms in auto)
  show "tables_sound s \<Longrightarrow> tables_sound (s\<lparr>s_leases := map f (s_leases s)\<rparr>)"
    by (rule tables_sound_leases) (simp_all only: lease_ids_map [OF assms(1)] tables_sound_def)
qed simp

lemma moves_lease_filter:
  assumes "\<And>l. lease_of s (lease_run_id l) = Some l \<Longrightarrow> Some (lease_token l) \<noteq> a \<Longrightarrow> \<not> lease_is_stale h l \<Longrightarrow> P l"
  shows "moves lands h a s (s\<lparr>s_leases := filter P (s_leases s)\<rparr>)"
proof (rule moves_tables)
  show "leases_kept h a s (s\<lparr>s_leases := filter P (s_leases s)\<rparr>)"
    by (rule leases_kept_filter [of _ P]) (use assms in auto)
  show "tables_sound s \<Longrightarrow> tables_sound (s\<lparr>s_leases := filter P (s_leases s)\<rparr>)"
    by (rule tables_sound_leases) (auto simp: tables_sound_def intro: distinct_map_filter)
qed simp

lemma keeps_insert_lease: "keeps (moves lands h a) (insert_lease i token pid now)"
proof (rule keepsI)
  fix s :: RunStore
  let ?l = "\<lparr>lease_run_id = i, lease_token = token, lease_pid = pid, lease_heartbeat_at = now\<rparr>"
  let ?s = "s\<lparr>s_leases := s_leases s @ [?l]\<rparr>"
  have "moves lands h a s ?s" if "\<not> run_leased s i"
  proof (rule moves_tables)
    show "leases_kept h a s ?s" by (auto simp: leases_kept_def lease_of_append)
    have "i \<notin> lease_run_id ` set (s_leases s)"
      using that by (auto simp: run_leased_def lease_of_def find_None_iff)
    then show "tables_sound s \<Longrightarrow> tables_sound ?s" by (auto simp: tables_sound_def)
  qed simp
  then show "keeps_at (moves lands h a) s (insert_lease i token pid now)"
    unfolding insert_lease_def
    by (intro keeps_at_read moves.keeps_at_ensure_then) (simp add: keeps_at_def tx_write_def)
qed

lemma keeps_refresh_lease: "keeps (moves lands h (Some token)) (refresh_lease i token now)"
  unfolding refresh_lease_def
  by (intro moves.keeps_structure keeps_write moves_lease_map) auto

lemma keeps_renew_lease: "keeps (moves lands h (Some token)) (renew_lease h' i token)"
  unfolding renew_lease_def by (intro moves.keeps_structure keeps_refresh_lease)

lemma keeps_delete_lease: "keeps (moves lands h (Some token)) (delete_lease i token)"
  unfolding delete_lease_def
  by (intro moves.keeps_structure keeps_write moves_lease_filter) auto

lemma keeps_clear_stale_lease: "keeps (moves lands h a) (clear_stale_lease h i)"
proof (rule keepsI)
  fix s :: RunStore
  have "moves lands h a s (s\<lparr>s_leases := filter (\<lambda>l. lease_run_id l \<noteq> i) (s_leases s)\<rparr>)"
    if "lease_of s i = Some l" "lease_is_stale h l" for l
    by (rule moves_lease_filter) (use that in auto)
  then show "keeps_at (moves lands h a) s (clear_stale_lease h i)"
    by (cases "lease_of s i") (auto simp: clear_stale_lease_def keeps_at_def tx_read_def tx_write_def
        tx_then_def tx_bind_def tx_return_def moves.refl)
qed

subsection \<open>The other tables\<close>

lemma keeps_tables_write:
  assumes "\<And>s. s_queue (f s) = s_queue s" "\<And>s. s_leases (f s) = s_leases s"
    and "\<And>s. tables_sound s \<Longrightarrow> tables_sound (f s)"
  shows "keeps (moves lands h a) (tx_write f)"
  by (rule keeps_write, rule moves_tables) (use assms in \<open>auto intro: leases_kept_same\<close>)

lemma tables_sound_others [simp]:
  "tables_sound (s\<lparr>s_supervised := x\<rparr>) = tables_sound s" "tables_sound (s\<lparr>s_settled := y\<rparr>) = tables_sound s"
  "tables_sound (s\<lparr>s_asks := z\<rparr>) = tables_sound s" "tables_sound (s\<lparr>s_log := w\<rparr>) = tables_sound s"
  by (simp_all add: tables_sound_def)

lemma keeps_set_supervisor: "keeps (moves lands h a) (set_supervisor i token)"
  unfolding set_supervisor_def by (rule keeps_tables_write) simp_all

lemma keeps_log_event: "keeps (moves lands h a) (log_event i kind)"
  unfolding log_event_def by (rule keeps_tables_write) simp_all

lemma keeps_settle_open: "keeps (moves lands h a) (settle_open hold now)"
  unfolding settle_open_def by (intro moves.keeps_structure keeps_tables_write) simp_all

lemma keeps_settle_at_rest: "keeps (moves lands h a) (settle_at_rest_in h' i checked)"
  unfolding settle_at_rest_in_def by (intro moves.keeps_structure keeps_settle_open)

lemma keeps_run_event: "keeps (moves lands h a) (run_event h' i kind)"
  unfolding run_event_def by (intro moves.keeps_structure keeps_log_event keeps_settle_at_rest)

lemma keeps_close_asks: "keeps (moves lands h a) (close_asks_in h' i kind answer)"
  unfolding close_asks_in_def by (rule keeps_tables_write) simp_all

lemma keeps_close_ask: "keeps (moves lands h a) (close_ask ask now)"
  unfolding close_ask_def by (rule keeps_tables_write) simp_all

lemma keeps_processes:
  "keeps (moves lands h a) (clear_processes i)"
  "(\<And>p. process_run_id (f p) = process_run_id p \<and> process_role (f p) = process_role p) \<Longrightarrow>
    keeps (moves lands h a) (update_processes condition f)"
proof -
  show "keeps (moves lands h a) (clear_processes i)"
    unfolding clear_processes_def
    by (rule keeps_tables_write) (auto simp: tables_sound_def intro: distinct_map_filter)
  assume f: "\<And>p. process_run_id (f p) = process_run_id p \<and> process_role (f p) = process_role p"
  have "map (\<lambda>p. (process_run_id p, process_role p)) (map (\<lambda>p. if condition p then f p else p) ps)
      = map (\<lambda>p. (process_run_id p, process_role p)) ps" for ps
    using f by (induction ps) auto
  then show "keeps (moves lands h a) (update_processes condition f)"
    unfolding update_processes_def
    by (intro keeps_tables_write) (simp_all add: tables_sound_def del: map_map)
qed

lemma keeps_insert_process: "keeps (moves lands h a) (insert_process h' i role pid refusal)"
proof (rule keepsI)
  fix s :: RunStore
  let ?p = "\<lparr>process_run_id = i, process_role = role, process_pid = pid,
    process_heartbeat_at = host_now h', process_exited_at = None, process_exit_code = None\<rparr>"
  have "moves lands h a s (s\<lparr>s_processes := s_processes s @ [?p]\<rparr>)"
    if "\<not> list_ex (\<lambda>p. process_run_id p = i \<and> process_role p = role) (s_processes s)"
    by (rule moves_tables) (use that in \<open>auto simp: tables_sound_def list_ex_iff intro: leases_kept_same\<close>)
  then show "keeps_at (moves lands h a) s (insert_process h' i role pid refusal)"
    unfolding insert_process_def
    by (intro keeps_at_read moves.keeps_at_ensure_then) (simp add: keeps_at_def tx_write_def)
qed

lemma keeps_change_registration:
  assumes "\<And>r. sup_token (f r) = sup_token r"
  shows "keeps (moves lands h a) (change_registration token condition f)"
proof -
  have "map sup_token (map (\<lambda>r. if sup_token r = token then f r else r) rs) = map sup_token rs" for rs
    using assms by (induction rs) auto
  then have "keeps (moves lands h a) (tx_write (update_registration token f))"
    by (intro keeps_tables_write) (simp_all add: update_registration_def tables_sound_def del: map_map)
  then show ?thesis unfolding change_registration_def by (intro moves.keeps_structure)
qed

lemma keeps_remove_registration: "keeps (moves lands h a) (remove_registration token)"
  unfolding remove_registration_def
  by (rule keeps_tables_write) (auto simp: tables_sound_def intro: distinct_map_filter)

subsection \<open>The runs\<close>

lemma runs_advance_map:
  "(\<And>r. r \<in> set rs \<Longrightarrow> run_reaches r (f r)) \<Longrightarrow> runs_advance rs (map f rs)"
  by (rule runs_advance_pointwise) (simp add: list_all2_conv_all_nth)

lemma queue_step_runs: "queue_step q (q\<lparr>q_runs := rs\<rparr>)"
proof -
  have "q\<lparr>q_goals := q_goals q, q_holds := q_holds q, q_runs := rs\<rparr> = q\<lparr>q_runs := rs\<rparr>" by simp
  then show ?thesis by (metis queue_step.others)
qed

lemma moves_runs:
  assumes "tables_sound s \<Longrightarrow> run_indexes_ok (map f (q_runs (s_queue s)))"
    and "\<And>r. tables_sound s \<Longrightarrow> r \<in> set (q_runs (s_queue s)) \<Longrightarrow>
      run_reaches r (f r) \<and> (landed (f r) \<longrightarrow> run_id r \<in> lands \<or> landed r)"
  shows "moves lands h a s (s\<lparr>s_queue := (s_queue s)\<lparr>q_runs := map f (q_runs (s_queue s))\<rparr>\<rparr>)"
  unfolding moves_def
proof (intro impI)
  assume sound: "tables_sound s"
  note f = assms(2) [OF sound]
  let ?s = "s\<lparr>s_queue := (s_queue s)\<lparr>q_runs := map f (q_runs (s_queue s))\<rparr>\<rparr>"
  have "runs_advance (q_runs (s_queue s)) (map f (q_runs (s_queue s)))"
    by (rule runs_advance_map) (simp add: f)
  moreover have "none_lands lands s ?s"
    unfolding none_lands_def using f run_reaches_ids by fastforce
  moreover have "none_completes (s_queue s) (s_queue ?s)" by (simp add: none_completes_def status_of_def row_of_def)
  ultimately show "tables_sound ?s \<and> queue_step\<^sup>*\<^sup>* (s_queue s) (s_queue ?s)
      \<and> runs_advance (q_runs (s_queue s)) (q_runs (s_queue ?s)) \<and> none_lands lands s ?s
      \<and> none_completes (s_queue s) (s_queue ?s) \<and> leases_kept h a s ?s"
    using assms(1) sound queue_step_runs by (auto simp: tables_sound_def intro: leases_kept_same)
qed

lemma stored_run_unique:
  assumes "tables_sound s" "stored_run s i = Some row" "r \<in> set (q_runs (s_queue s))" "run_id r = i"
  shows "r = row"
proof -
  from assms(1) have "distinct (map run_id (q_runs (s_queue s)))" by (simp add: tables_sound_def run_indexes_ok_def)
  moreover from assms(2) have "row \<in> set (q_runs (s_queue s))" "run_id row = i"
    by (auto simp: stored_run_def find_Some_iff)
  ultimately show ?thesis using assms(3,4) by (auto simp: distinct_map dest: inj_onD)
qed

lemma stored_run_id: "stored_run s i = Some row \<Longrightarrow> run_id row = i"
  by (auto simp: stored_run_def dest: find_pred)

lemma keeps_save_run_row:
  assumes "stored_run s i = Some row" "run_reaches row run" "saved_row row run = run"
    and "landed run \<Longrightarrow> i \<in> lands \<or> landed row"
  shows "keeps_at (moves lands h a) s (save_run_row run from token)"
proof -
  have i: "run_id run = i" using run_reaches_ids [OF assms(2)] stored_run_id [OF assms(1)] by simp
  let ?f = "\<lambda>r. if run_id r = i then saved_row r run else r"
  have "moves lands h a s (s\<lparr>s_queue := (s_queue s)\<lparr>q_runs := map ?f (q_runs (s_queue s))\<rparr>\<rparr>)"
    if "run_indexes_ok (map ?f (q_runs (s_queue s)))"
  proof (rule moves_runs [OF that])
    fix r assume sound: "tables_sound s" and r: "r \<in> set (q_runs (s_queue s))"
    show "run_reaches r (?f r) \<and> (landed (?f r) \<longrightarrow> run_id r \<in> lands \<or> landed r)"
    proof (cases "run_id r = i")
      case True
      with stored_run_unique [OF sound assms(1) r] assms show ?thesis by simp
    qed simp
  qed
  then show ?thesis
    by (auto simp: save_run_row_def keeps_at_def update_run_row_def i assms(1) moves.refl Let_def)
qed

lemma keeps_save_run:
  assumes "stored_run s i = Some row" "run_reaches row run" "saved_row row run = run"
    and "landed run \<Longrightarrow> i \<in> lands \<or> landed row"
  shows "keeps_at (moves lands h a) s (save_run h' run from token)"
  unfolding save_run_def
  by (intro moves.keeps_at_bind keeps_save_run_row [OF assms] moves.keeps_structure keeps_log_event
      keeps_settle_at_rest)

abbreviation may_land :: "bool \<Rightarrow> RunCommand \<Rightarrow> bool" where
  "may_land b c \<equiv> b \<or> settled_command c"

lemma drawn_saves:
  assumes "drawn (may_land b) f" "f row = Inr run"
  shows "run_reaches row run" "saved_row row run = run" "landed run \<Longrightarrow> b \<or> landed row"
proof -
  from drawn_reaches [OF assms] show "run_reaches row run" "saved_row row run = run" by auto
  show "b \<or> landed row" if "landed run"
    using assms that landed_by_command unfolding drawn_def by (cases b) blast+
qed

lemma keeps_apply_run:
  assumes "drawn (may_land (i \<in> lands)) f"
  shows "keeps (moves lands h a) (apply_run h' i token refusal f)"
proof (rule keepsI)
  fix s :: RunStore
  show "keeps_at (moves lands h a) s (apply_run h' i token refusal f)"
    unfolding apply_run_def
  proof (intro keeps_at_read keeps_at_option keeps_at_keeps [OF keeps_fail])
    fix row assume row: "stored_run s i = Some row"
    show "keeps_at (moves lands h a) s (case f row of Inl e \<Rightarrow> tx_fail refusal
      | Inr changed \<Rightarrow> tx_bind (save_run h' changed (run_status row) token)
          (\<lambda>saved. tx_then (tx_ensure saved refusal) (tx_return changed)))"
    proof (cases "f row")
      case (Inr run)
      then show ?thesis
        by simp (intro moves.keeps_at_bind keeps_save_run [OF row] drawn_saves [OF assms Inr] moves.keeps_structure)
    qed (simp add: keeps_at_keeps [OF keeps_fail])
  qed
qed

definition saved_of :: "(TaskRun \<Rightarrow> (TaskRun \<times> RunEventKind list) result) \<Rightarrow> TaskRun \<Rightarrow> TaskRun result" where
  "saved_of f r = and_then (f r) (\<lambda>(run, _). Inr run)"

lemma keeps_apply_recorded:
  assumes "drawn (may_land (i \<in> lands)) (saved_of f)"
  shows "keeps (moves lands h a) (apply_recorded h' i token refusal f)"
proof (rule keepsI)
  fix s :: RunStore
  show "keeps_at (moves lands h a) s (apply_recorded h' i token refusal f)"
    unfolding apply_recorded_def
  proof (intro keeps_at_read keeps_at_option keeps_at_keeps [OF keeps_fail])
    fix row assume row: "stored_run s i = Some row"
    show "keeps_at (moves lands h a) s (case f row of Inl e \<Rightarrow> tx_fail refusal
      | Inr (changed, kinds) \<Rightarrow> tx_bind (save_run h' changed (run_status row) token)
          (\<lambda>saved. tx_then (tx_ensure saved refusal)
            (tx_then (record_events h' i kinds) (tx_return changed))))"
    proof (cases "f row")
      case (Inr x)
      obtain run kinds where x: "x = (run, kinds)" by (cases x)
      from Inr x have "saved_of f row = Inr run" by (simp add: saved_of_def)
      then show ?thesis
        unfolding Inr x
        by simp (intro moves.keeps_at_bind keeps_save_run [OF row] drawn_saves [OF assms] moves.keeps_structure
            keeps_run_event)
    qed (simp add: keeps_at_keeps [OF keeps_fail])
  qed
qed

subsection \<open>The queue\<close>

lemma keeps_queue:
  assumes "\<And>q q' x. f q = Inr (q', x) \<Longrightarrow> queue_step q q' \<and> q_runs q' = q_runs q \<and> none_completes q q'"
  shows "keeps (moves lands h a) (tx_queue f)"
proof (rule keepsI, unfold keeps_at_def, intro allI impI)
  fix s s' x assume "tx_queue f s = Inr (s', x)"
  then obtain q' where q': "f (s_queue s) = Inr (q', x)" "s' = s\<lparr>s_queue := q'\<rparr>"
    by (auto simp: tx_queue_def and_then_eq_Inr)
  from assms [OF q'(1)] show "moves lands h a s s'"
    by (auto simp: q'(2) moves_def tables_sound_def none_lands_def intro: leases_kept_same)
qed

lemma queue_rows_runs [simp]:
  "q_runs (set_status q i st now) = q_runs q" "q_runs (end_with_task q i st) = q_runs q"
  "q_runs (update_task q i f) = q_runs q"
  by (simp_all add: set_status_def update_task_def end_with_task_def Let_def split: option.split)

lemma end_task_runs: "end_task q i run st now = Inr (q', t) \<Longrightarrow> q_runs q' = q_runs q"
  by (auto simp: end_task_def and_then_eq_Inr Let_def split: if_splits)

lemma apply_transition_runs: "apply_transition facts q i action now = Inr (q', t) \<Longrightarrow> q_runs q' = q_runs q"
  by (auto simp: apply_transition_def and_then_eq_Inr Let_def split: if_splits)

lemma apply_transition_completes:
  assumes "apply_transition facts q i action now = Inr (q', t)"
  shows "none_completes q q'"
proof (rule apply_transition_accepted [OF assms])
  fix u st assume u: "TaskStatus_transition (task_status u) action (has_unfinished_run q i) = Inr st"
    "core_of q' = core_of (set_status q i st now)" "status_of q i = Some (task_status u)"
  then have "c_status (core_of q') = (status_of q)(i \<mapsto> st)" by (simp add: core_of_set_status)
  then have "status_of q' = (status_of q)(i \<mapsto> st)" by simp
  moreover have "st \<noteq> TaskStatus.Completed" using transition_statuses(2) [OF u(1)] by auto
  ultimately show "none_completes q q'" by (auto simp: none_completes_def)
qed

lemma keeps_transition: "keeps (moves lands h a) (tx_queue (\<lambda>q. apply_transition facts q i action now))"
  by (rule keeps_queue) (auto dest: apply_transition_runs apply_transition_completes intro: queue_step.transition)

lemma none_completes_operations [simp]: "none_completes q (q\<lparr>q_operations := ops\<rparr>)"
  by (simp add: none_completes_def status_of_def row_of_def)

lemma keeps_move_operation: "keeps (moves lands h a) (move_operation h' facts op generation step)"
  unfolding move_operation_def move_in_def
  by (rule keeps_queue) (auto simp: and_then_eq_Inr intro!: queue_step.replanned replan_step.moved)

lemma keeps_reopen_operation: "keeps (moves lands h a) (reopen_operation h' facts op generation why)"
  unfolding reopen_operation_def
  by (rule keeps_queue) (auto simp: and_then_eq_Inr intro!: queue_step.replanned replan_step.reopened)

end
