(* ===== verification/Run_Handlers.thy ===== *)
theory Run_Handlers
  imports Run_Keeps
begin

text \<open>
  One line per handler of the store of runs: it keeps its frame. A handler of a supervisor acts as
  the holder of its token, one of a person or of a session as nobody's holder; only the closing of
  a satisfied claim and the end of a landing may land a run.
\<close>

section \<open>Commands\<close>

lemmas by_command = run_apply.simps(3-) [symmetric]

lemma drawn_apply: "plain_command c \<Longrightarrow> may_land b c \<Longrightarrow> drawn (may_land b) (run_apply c)"
  by (rule drawnI [of _ c]) simp_all

lemma drawn_validated: "drawn (may_land b) (saved_of (\<lambda>run. record_validation run v))"
  unfolding drawn_def
proof (intro allI impI)
  fix r r' assume "saved_of (\<lambda>run. record_validation run v) r = Inr r'"
  then have "validated r v = Inr r'" by (auto simp: saved_of_def record_validation_def and_then_eq_Inr)
  then have "r' = r \<or> (\<exists>commit. run_apply (Accept commit) r = Inr r')
      \<or> run_apply (Reject (val_result_commit v) (val_reason v) (Validation_resumable v)) r = Inr r'"
    by (auto simp: validated_def and_then_eq_Inr split: if_splits option.splits)
  moreover have "plain_command (Accept commit) \<and> may_land b (Accept commit)" for commit
    by (simp add: plain_command_def landing_command_def)
  moreover have "plain_command (Reject x y z) \<and> may_land b (Reject x y z)" for x y z
    by (simp add: plain_command_def landing_command_def)
  ultimately show "r' = r \<or> (\<exists>c. run_apply c r = Inr r' \<and> plain_command c \<and> may_land b c)" by blast
qed

lemma saved_of_recording [simp]: "saved_of (\<lambda>run. recording kind (f run)) = f"
proof
  show "saved_of (\<lambda>run. recording kind (f run)) r = f r" for r
    by (cases "f r") (simp_all add: saved_of_def recording_def)
qed

lemma keeps_recording:
  "drawn (may_land (i \<in> lands)) f \<Longrightarrow>
    keeps (moves lands h a) (apply_recorded h' i token refusal (\<lambda>run. recording kind (f run)))"
  by (rule keeps_apply_recorded) simp

lemma index_same: 
  assumes "\<And>r. run_id (f r) = run_id r \<and> run_task_id (f r) = run_task_id r \<and> run_status (f r) = run_status r"
  shows "run_indexes_ok (map f rs) = run_indexes_ok rs"
proof -
  have "map g (filter (\<lambda>r. P (run_status r)) (map f rs)) = map g (filter (\<lambda>r. P (run_status r)) rs)"
    if "\<And>r. g (f r) = g r" for P and g :: "TaskRun \<Rightarrow> 'b"
    using assms that by (induction rs) auto
  note same = this [of run_task_id "\<lambda>st. st \<in> set unfinished_statuses"] this [of run_task_id "\<lambda>st. st = RunStatus.Integrated"]
    this [of run_id "\<lambda>st. st = RunStatus.Integrating", THEN arg_cong, of length]
  have "map run_id (map f rs) = map run_id rs" using assms by (simp add: comp_def)
  moreover have "length (filter (\<lambda>r. run_status r = RunStatus.Integrating) (map f rs))
      = length (filter (\<lambda>r. run_status r = RunStatus.Integrating) rs)"
    using same(3) assms by (simp only: length_map)
  ultimately show ?thesis using same(1,2) assms unfolding run_indexes_ok_def by (simp only:)
qed

lemma keeps_running_on: "keeps (moves lands h a) (tx_write (update_run_row i (\<lambda>r. run_running_on r (w r))))"
proof (rule keeps_write)
  fix s :: RunStore
  let ?f = "\<lambda>r. if run_id r = i then run_running_on r (w r) else r"
  have f: "run_id (?f r) = run_id r \<and> run_task_id (?f r) = run_task_id r \<and> run_status (?f r) = run_status r" for r
    by (simp add: run_running_on_def)
  have "run_reaches r (?f r) \<and> (landed (?f r) \<longrightarrow> run_id r \<in> lands \<or> landed r)" for r
    using run_reaches_command [of "RunningOn (w r)" r] f [of r] by (auto simp: landed_def)
  then have "moves lands h a s (s\<lparr>s_queue := (s_queue s)\<lparr>q_runs := map ?f (q_runs (s_queue s))\<rparr>\<rparr>)"
    by (intro moves_runs) (simp_all add: index_same [OF f] tables_sound_def)
  then show "moves lands h a s (update_run_row i (\<lambda>r. run_running_on r (w r)) s)"
    by (simp add: update_run_row_def)
qed

lemmas commands = keeps_apply_run [OF drawn_apply] keeps_recording [OF drawn_apply]
  keeps_apply_recorded [OF drawn_validated]

lemmas rows = keeps_run_event keeps_log_event keeps_set_supervisor keeps_settle_open keeps_settle_at_rest
  keeps_close_asks keeps_close_ask keeps_processes keeps_insert_process keeps_remove_registration
  keeps_transition keeps_move_operation keeps_reopen_operation keeps_running_on

lemmas leases = keeps_renew_lease keeps_refresh_lease keeps_delete_lease keeps_insert_lease keeps_clear_stale_lease

lemmas parts = moves.keeps_structure commands rows leases

lemmas command_kinds = plain_command_def landing_command_def

section \<open>Coordination\<close>

lemma keeps_heartbeat_leases: "keeps (moves lands h (Some token)) (heartbeat_leases h' token)"
  unfolding heartbeat_leases_def by (intro parts keeps_write moves_lease_map) auto

lemma keeps_heartbeat: "keeps (moves lands h (Some token)) (heartbeat h' token)"
  unfolding heartbeat_def refresh_registration_def
  by (intro parts keeps_heartbeat_leases keeps_change_registration) simp

lemma keeps_register_supervisor:
  "keeps (moves lands h a) (register_supervisor h' token pid parallel version)"
proof (rule keepsI)
  fix s :: RunStore
  let ?r = "new_registration h' token pid parallel version"
  have "moves lands h a s (s\<lparr>s_supervisors := s_supervisors s @ [?r]\<rparr>)" if "registration s token = None"
  proof (rule moves_tables)
    have "token \<notin> sup_token ` set (s_supervisors s)" using that by (auto simp: registration_def find_None_iff)
    then show "tables_sound s \<Longrightarrow> tables_sound (s\<lparr>s_supervisors := s_supervisors s @ [?r]\<rparr>)"
      by (simp add: tables_sound_def new_registration_def)
  qed (simp_all add: leases_kept_same)
  then show "keeps_at (moves lands h a) s (register_supervisor h' token pid parallel version)"
    unfolding register_supervisor_def
    by (intro moves.keeps_at_ensure_then keeps_at_read moves.keeps_at_then) (simp_all add: keeps_at_def tx_write_def parts)
qed

lemma keeps_registrations:
  "keeps (moves lands h a) (set_supervisor_mode token mode workspace)"
  "keeps (moves lands h a) (deregister_supervisor token)"
  "keeps (moves lands h a) (prune_supervisor token)"
  "keeps (moves lands h a) (set_auto_update token enabled)"
  "keeps (moves lands h a) (accept_handoff token)"
  "keeps (moves lands h a) (request_handoff h' token binary)"
  "keeps (moves lands h a) (cancel_handoff token binary)"
  "keeps (moves lands h a) (take_handoff token binary)"
  "keeps (moves lands h a) (resume_registration h' token pid version)"
  "keeps (moves lands h a) (refuse_on_handoff token)"
  unfolding set_supervisor_mode_def deregister_supervisor_def prune_supervisor_def set_auto_update_def
    accept_handoff_def request_handoff_def cancel_handoff_def take_handoff_def resume_registration_def
    refuse_on_handoff_def
  by (intro parts keeps_change_registration; simp)+

lemma keeps_release_lease: "keeps (moves lands h (Some token)) (release_lease h' i token)"
  unfolding release_lease_def by (intro parts)

lemma keeps_assert_wrapper: "keeps (moves lands h a) (assert_wrapper i pid)"
  unfolding assert_wrapper_def by (intro parts)

lemma keeps_sessions:
  "keeps (moves lands h (Some token)) (register_resume_wrapper h' i token pid)"
  "keeps (moves lands h a) (register_resume_agent h' i wrapper_pid agent_pid)"
  "keeps (moves lands h (Some token)) (clear_lost_session i h' token lost)"
  "keeps (moves lands h (Some token)) (session_reopened h' i token workspace)"
  "keeps (moves lands h (Some token)) (register_wrapper h' i token pid)"
  "keeps (moves lands h a) (register_agent h' i wrapper_pid agent_pid)"
  "keeps (moves lands h a) (register_turn_agent h' i wrapper_pid agent_pid)"
  "keeps (moves lands h a) (heartbeat_wrapper h' i pid)"
  "keeps (moves lands h a) (wrapper_exited h' i pid exit_code)"
  unfolding register_resume_wrapper_def register_resume_agent_def clear_lost_session_def
    session_reopened_def register_wrapper_def register_agent_def register_turn_agent_def
    heartbeat_wrapper_def wrapper_exited_def by_command
  by (intro parts keeps_assert_wrapper; simp add: command_kinds)+

section \<open>Transitions\<close>

lemma keeps_end_stalled: "keeps (moves lands h a) (end_stalled_detections h' i answer)"
  unfolding end_stalled_detections_def by (intro parts)

lemma keeps_give_back: "keeps (moves lands h (Some token)) (give_back h' i token)"
  unfolding give_back_def by (intro parts)

lemma keeps_landing_asks: "keeps (moves lands h a) (close_landing_asks h' i answer)"
  unfolding close_landing_asks_def by (intro parts)

lemma keeps_check_run_step: "keeps (moves lands h a) (check_run_step i st)"
  unfolding check_run_step_def by (intro parts)

lemma keeps_unleased: "keeps (moves lands h a) (unleased i refusal)"
  unfolding unleased_def by (intro parts)

lemmas more_parts = parts keeps_assert_wrapper keeps_end_stalled keeps_give_back keeps_landing_asks
  keeps_check_run_step keeps_unleased keeps_registrations(10)

lemmas recordings = under_lease_def end_session_def record_satisfied_close_def record_satisfied_decision_def
  record_landing_decision_def record_live_park_def record_replan_park_def record_hold_park_def
  record_e2e_park_def record_recheck_park_def by_command

lemma keeps_provisioning:
  "keeps (moves lands h (Some token)) (abandon_run h' i token message)"
  "keeps (moves lands h (Some token)) (plan_run h' i token plan)"
  "keeps (moves lands h (Some token)) (workspace_created h' i token workspace)"
  "keeps (moves lands h a) (record_runtime_error h' i message)"
  unfolding abandon_run_def plan_run_def workspace_created_def record_runtime_error_def by_command
  by (intro more_parts; simp add: command_kinds)+

lemma keeps_supervision:
  "keeps (moves lands h (Some token)) (finish_supervision h' i token receipt)"
  "keeps (moves lands h (Some token)) (finish_lost_session h' i token code receipt)"
  "keeps (moves lands h (Some token)) (finish_supervision_live h' i token)"
  "keeps (moves lands h (Some token)) (restart_validation h' i token)"
  "keeps (moves lands h (Some token)) (finish_validation h' i token v)"
  "keeps (moves lands h (Some token)) (switch_provider h' i token worker)"
  unfolding finish_supervision_def finish_lost_session_def finish_supervision_live_def
    restart_validation_def finish_validation_def switch_provider_def recordings
  by (intro more_parts; simp add: command_kinds)+

lemma keeps_decisions:
  "keeps (moves lands h a) (decide_landing h' i to reason)"
  "keeps (moves lands h a) (decide_satisfied h' facts i reason move)"
  unfolding decide_landing_def decide_satisfied_def recordings
  by (intro more_parts; simp add: command_kinds)+

section \<open>Parking\<close>

lemma keeps_parks:
  "keeps (moves lands h (Some token)) (park_live h' i token reason)"
  "keeps (moves lands h (Some token)) (park_e2e_failed h' i token reason)"
  "keeps (moves lands h (Some token)) (park_for_hold h' hold i token reason)"
  unfolding park_live_def park_e2e_failed_def park_for_hold_def recordings
  by (intro more_parts; simp add: command_kinds)+

lemma keeps_settle_replan: "keeps (moves lands h token) (settle_replan h' facts op generation st token)"
proof (cases token)
  case None
  show ?thesis
    unfolding settle_replan_def recordings None option.case Let_def
    by (intro more_parts; simp add: command_kinds)
next
  case (Some t)
  show ?thesis
    unfolding settle_replan_def recordings Some option.case Let_def
    by (intro more_parts; simp add: command_kinds)
qed

lemma drawn_fence:
  "drawn (may_land b) (saved_of (\<lambda>run. case fence of
     FenceReplan x \<Rightarrow> record_replan_park run reason | FenceHold y \<Rightarrow> record_hold_park run reason))"
proof (cases fence)
  case (FenceReplan x)
  show ?thesis
    unfolding recordings FenceReplan Fence.case saved_of_recording by (rule drawn_apply) (simp_all add: command_kinds)
next
  case (FenceHold y)
  show ?thesis
    unfolding recordings FenceHold Fence.case saved_of_recording by (rule drawn_apply) (simp_all add: command_kinds)
qed

lemma keeps_rests:
  "keeps (moves lands h (Some token)) (rest_fenced h' i token reason)"
  "keeps (moves lands h a) (settle_hold_at_rest h' hold i status)"
  "keeps (moves lands h (Some token)) (release_for_hold h' hold i token)"
  unfolding rest_fenced_def settle_hold_at_rest_def release_for_hold_def
  by (intro more_parts keeps_apply_recorded [OF drawn_fence])+

lemma keeps_park_rechecked: "keeps (moves lands h token) (park_rechecked h' i token reason)"
proof (cases token)
  case None
  show ?thesis
    unfolding park_rechecked_def recordings None option.case
    by (intro more_parts; simp add: command_kinds)
next
  case (Some t)
  show ?thesis
    unfolding park_rechecked_def recordings Some option.case
    by (intro more_parts; simp add: command_kinds)
qed

section \<open>The landing\<close>

lemma keeps_begin_e2e: "keeps (moves lands h a) (begin_e2e h' i token refused)"
  unfolding begin_e2e_def by (intro more_parts)

lemma keeps_registration_live: "keeps (moves lands h a) (registration_live h' token)"
  unfolding registration_live_def by (intro more_parts)

lemma keeps_take_landing_lease: "keeps (moves lands h (Some token)) (take_landing_lease h' i token pid)"
  unfolding take_landing_lease_def by (intro more_parts keeps_write moves_lease_map) auto

lemma keeps_begin_integration_then:
  "keeps (moves lands h (Some token)) continue \<Longrightarrow>
    keeps (moves lands h (Some token)) (begin_integration_then h' i token refused holder continue)"
  unfolding begin_integration_then_def recordings
  by (intro more_parts keeps_registration_live keeps_take_landing_lease; simp add: command_kinds)

lemma keeps_begin_integration:
  "keeps (moves lands h (Some token)) (begin_integration h' i token)"
  "keeps (moves lands h (Some token)) (begin_integration_over_handoff h' i token)"
  unfolding begin_integration_def begin_integration_over_handoff_def
  by (intro moves.keeps_structure keeps_begin_integration_then)+

lemma keeps_leave_integration:
  "drawn (may_land (i \<in> lands)) f \<Longrightarrow> keeps (moves lands h (Some token)) (leave_integration h' i token kind f)"
  unfolding leave_integration_def by (intro moves.keeps_structure keeps_apply_run leases rows)

lemma keeps_leave:
  "keeps (moves lands h (Some token)) (defer_integration h' i token reason)"
  "keeps (moves lands h (Some token)) (hold_integration h' i token reason)"
  "keeps (moves lands h (Some token)) (fail_integration h' i token reason)"
  "keeps (moves lands h (Some token)) (abort_integration h' i token revert_to message)"
  "keeps (moves lands h (Some token)) (hand_over_integration h' i token revert_to)"
  unfolding defer_integration_def hold_integration_def fail_integration_def abort_integration_def
    hand_over_integration_def by_command
  by (intro keeps_leave_integration more_parts drawn_apply; simp add: command_kinds)+

lemma keeps_cleanup:
  "keeps (moves lands h a) (record_cleanup_failure h' i message)"
  "keeps (moves lands h (Some token)) (workspace_closed h' i token)"
  "keeps (moves lands h (Some token)) (cleanup_failed h' i token message)"
  unfolding record_cleanup_failure_def workspace_closed_def cleanup_failed_def by_command
  by (intro more_parts; simp add: command_kinds)+

lemma keeps_record_workspace_closed:
  "keeps (moves lands h a) (record_workspace_closed h' i workspace)"
proof (rule keepsI)
  fix s :: RunStore
  have drawn: "drawn (may_land (i \<in> lands)) (run_apply (RecordClosedWorkspace workspace (host_now h')))"
    by (rule drawn_apply) (simp_all add: command_kinds)
  have "moves lands h a s s'"
    if "stored_run s i = Some run" "run_record_closed_workspace run workspace (host_now h') = Inr changed"
      and "save_run h' changed before None s = Inr (s', x)" for run changed before s' x
    using keeps_atD [OF keeps_save_run [OF that(1) drawn_saves [OF drawn]] that(3)] that(2) by simp
  then show "keeps_at (moves lands h a) s (record_workspace_closed h' i workspace)"
    unfolding record_workspace_closed_def
    by (intro keeps_at_read moves.keeps_at_then keeps_run_event keeps_at_option keeps_at_keeps [OF moves.keeps_return])
      (auto simp: tx_check_def tx_bind_def and_then_eq_Inr keeps_at_def tx_then_def tx_return_def)
qed

section \<open>Taking a run over\<close>

lemma keeps_swap_lease:
  assumes "lease_of s i = Some l" "lease_is_stale h l"
  shows "keeps_at (moves lands h a) s (swap_lease i previous token pid now)"
  unfolding swap_lease_def keeps_at_def tx_write_def
  by (auto intro!: moves_lease_map) (use assms in \<open>auto split: if_splits\<close>)

lemma keeps_adopt_run: "keeps (moves lands h a) (adopt_run h i previous token pid)"
proof (rule keepsI)
  fix s :: RunStore
  have "keeps_at (moves lands h a) s (tx_then (swap_lease i previous token pid (host_now h))
      (tx_then (set_supervisor i token) (tx_then (run_event h i RunAdopted) (tx_read (\<lambda>s. stored_run s i) tx_return))))"
    if "option_filter (\<lambda>l. lease_token l = previous) (lease_of s i) = Some l" "lease_is_stale h l" for l
    by (intro moves.keeps_at_then keeps_swap_lease more_parts)
      (use that in \<open>auto simp: option_filter_def split: option.splits if_splits\<close>)
  then show "keeps_at (moves lands h a) s (adopt_run h i previous token pid)"
    unfolding adopt_run_def
    by (intro moves.keeps_at_commit_some keeps_at_read)
      (auto simp: keeps_at_keeps [OF moves.keeps_return] split: option.split)
qed

lemma keeps_lease_in: "keeps (moves lands h a) (lease_in h i token)"
  unfolding lease_in_def by (intro more_parts)

lemma keeps_own_or_lease_in: "keeps (moves lands h (Some token)) (own_or_lease_in h i token)"
  unfolding own_or_lease_in_def by (intro more_parts keeps_lease_in)

lemma keeps_lease_unheld: "keeps (moves lands h a) (lease_unheld h i token status guarded)"
  unfolding lease_unheld_def by (intro more_parts keeps_lease_in)

lemma keeps_takeovers:
  "keeps (moves lands h a) (lease_awaiting h i token)"
  "keeps (moves lands h a) (lease_satisfied h i token)"
  "keeps (moves lands h a) (lease_stranded_landing h judged i token)"
  "keeps (moves lands h (Some token)) (lease_for_park h i token op generation)"
  "keeps (moves lands h (Some token)) (lease_for_hold_park h i token hold)"
  unfolding lease_awaiting_def lease_satisfied_def lease_stranded_landing_def lease_for_park_def
    lease_for_hold_park_def
  by (intro more_parts keeps_lease_unheld keeps_lease_in keeps_own_or_lease_in)+

lemma same_leases_event: "keeps (\<lambda>s s'. s_leases s' = s_leases s) (run_event h i kind)"
  unfolding run_event_def log_event_def settle_at_rest_in_def settle_open_def
  by (intro same_leases.keeps_structure keeps_write) simp_all

lemma same_leases_apply: "keeps (\<lambda>s s'. s_leases s' = s_leases s) (apply_run h i token refusal f)"
proof -
  have "keeps (\<lambda>s s'. s_leases s' = s_leases s) (save_run_row run before holder)" for run before holder
    by (auto simp: keeps_def keeps_at_def save_run_row_def update_run_row_def Let_def split: option.splits if_splits)
  then show ?thesis
    unfolding apply_run_def save_run_def log_event_def settle_at_rest_in_def settle_open_def
    by (intro same_leases.keeps_structure keeps_write) simp_all
qed

lemma keeps_recover_run: "keeps (moves lands h a) (recover_run h i checked)"
proof (rule keepsI)
  fix s :: RunStore
  let ?refusal = "''run '' @ run_id_as_str i @ '': only unfinished runs can be recovered''"
  let ?cleared = "\<lambda>t. t\<lparr>s_leases := filter (\<lambda>l. lease_run_id l \<noteq> i) (s_leases t)\<rparr>"
  let ?rest = "\<lambda>run. tx_then (tx_write ?cleared) (tx_then (run_event h i RunRecovered)
    (tx_then (end_stalled_detections h i STALL_RECOVERED_CLOSED) (tx_return run)))"
  have interrupt: "keeps (moves lands h a) (apply_run h i None ?refusal run_interrupt)"
    unfolding by_command by (intro commands) (simp_all add: command_kinds)
  have "keeps_at (moves lands h a) s (tx_bind (apply_run h i None ?refusal run_interrupt) ?rest)"
    if old: "case lease_of s i of None \<Rightarrow> True
        | Some l \<Rightarrow> \<not> host_now h - HEARTBEAT_TIMEOUT_SECS \<le> lease_heartbeat_at l"
    unfolding keeps_at_def
  proof (intro allI impI)
    fix u x assume "tx_bind (apply_run h i None ?refusal run_interrupt) ?rest s = Inr (u, x)"
    then obtain t run where t: "apply_run h i None ?refusal run_interrupt s = Inr (t, run)" "?rest run t = Inr (u, x)"
      by (auto simp: tx_bind_def and_then_eq_Inr)
    from keepsD [OF same_leases_apply t(1)] have leases: "lease_of t j = lease_of s j" for j
      by (simp add: lease_of_def)
    have "moves lands h a t (?cleared t)"
      by (rule moves_lease_filter) (use old leases in \<open>auto simp: lease_is_stale_def\<close>)
    then have "keeps_at (moves lands h a) t (?rest run)"
      by (intro moves.keeps_at_then more_parts) (simp add: keeps_at_def tx_write_def)
    from keeps_atD [OF this t(2)] keepsD [OF interrupt t(1)] show "moves lands h a s u"
      by (rule moves.trans [rotated])
  qed
  then show "keeps_at (moves lands h a) s (recover_run h i checked)"
    unfolding recover_run_def by (intro keeps_at_read moves.keeps_at_ensure_then)
qed

section \<open>Resumes\<close>

lemma keeps_lease_parked_run: "keeps (moves lands h a) (lease_parked_run h i token clear)"
  unfolding lease_parked_run_def by (intro more_parts)

lemma keeps_begin_resume: "keeps (moves lands h a) (begin_resume h i token resumes limit repair)"
  unfolding begin_resume_def by (intro more_parts keeps_lease_parked_run)

lemma keeps_skip_resume: "keeps (moves lands h a) (skip_resume h i token head approved)"
  unfolding skip_resume_def by_command
  by (intro more_parts keeps_lease_parked_run; simp add: command_kinds)

lemma keeps_finish_resumes:
  "keeps (moves lands h (Some token)) (finish_resume h' i token status reason keep_lease)"
  "keeps (moves lands h (Some token)) (finish_approved_resume h' i token head)"
  unfolding finish_resume_def finish_approved_resume_def end_resume_def by_command
  by (intro more_parts; simp add: command_kinds)+

section \<open>Rounds\<close>

lemma keeps_begin_triage: "keeps (moves lands h a) (begin_triage h i token due requested)"
  unfolding begin_triage_def by (intro more_parts)

lemma keeps_ready_again: "keeps (moves lands h a) (ready_again h' facts task)"
  unfolding ready_again_def by (intro more_parts)

lemma keeps_apply_triage_action: "keeps (moves lands h a) (apply_triage_action h' facts inherited run action)"
  unfolding apply_triage_action_def Let_def by_command
  by (cases action; simp; intro more_parts keeps_ready_again; simp add: command_kinds)

lemma keeps_finish_triage:
  "keeps (moves lands h (Some token)) (finish_triage h' facts inherited i token action also)"
  unfolding finish_triage_def keep_held_verdict_def by (intro more_parts keeps_apply_triage_action)

lemma keeps_exhaust_resumes:
  "keeps (moves lands h a) (exhaust_resumes h facts i exhaustion reason resumes limit inherits)"
  unfolding exhaust_resumes_def by_command
  by (intro more_parts keeps_ready_again; simp add: command_kinds)

lemma keeps_unleased_latest: "keeps (moves lands h a) (unleased_latest_triageable h i)"
  unfolding unleased_latest_triageable_def Let_def by (intro more_parts)

lemma keeps_decide_triage: "keeps (moves lands h a) (decide_triage h facts kept i ask answer reason)"
proof -
  have "keeps (moves lands h a) (case action of AnswerRetry \<Rightarrow> ready_again h facts task
      | AnswerResume \<Rightarrow> tx_then (apply_run h i None refusal (\<lambda>run. run_resume_after_triage run reason)) (tx_return ())
      | AnswerCancel \<Rightarrow> tx_then (tx_queue (\<lambda>q. apply_transition facts q task TaskAction.Cancel (host_stamp h))) (tx_return ())
      | AnswerRecover \<Rightarrow> tx_return ())" for action task refusal
    unfolding by_command by (cases action; simp; intro more_parts keeps_ready_again; simp add: command_kinds)
  then show ?thesis
    unfolding decide_triage_def by (intro more_parts keeps_unleased_latest)
qed

section \<open>Restores\<close>

lemma keeps_begin_restore: "keeps (moves lands h (Some token)) (begin_restore h records i token op generation)"
  unfolding begin_restore_def by (intro more_parts keeps_own_or_lease_in)

lemma keeps_record_restore:
  "keeps (moves lands h (Some token)) (record_restore h' facts i token op generation restored)"
  unfolding record_restore_def record_restore_in_def by (intro more_parts)

lemma keeps_give_back_restore: "keeps (moves lands h (Some token)) (give_back_restore h' i token)"
  unfolding give_back_restore_def by (intro more_parts)

lemma keeps_finish_restore:
  "keeps (moves lands h (Some token)) (finish_restore h' facts i token op generation restored)"
proof (rule keepsI, unfold keeps_at_def, intro allI impI)
  fix s s' x assume ends: "finish_restore h' facts i token op generation restored s = Inr (s', x)"
  note given = keepsD [OF keeps_give_back_restore]
  show "moves lands h (Some token) s s'"
  proof (cases "record_restore h' facts i token op generation restored s")
    case (Inl e)
    with ends show ?thesis by (auto simp: finish_restore_def and_then_eq_Inr intro: given)
  next
    case (Inr y)
    obtain t b where y: "y = (t, b)" by (cases y)
    with Inr have "record_restore h' facts i token op generation restored s = Inr (t, b)" by simp
    from keepsD [OF keeps_record_restore this] have "moves lands h (Some token) s t" .
    moreover have "t = s' \<or> moves lands h (Some token) t s'"
      using ends Inr y by (cases b) (auto simp: finish_restore_def and_then_eq_Inr intro: given)
    ultimately show ?thesis by (auto intro: moves.trans)
  qed
qed

lemma keeps_fail_continuation_start:
  "keeps (moves lands h (Some token)) (fail_continuation_start h' facts records i token op generation why)"
  unfolding fail_continuation_start_def by (intro more_parts)

end
