(* ===== verification/Run_Life.thy ===== *)
theory Run_Life
  imports Run_Handlers
begin

text \<open>
  The life of the store of runs: any sequence of its transactions from an empty store, each by the
  handler that does it, and what holds of the store after it. Two handlers land a run; what they do
  is taken apart first.
\<close>

section \<open>Landings\<close>

interpretation same_queue: tx_frame "\<lambda>s s'. s_queue s' = s_queue s"
  by unfold_locales simp_all

lemma same_queue_settle: "keeps (\<lambda>s s'. s_queue s' = s_queue s) (settle_at_rest_in h i checked)"
  unfolding settle_at_rest_in_def settle_open_def by (intro same_queue.keeps_structure keeps_write) simp

lemma same_queue_event: "keeps (\<lambda>s s'. s_queue s' = s_queue s) (run_event h i kind)"
  unfolding run_event_def log_event_def
  by (intro same_queue.keeps_structure same_queue_settle keeps_write) simp

lemma same_queue_delete: "keeps (\<lambda>s s'. s_queue s' = s_queue s) (delete_lease i token)"
  unfolding delete_lease_def by (intro same_queue.keeps_structure keeps_write) simp

lemma save_run_stored:
  assumes "save_run h run before token s = Inr (s', True)" "stored_run s (run_id run) = Some row" "saved_row row run = run"
  shows "run \<in> set (q_runs (s_queue s'))"
proof -
  from assms(1) obtain t where t: "save_run_row run before token s = Inr (t, True)" "s_queue s' = s_queue t"
    by (auto simp: save_run_def log_event_def tx_bind_def tx_then_def and_then_eq_Inr tx_return_def tx_write_def
        dest!: keepsD [OF same_queue_settle] split: if_splits)
  have "row \<in> set (q_runs (s_queue s))" "run_id row = run_id run"
    using assms(2) by (auto simp: stored_run_def find_Some_iff)
  then have "run \<in> set (map (\<lambda>r. if run_id r = run_id run then saved_row r run else r) (q_runs (s_queue s)))"
    using assms(3) by (force intro: rev_image_eqI)
  with t assms(2) show ?thesis
    by (auto simp: save_run_row_def update_run_row_def Let_def split: if_splits)
qed

lemma apply_run_stored:
  assumes "apply_run h i token refusal f s = Inr (s', run)" "drawn any_command f"
  obtains row where "stored_run s i = Some row" "f row = Inr run" "run \<in> set (q_runs (s_queue s'))" "run_id run = i"
proof -
  from assms(1) obtain row where row: "stored_run s i = Some row" "f row = Inr run"
    and saved: "save_run h run (run_status row) token s = Inr (s', True)"
    by (auto simp: apply_run_def tx_read_def tx_fail_def tx_bind_def tx_then_def and_then_eq_Inr tx_ensure_def
        tx_return_def split: option.splits sum.splits if_splits)
  from drawn_reaches [OF assms(2) row(2)] have r: "run_reaches row run" "saved_row row run = run" by auto
  have "run_id run = i" using run_reaches_ids [OF r(1)] stored_run_id [OF row(1)] by simp
  with save_run_stored [OF saved _ r(2)] row that show thesis by auto
qed

text \<open>What a landing handler does: the run lands, the task completes.\<close>

definition lands_run :: "Host \<Rightarrow> LeaseToken option \<Rightarrow> RunId \<Rightarrow> RunStore \<Rightarrow> RunStore \<Rightarrow> Task \<Rightarrow> TaskRun \<Rightarrow> bool" where
  "lands_run h actor i s s' t run \<longleftrightarrow> (\<exists>u q'. moves {i} h actor s u \<and> run \<in> set (q_runs (s_queue u))
     \<and> landed run \<and> run_id run = i \<and> complete_task (s_queue u) (run_task_id run) i (host_stamp h) = Inr (q', t)
     \<and> s' = u\<lparr>s_queue := q'\<rparr>)"

lemma finish_integration_drawn: "drawn (may_land (i \<in> {i})) (\<lambda>run. run_finish_integration run commit)"
  unfolding by_command by (rule drawn_apply) (simp_all add: command_kinds)

lemma land_run_lands:
  assumes "land_run h i token commit s = Inr (s', t, run)"
  shows "lands_run h (Some token) i s s' t run"
proof -
  let ?f = "\<lambda>run. run_finish_integration run commit"
  from assms obtain s1 s2 s3 s4 s5 b q' where
    s: "renew_lease h i token s = Inr (s1, ())" "apply_run h i None (run_is_not i ''integrating'') ?f s1 = Inr (s2, run)"
      "delete_lease i token s2 = Inr (s3, b)" "run_event h i RunIntegrated s3 = Inr (s4, ())"
      "run_event h i LeaseReleased s4 = Inr (s5, ())"
    and complete: "complete_task (s_queue s5) (run_task_id run) i (host_stamp h) = Inr (q', t)" "s' = s5\<lparr>s_queue := q'\<rparr>"
    by (auto simp: land_run_def tx_bind_def tx_then_def tx_queue_def tx_return_def and_then_eq_Inr)
  have "moves {i} h (Some token) s s5"
    using keepsD [OF keeps_renew_lease s(1)] keepsD [OF keeps_apply_run [OF finish_integration_drawn] s(2)]
      keepsD [OF keeps_delete_lease s(3)] keepsD [OF keeps_run_event s(4)] keepsD [OF keeps_run_event s(5)]
    by (meson moves.trans)
  moreover obtain row where "?f row = Inr run" "run \<in> set (q_runs (s_queue s2))" "run_id run = i"
    by (rule apply_run_stored [OF s(2) drawn_any [OF finish_integration_drawn]])
  moreover have "s_queue s5 = s_queue s2"
    using keepsD [OF same_queue_delete s(3)] keepsD [OF same_queue_event s(4)] keepsD [OF same_queue_event s(5)] by simp
  ultimately show ?thesis
    unfolding lands_run_def using complete
    by (intro exI [of _ s5] exI [of _ q']) (auto simp: landed_def run_finish_integration_def and_then_eq_Inr)
qed

lemma apply_recorded_stored:
  assumes "apply_recorded h i token refusal f s = Inr (s', run)" "drawn any_command (saved_of f)"
  obtains row where "stored_run s i = Some row" "saved_of f row = Inr run" "run \<in> set (q_runs (s_queue s'))" "run_id run = i"
proof -
  from assms(1) obtain row kinds t where row: "stored_run s i = Some row" "f row = Inr (run, kinds)"
    and saved: "save_run h run (run_status row) token s = Inr (t, True)" "record_events h i kinds t = Inr (s', ())"
    by (auto simp: apply_recorded_def tx_read_def tx_fail_def tx_bind_def tx_then_def and_then_eq_Inr tx_ensure_def
        tx_return_def split: option.splits sum.splits if_splits)
  have "saved_of f row = Inr run" using row(2) by (simp add: saved_of_def)
  from drawn_reaches [OF assms(2) this] have r: "run_reaches row run" "saved_row row run = run" by auto
  have "run_id run = i" using run_reaches_ids [OF r(1)] stored_run_id [OF row(1)] by simp
  moreover have "s_queue s' = s_queue t"
    by (rule keepsD [OF same_queue.keeps_record_events [OF same_queue_event] saved(2)])
  ultimately show thesis
    using save_run_stored [OF saved(1) _ r(2)] row that \<open>saved_of f row = Inr run\<close> by auto
qed

lemma close_satisfied_drawn: "drawn (may_land (i \<in> {i})) (saved_of record_satisfied_close)"
  unfolding record_satisfied_close_def by_command saved_of_recording
  by (rule drawn_apply) (simp_all add: command_kinds)

lemma close_satisfied_lands:
  assumes "close_satisfied h i token s = Inr (s', t, run)"
  shows "lands_run h token i s s' t run"
proof -
  let ?holder = "case token of Some token \<Rightarrow> renew_lease h i token | None \<Rightarrow> unleased i (leased_refusal i)"
  let ?release = "case token of Some token \<Rightarrow> tx_bind (delete_lease i token) (\<lambda>_. run_event h i LeaseReleased)
    | None \<Rightarrow> tx_return ()"
  from assms obtain s1 s2 s3 s4 q' where
    s: "?holder s = Inr (s1, ())" "check_run_step i GuardedStep.Integrate s1 = Inr (s2, ())"
      "apply_recorded h i None (run_is_not i ''validating'') record_satisfied_close s2 = Inr (s3, run)"
      "?release s3 = Inr (s4, ())"
    and complete: "complete_task (s_queue s4) (run_task_id run) i (host_stamp h) = Inr (q', t)" "s' = s4\<lparr>s_queue := q'\<rparr>"
    by (auto simp: close_satisfied_def tx_bind_def tx_then_def tx_queue_def tx_return_def and_then_eq_Inr)
  have holder: "keeps (moves {i} h token) ?holder"
    by (cases token) (simp_all add: keeps_renew_lease keeps_unleased)
  have release: "keeps (moves {i} h token) ?release" "keeps (\<lambda>s s'. s_queue s' = s_queue s) ?release"
    by (cases token; simp; intro moves.keeps_structure leases rows)
      (cases token; simp; intro same_queue.keeps_structure same_queue_delete same_queue_event)
  have "moves {i} h token s s4"
    using keepsD [OF holder s(1)] keepsD [OF keeps_check_run_step s(2)]
      keepsD [OF keeps_apply_recorded [OF close_satisfied_drawn] s(3)] keepsD [OF release(1) s(4)]
    by (meson moves.trans)
  moreover obtain row where "saved_of record_satisfied_close row = Inr run" "run \<in> set (q_runs (s_queue s3))" "run_id run = i"
    by (rule apply_recorded_stored [OF s(3) drawn_any [OF close_satisfied_drawn]])
  moreover have "s_queue s4 = s_queue s3" by (rule keepsD [OF release(2) s(4)])
  ultimately show ?thesis
    unfolding lands_run_def using complete
    by (intro exI [of _ s4] exI [of _ q'])
      (auto simp: landed_def saved_of_def record_satisfied_close_def recording_def run_close_satisfied_def and_then_eq_Inr)
qed

text \<open>The end of a landing sent again changes nothing.\<close>

lemma finish_integration_lands:
  assumes "finish_integration h i token commit s = Inr (s', t, run)"
  shows "s' = s \<or> lands_run h (Some token) i s s' t run"
  using assms land_run_lands [of h i token commit s s' t run]
  by (auto simp: finish_integration_def tx_read_def tx_bind_def tx_check_def tx_return_def and_then_eq_Inr
      split: option.splits)

section \<open>Transactions\<close>

inductive store_step :: "Host \<Rightarrow> LeaseToken option \<Rightarrow> RunStore \<Rightarrow> RunStore \<Rightarrow> bool" for h where
  queue_moved: "queue_step (s_queue s) q \<Longrightarrow> q_runs q = q_runs (s_queue s) \<Longrightarrow> none_completes (s_queue s) q \<Longrightarrow>
    store_step h actor s (s\<lparr>s_queue := q\<rparr>)"
| replacement: "apply_replacement af (s_queue s) op generation faulty reason refusal again stamp now = Inr (q, outcome) \<Longrightarrow>
    store_step h actor s (s\<lparr>s_queue := q\<rparr>)"
| holds_and_asks: "store_step h actor s (s\<lparr>s_settled := settled, s_asks := asks\<rparr>)"
| heartbeats: "heartbeat h token s = Inr (s', x) \<Longrightarrow> store_step h (Some token) s s'"
| registers: "register_supervisor h token pid parallel version s = Inr (s', r) \<Longrightarrow> store_step h actor s s'"
| sets_mode: "set_supervisor_mode token md workspace s = Inr (s', u) \<Longrightarrow> store_step h actor s s'"
| deregisters: "deregister_supervisor token s = Inr (s', b) \<Longrightarrow> store_step h actor s s'"
| pruned: "prune_supervisor token s = Inr (s', b) \<Longrightarrow> store_step h actor s s'"
| sets_auto_update: "set_auto_update token enabled s = Inr (s', u) \<Longrightarrow> store_step h actor s s'"
| accepts_handoff: "accept_handoff token s = Inr (s', u) \<Longrightarrow> store_step h actor s s'"
| asks_handoff: "request_handoff h token binary s = Inr (s', b) \<Longrightarrow> store_step h actor s s'"
| cancels_handoff: "cancel_handoff token binary s = Inr (s', b) \<Longrightarrow> store_step h actor s s'"
| takes_handoff: "take_handoff token binary s = Inr (s', b) \<Longrightarrow> store_step h actor s s'"
| resumes_registration: "resume_registration h token pid version s = Inr (s', u) \<Longrightarrow> store_step h actor s s'"
| releases: "release_lease h i token s = Inr (s', u) \<Longrightarrow> store_step h (Some token) s s'"
| resume_wrapper: "register_resume_wrapper h i token pid s = Inr (s', u) \<Longrightarrow> store_step h (Some token) s s'"
| resume_agent: "register_resume_agent h i pid agent s = Inr (s', u) \<Longrightarrow> store_step h actor s s'"
| clears_session: "clear_lost_session i h token lost s = Inr (s', u) \<Longrightarrow> store_step h (Some token) s s'"
| reopens_session: "session_reopened h i token workspace s = Inr (s', u) \<Longrightarrow> store_step h (Some token) s s'"
| wrapper_starts: "register_wrapper h i token pid s = Inr (s', u) \<Longrightarrow> store_step h (Some token) s s'"
| agent_starts: "register_agent h i pid agent s = Inr (s', u) \<Longrightarrow> store_step h actor s s'"
| turn_agent: "register_turn_agent h i pid agent s = Inr (s', u) \<Longrightarrow> store_step h actor s s'"
| wrapper_beats: "heartbeat_wrapper h i pid s = Inr (s', u) \<Longrightarrow> store_step h actor s s'"
| wrapper_ends: "wrapper_exited h i pid code s = Inr (s', u) \<Longrightarrow> store_step h actor s s'"
| claimed_run: "claim_for_supervisor h token cf s = Some (Inr (s', r)) \<Longrightarrow> store_step h (Some token) s s'"
| abandoned: "abandon_run h i token message s = Inr (s', r) \<Longrightarrow> store_step h (Some token) s s'"
| planned: "plan_run h i token plan s = Inr (s', u) \<Longrightarrow> store_step h (Some token) s s'"
| got_workspace: "workspace_created h i token workspace s = Inr (s', u) \<Longrightarrow> store_step h (Some token) s s'"
| runtime_error: "record_runtime_error h i message s = Inr (s', u) \<Longrightarrow> store_step h actor s s'"
| session_ends: "finish_supervision h i token receipt s = Inr (s', r) \<Longrightarrow> store_step h (Some token) s s'"
| lost_session: "finish_lost_session h i token code receipt s = Inr (s', r) \<Longrightarrow> store_step h (Some token) s s'"
| live_session: "finish_supervision_live h i token s = Inr (s', r) \<Longrightarrow> store_step h (Some token) s s'"
| revalidates: "restart_validation h i token s = Inr (s', r) \<Longrightarrow> store_step h (Some token) s s'"
| validates: "finish_validation h i token v s = Inr (s', r) \<Longrightarrow> store_step h (Some token) s s'"
| switches: "switch_provider h i token worker s = Inr (s', u) \<Longrightarrow> store_step h (Some token) s s'"
| landing_decided: "decide_landing h i to reason s = Inr (s', r) \<Longrightarrow> store_step h actor s s'"
| satisfied_decided: "decide_satisfied h tf i reason move s = Inr (s', r) \<Longrightarrow> store_step h actor s s'"
| satisfied_closed: "close_satisfied h i actor s = Inr (s', t, r) \<Longrightarrow> store_step h actor s s'"
| parks: "park_live h i token reason s = Inr (s', r) \<Longrightarrow> store_step h (Some token) s s'"
| e2e_failed: "park_e2e_failed h i token reason s = Inr (s', r) \<Longrightarrow> store_step h (Some token) s s'"
| hold_parks: "park_for_hold h hold i token reason s = Inr (s', x) \<Longrightarrow> store_step h (Some token) s s'"
| replan_settles: "settle_replan h rf op generation st actor s = Inr (s', x) \<Longrightarrow> store_step h actor s s'"
| rests: "rest_fenced h i token reason s = Inr (s', x) \<Longrightarrow> store_step h (Some token) s s'"
| hold_settles: "settle_hold_at_rest h hold i status s = Inr (s', b) \<Longrightarrow> store_step h actor s s'"
| hold_releases: "release_for_hold h hold i token s = Inr (s', b) \<Longrightarrow> store_step h (Some token) s s'"
| recheck_parks: "park_rechecked h i actor reason s = Inr (s', x) \<Longrightarrow> store_step h actor s s'"
| e2e_begins: "begin_e2e h i token refused s = Inr (s', u) \<Longrightarrow> store_step h actor s s'"
| landing_begins: "begin_integration_then h i token refused holder (tx_return ()) s = Inr (s', x) \<Longrightarrow>
    store_step h (Some token) s s'"
| defers: "defer_integration h i token reason s = Inr (s', r) \<Longrightarrow> store_step h (Some token) s s'"
| held: "hold_integration h i token reason s = Inr (s', r) \<Longrightarrow> store_step h (Some token) s s'"
| landing_fails: "fail_integration h i token reason s = Inr (s', r) \<Longrightarrow> store_step h (Some token) s s'"
| landing_aborts: "abort_integration h i token revert_to message s = Inr (s', r) \<Longrightarrow> store_step h (Some token) s s'"
| hands_over: "hand_over_integration h i token revert_to s = Inr (s', r) \<Longrightarrow> store_step h (Some token) s s'"
| lands: "finish_integration h i token commit s = Inr (s', t, r) \<Longrightarrow> store_step h (Some token) s s'"
| cleanup_recorded: "record_cleanup_failure h i message s = Inr (s', u) \<Longrightarrow> store_step h actor s s'"
| workspace_shut: "workspace_closed h i token s = Inr (s', r) \<Longrightarrow> store_step h (Some token) s s'"
| cleanup_fails: "cleanup_failed h i token message s = Inr (s', r) \<Longrightarrow> store_step h (Some token) s s'"
| workspace_recorded: "record_workspace_closed h i workspace s = Inr (s', u) \<Longrightarrow> store_step h actor s s'"
| adopts: "adopt_run h i previous token pid s = Inr (s', x) \<Longrightarrow> store_step h actor s s'"
| awaiting_leased: "lease_awaiting h i token s = Inr (s', x) \<Longrightarrow> store_step h actor s s'"
| satisfied_leased: "lease_satisfied h i token s = Inr (s', x) \<Longrightarrow> store_step h actor s s'"
| stranded_leased: "lease_stranded_landing h judged i token s = Inr (s', x) \<Longrightarrow> store_step h actor s s'"
| park_leased: "lease_for_park h i token op generation s = Inr (s', x) \<Longrightarrow> store_step h (Some token) s s'"
| hold_park_leased: "lease_for_hold_park h i token hold s = Inr (s', x) \<Longrightarrow> store_step h (Some token) s s'"
| recovers: "recover_run h i checked s = Inr (s', r) \<Longrightarrow> store_step h actor s s'"
| resume_begins: "begin_resume h i token resumes limit repair s = Inr (s', x) \<Longrightarrow> store_step h actor s s'"
| resume_skipped: "skip_resume h i token head approved s = Inr (s', x) \<Longrightarrow> store_step h actor s s'"
| resume_ends: "finish_resume h i token ended reason keep_lease s = Inr (s', x) \<Longrightarrow> store_step h (Some token) s s'"
| approved_ends: "finish_approved_resume h i token head s = Inr (s', x) \<Longrightarrow> store_step h (Some token) s s'"
| round_begins: "begin_triage h i token due requested s = Inr (s', x) \<Longrightarrow> store_step h actor s s'"
| round_ends: "finish_triage h tf inherited i token action kinds s = Inr (s', x) \<Longrightarrow> store_step h (Some token) s s'"
| exhausted: "exhaust_resumes h tf i exhaustion reason resumes limit inherits s = Inr (s', x) \<Longrightarrow>
    store_step h actor s s'"
| answered: "decide_triage h tf kept i ask answer reason s = Inr (s', x) \<Longrightarrow> store_step h actor s s'"
| restore_begins: "begin_restore h records i token op generation s = Inr (s', x) \<Longrightarrow> store_step h (Some token) s s'"
| restore_ends: "finish_restore h rf i token op generation restored s = Inr (s', x) \<Longrightarrow> store_step h (Some token) s s'"
| continuation_fails: "fail_continuation_start h rf records i token op generation why s = Inr (s', b) \<Longrightarrow>
    store_step h (Some token) s s'"

section \<open>A replacement applied\<close>

lemma live_approve:
  "live (\<lambda>child q. and_then (apply_transition facts q child Approve stamp) (\<lambda>(q, _). Inr q)) children q = Inr q' \<Longrightarrow>
    q_runs q' = q_runs q \<and> none_completes q q'"
proof (induction children arbitrary: q)
  case (Cons child children)
  then obtain u t where u: "apply_transition facts q child Approve stamp = Inr (u, t)"
    "live (\<lambda>child q. and_then (apply_transition facts q child Approve stamp) (\<lambda>(q, _). Inr q)) children u = Inr q'"
    by (auto simp: and_then_eq_Inr)
  from Cons.IH [OF u(2)] apply_transition_runs [OF u(1)] apply_transition_completes [OF u(1)]
  show ?case by (auto intro: none_completes_trans)
qed simp

lemma write_replacement_runs:
  assumes "write_replacement af q op generation reason stamp now = Inr (q', op')"
  obtains row run where "run_of q (op_run_id op) = Inr row" "run_end_for_replacement row = Inr run"
    "q_runs q' = map (\<lambda>r. if run_id r = op_run_id op then run else r) (q_runs q)" "none_completes q q'"
proof -
  let ?i = "op_task_id op"
  from assms obtain p where p: "latest_plan q (op_id op) = Some p"
    unfolding write_replacement_def by (auto split: option.splits)
  let ?plan = "rev_plan p"
  let ?tables = "\<lambda>q2. q2\<lparr>q_replacements := q_replacements q2 @ map (\<lambda>child. (op_id op, ?i, child)) (child_ids ?plan),
    q_mappings := q_mappings q2 @ map (\<lambda>m. (op_id op, m)) (mappings_of ?plan),
    q_dependencies := repoint ?i (successor_edges ?plan (map fst (successors_now
      (q2\<lparr>q_replacements := q_replacements q2 @ map (\<lambda>child. (op_id op, ?i, child)) (child_ids ?plan)\<rparr>) ?i)))
      (q_dependencies q2)\<rparr>"
  from assms p obtain ops q1 q2 t q3 where
    q1: "end_replaced_run (q\<lparr>q_operations := ops\<rparr>) (op_run_id op) = Inr q1"
    and q2: "replace_task q1 ?i (op_run_id op) stamp = Inr (q2, t)"
    and q3: "live (\<lambda>child q. and_then (apply_transition (af_transition af) q child Approve stamp) (\<lambda>(q, _). Inr q))
      (child_ids ?plan) (?tables q2) = Inr q3"
    and q': "q' = add_event ?i (Some (op_run_id op)) (EventReplanApplied (op_id op) (child_ids ?plan)) q3"
    unfolding write_replacement_def Let_def by (auto simp: and_then_eq_Inr simp del: move_through.simps live.simps)
  from q1 obtain row run where run: "run_of q (op_run_id op) = Inr row" "run_end_for_replacement row = Inr run"
    "q1 = q\<lparr>q_operations := ops, q_runs := map (\<lambda>r. if run_id r = op_run_id op then run else r) (q_runs q)\<rparr>"
    by (auto simp: end_replaced_run_def run_of_def and_then_eq_Inr split: option.splits)
  have status: "status_of q1 = status_of q" "status_of (?tables q2) = status_of q2"
    by (simp_all add: run(3) status_of_def row_of_def fun_eq_iff)
  have "c_status (core_of q2) = (status_of q1)(?i \<mapsto> TaskStatus.Replaced)"
    using end_task_accepted(2) [OF q2 [unfolded replace_task_def]] by simp
  then have "none_completes q q2" by (auto simp: none_completes_def status(1))
  moreover have "none_completes q2 q3" using live_approve [OF q3] by (simp add: none_completes_def status(2))
  moreover have "none_completes q3 q'" by (simp add: q' none_completes_def status_of_def row_of_def add_event_def)
  ultimately have completes: "none_completes q q'" by (meson none_completes_trans)
  have "q_runs q' = q_runs q1"
    using live_approve [OF q3] end_task_runs [OF q2 [unfolded replace_task_def]] by (simp add: q')
  with run that completes show thesis by simp
qed

lemma index_leaves:
  assumes "run_indexes_ok rs"
    and "\<And>r. r \<in> set rs \<Longrightarrow> run_id (f r) = run_id r \<and> run_task_id (f r) = run_task_id r
      \<and> (run_status (f r) = run_status r \<or> run_status (f r) = RunStatus.Replaced)"
  shows "run_indexes_ok (map f rs)"
proof -
  have distinct: "distinct (map run_task_id (filter (\<lambda>r. P (run_status r)) (map f us)))
      \<and> length (filter (\<lambda>r. P (run_status r)) (map f us)) \<le> length (filter (\<lambda>r. P (run_status r)) us)"
    if "distinct (map run_task_id (filter (\<lambda>r. P (run_status r)) us))" "\<not> P RunStatus.Replaced"
      and "\<And>r. r \<in> set us \<Longrightarrow> run_task_id (f r) = run_task_id r
        \<and> (run_status (f r) = run_status r \<or> run_status (f r) = RunStatus.Replaced)" for P us
    using that
  proof (induction us)
    case (Cons u us)
    have sub: "run_task_id ` set (filter (\<lambda>r. P (run_status r)) (map f us))
        \<subseteq> run_task_id ` set (filter (\<lambda>r. P (run_status r)) us)"
      using Cons.prems(2,3) by force
    have IH: "distinct (map run_task_id (filter (\<lambda>r. P (run_status r)) (map f us)))
        \<and> length (filter (\<lambda>r. P (run_status r)) (map f us)) \<le> length (filter (\<lambda>r. P (run_status r)) us)"
      by (rule Cons.IH) (use Cons.prems in \<open>auto split: if_splits\<close>)
    have u: "run_task_id (f u) = run_task_id u" "P (run_status (f u)) \<Longrightarrow> P (run_status u)"
      using Cons.prems(2) Cons.prems(3) [of u] by auto
    show ?case
    proof (cases "P (run_status (f u))")
      case True
      with u(2) Cons.prems(1) have "run_task_id u \<notin> run_task_id ` set (filter (\<lambda>r. P (run_status r)) us)" by simp
      with sub have "run_task_id u \<notin> run_task_id ` set (filter (\<lambda>r. P (run_status r)) (map f us))" by blast
      with True u IH show ?thesis by simp
    qed (use IH in auto)
  qed simp
  have ids: "map run_id (map f rs) = map run_id rs" using assms(2) by simp
  have one: "length (filter (\<lambda>r. run_status r = RunStatus.Integrating) (map f us))
      \<le> length (filter (\<lambda>r. run_status r = RunStatus.Integrating) us)"
    if "\<And>r. r \<in> set us \<Longrightarrow> run_status (f r) = run_status r \<or> run_status (f r) = RunStatus.Replaced" for us
    using that
  proof (induction us)
    case (Cons u us)
    then have "length (filter (\<lambda>r. run_status r = RunStatus.Integrating) (map f us))
      \<le> length (filter (\<lambda>r. run_status r = RunStatus.Integrating) us)" by simp
    moreover have "run_status (f u) = run_status u \<or> run_status (f u) = RunStatus.Replaced" using Cons.prems by simp
    ultimately show ?case by auto
  qed simp
  have "\<not> RunStatus.Replaced \<in> set unfinished_statuses" by (simp add: unfinished_statuses_def)
  with assms distinct [of "\<lambda>st. st \<in> set unfinished_statuses" rs] distinct [of "\<lambda>st. st = RunStatus.Integrated" rs]
    one [of rs] show ?thesis unfolding run_indexes_ok_def ids by (meson le_trans RunStatus.distinct)
qed

lemma none_lands_same: "q_runs q = q_runs (s_queue s) \<Longrightarrow> none_lands lands s (s\<lparr>s_queue := q\<rparr>)"
  by (auto simp: none_lands_def)

lemma moves_queue:
  assumes "queue_step (s_queue s) q" "none_completes (s_queue s) q" "runs_advance (q_runs (s_queue s)) (q_runs q)"
    and "tables_sound s \<Longrightarrow> run_indexes_ok (q_runs q)" "none_lands {} s (s\<lparr>s_queue := q\<rparr>)"
  shows "moves {} h a s (s\<lparr>s_queue := q\<rparr>)"
  using assms by (auto simp: moves_def tables_sound_def intro: leases_kept_same)

lemma replacement_moves:
  assumes "apply_replacement af (s_queue s) op generation faulty reason refusal again stamp now = Inr (q, outcome)"
  shows "moves {} h a s (s\<lparr>s_queue := q\<rparr>)"
  using assms
proof (cases rule: apply_replacement_cases)
  case same
  then show ?thesis by (simp add: moves.refl)
next
  case (held ops recovery recorded)
  show ?thesis
    by (intro moves_queue none_lands_same queue_step.apply_done [OF assms]) (simp_all add: tables_sound_def held(2))
next
  case (applied p p')
  obtain row run where run: "run_of (s_queue s) (op_run_id p) = Inr row"
    "run_end_for_replacement row = Inr run"
    "q_runs q = map (\<lambda>r. if run_id r = op_run_id p then run else r) (q_runs (s_queue s))" "none_completes (s_queue s) q"
    by (rule write_replacement_runs [OF applied(5)])
  have row: "stored_run s (op_run_id p) = Some row"
    using run(1) by (auto simp: run_of_def stored_run_def split: option.splits)
  have ended: "run_apply EndForReplacement row = Inr run" using run(2) by simp
  have f: "run_id run = run_id row \<and> run_task_id run = run_task_id row \<and> run_status run = RunStatus.Replaced"
    using run(2) by (auto simp: run_end_for_replacement_def and_then_eq_Inr)
  have "moves {} h a s (s\<lparr>s_queue := q\<rparr>)" if sound: "tables_sound s"
  proof -
    let ?f = "\<lambda>r. if run_id r = op_run_id p then run else r"
    have only: "r = row" if "r \<in> set (q_runs (s_queue s))" "run_id r = op_run_id p" for r
      by (rule stored_run_unique [OF sound row that])
    have "run_reaches r (?f r)" if "r \<in> set (q_runs (s_queue s))" for r
      using only [OF that] run_reaches_command [OF ended] by auto
    then have "runs_advance (q_runs (s_queue s)) (q_runs q)" unfolding run(3) by (rule runs_advance_map)
    moreover have "run_indexes_ok (q_runs q)"
      unfolding run(3) by (rule index_leaves) (use sound only f in \<open>auto simp: tables_sound_def\<close>)
    moreover have "none_lands {} s (s\<lparr>s_queue := q\<rparr>)"
      using only f by (auto simp: none_lands_def run(3) landed_def)
    ultimately show ?thesis by (intro moves_queue queue_step.apply_done [OF assms] run(4)) auto
  qed
  then show ?thesis by (simp add: moves_def)
qed

lemma claim_task_runs:
  assumes "claim_task cf q = Some (Inr (q', run))"
  shows "none_completes q q' \<and> (q_runs q' = q_runs q \<or> (\<exists>r. run_status r = RunStatus.Claimed \<and> q_runs q' = q_runs q @ [r]))"
proof (rule claim_task_cases [OF assms])
  fix ready t assume "claim_one cf q t = Inr (q', run)"
  then obtain r route ops where r: "run_status r = RunStatus.Claimed"
    "q' = write_claim cf q (t\<lparr>task_status := TaskStatus.InProgress\<rparr>) r route ops"
    by (rule claim_one_accepted) auto
  have status: "status_of q' = status_of (set_status q (task_id t) TaskStatus.InProgress (cf_now cf))"
    unfolding r(2) write_claim_def Let_def
    by (auto simp: status_of_def row_of_def fun_eq_iff add_event_def split: option.splits)
  have "status_of q' j = Some TaskStatus.Completed \<Longrightarrow> status_of q j = Some TaskStatus.Completed" for j
    unfolding status by (auto simp: set_status_def status_of_def row_of_update split: if_splits)
  moreover have "q_runs q' = q_runs q @ [r]"
    unfolding r(2) write_claim_def Let_def by (auto simp: add_event_def split: option.splits)
  ultimately show ?thesis using r(1) by (auto simp: none_completes_def)
qed simp

lemma claim_moves:
  assumes "claim_for_supervisor h token cf s = Some (Inr (s', r))"
  shows "moves {} h a s s'"
proof -
  from assms obtain q run where q: "claim_task cf (s_queue s) = Some (Inr (q, run))" "run_indexes_ok (q_runs q)"
    and leased: "lease_claimed h token run (s\<lparr>s_queue := q\<rparr>) = Inr (s', r)"
    by (auto simp: claim_for_supervisor_def and_then_eq_Inr split: if_splits)
  note runs = claim_task_runs [OF q(1)]
  have "runs_advance (q_runs (s_queue s)) (q_runs (s_queue s) @ [run])" if "run_status run = RunStatus.Claimed" for run
    unfolding runs_advance_def
    by (rule exI [of _ "q_runs (s_queue s)"], rule exI [of _ "[run]"])
      (use that in \<open>auto simp: list_all2_same intro: exI [of _ run]\<close>)
  with runs have "runs_advance (q_runs (s_queue s)) (q_runs q)" by auto
  moreover have "none_lands {} s (s\<lparr>s_queue := q\<rparr>)"
    using runs by (auto simp: none_lands_def landed_def)
  ultimately have "moves {} h a s (s\<lparr>s_queue := q\<rparr>)"
    using runs q(2) queue_step.claimed [OF q(1)] by (intro moves_queue) auto
  moreover have "keeps (moves {} h a) (lease_claimed h token run)"
    unfolding lease_claimed_def by (intro more_parts)
  then have "moves {} h a (s\<lparr>s_queue := q\<rparr>) s'" using leased by (rule keepsD)
  ultimately show ?thesis by (rule moves.trans)
qed

section \<open>What a transaction does\<close>

lemmas kept_moves = keeps_heartbeat keeps_register_supervisor keeps_registrations keeps_release_lease
  keeps_sessions keeps_provisioning keeps_supervision keeps_decisions keeps_parks keeps_settle_replan
  keeps_rests keeps_park_rechecked keeps_begin_e2e keeps_begin_integration_then [OF moves.keeps_return]
  keeps_leave keeps_cleanup keeps_record_workspace_closed keeps_adopt_run keeps_takeovers keeps_recover_run
  keeps_begin_resume keeps_skip_resume keeps_finish_resumes keeps_begin_triage keeps_finish_triage
  keeps_exhaust_resumes keeps_decide_triage keeps_begin_restore keeps_finish_restore
  keeps_fail_continuation_start

lemmas kept = kept_moves [THEN keepsD]

lemma store_step_moves:
  assumes "store_step h actor s s'"
  shows "moves {} h actor s s' \<or> (\<exists>i t r. lands_run h actor i s s' t r)"
  using assms
proof cases
  case (queue_moved q)
  then show ?thesis
    by (intro disjI1) (simp only: queue_moved(1), intro moves_queue none_lands_same; simp add: tables_sound_def)
next
  case replacement
  then show ?thesis using replacement_moves by blast
next
  case (holds_and_asks settled asks)
  then show ?thesis
    by (intro disjI1) (auto intro!: moves_tables leases_kept_same simp: tables_sound_def)
next
  case claimed_run
  then show ?thesis using claim_moves by blast
next
  case satisfied_closed
  then show ?thesis using close_satisfied_lands by blast
next
  case lands
  then show ?thesis using finish_integration_lands moves.refl by blast
qed ((simp only:)?, rule disjI1, erule kept)+

section \<open>What holds of the store\<close>

lemma core_step_completed:
  "core_step c c' \<Longrightarrow> c_status c i = Some TaskStatus.Completed \<Longrightarrow> c_status c' i = Some TaskStatus.Completed"
  by (cases rule: core_step.cases) auto

lemma completed_stays:
  assumes "queue_step\<^sup>*\<^sup>* empty_queue q" "queue_step\<^sup>*\<^sup>* q q'" "status_of q i = Some TaskStatus.Completed"
  shows "status_of q' i = Some TaskStatus.Completed"
  using assms(2,3)
proof (induction rule: rtranclp_induct)
  case (step u v)
  have "queue_ok u" "work_ok (work_of u)"
    using queue_life [OF rtranclp_trans [OF assms(1) step.hyps(1)]] by auto
  from queue_step_advances [OF step.hyps(2) this] have "core_step\<^sup>*\<^sup>* (core_of u) (core_of v)" by (simp add: advances_def)
  moreover have "c_status (core_of u) i = Some TaskStatus.Completed" using step by simp
  ultimately have "c_status (core_of v) i = Some TaskStatus.Completed"
    by (induction rule: rtranclp_induct) (auto intro: core_step_completed)
  then show ?case by simp
qed

lemma landed_stays:
  assumes "run_reaches r r'" "landed r"
  shows "landed r'"
proof -
  from assms(1) obtain cs where "run_runs r cs r'" by (auto simp: run_reaches_def)
  from final_runs [OF this] assms(2) show ?thesis by (auto simp: landed_def run_final_iff)
qed

text \<open>A task is completed by the landing of one run of it.\<close>

definition landings_ok :: "RunStore \<Rightarrow> bool" where
  "landings_ok s \<longleftrightarrow>
     (\<forall>r \<in> set (q_runs (s_queue s)). landed r \<longrightarrow> status_of (s_queue s) (run_task_id r) = Some TaskStatus.Completed)
   \<and> (\<forall>k. status_of (s_queue s) k = Some TaskStatus.Completed \<longrightarrow>
        (\<exists>r \<in> set (q_runs (s_queue s)). landed r \<and> run_task_id r = k))
   \<and> (\<forall>r \<in> set (q_runs (s_queue s)). \<forall>u \<in> set (q_runs (s_queue s)).
        landed r \<and> landed u \<and> run_task_id r = run_task_id u \<longrightarrow> run_id r = run_id u)"

definition store_ok :: "RunStore \<Rightarrow> bool" where
  "store_ok s \<longleftrightarrow> tables_sound s \<and> queue_step\<^sup>*\<^sup>* empty_queue (s_queue s) \<and> runs_advance [] (q_runs (s_queue s))
     \<and> landings_ok s"

lemma empty_store_ok: "store_ok empty_store"
  by (simp add: store_ok_def empty_store_def tables_sound_def run_indexes_ok_def landings_ok_def empty_queue_def
      status_of_def row_of_def)

text \<open>A landed run stays in its place.\<close>

lemma advance_landed:
  assumes "runs_advance rs rs'" "r \<in> set rs" "landed r"
  shows "\<exists>r' \<in> set rs'. landed r' \<and> run_id r' = run_id r \<and> run_task_id r' = run_task_id r"
proof -
  from assms(1) obtain us ts where us: "rs' = us @ ts" "list_all2 run_reaches rs us" by (auto simp: runs_advance_def)
  from assms(2) obtain n where n: "n < length rs" "rs ! n = r" by (auto simp: in_set_conv_nth)
  with us(2) have "run_reaches r (us ! n)" "us ! n \<in> set us" by (auto simp: list_all2_conv_all_nth)
  with us(1) landed_stays [OF _ assms(3)] run_reaches_ids show ?thesis by (metis Un_iff set_append)
qed

lemma moves_parts:
  assumes "moves lands h actor s s'" "store_ok s"
  shows "tables_sound s'" "queue_step\<^sup>*\<^sup>* (s_queue s) (s_queue s')" "queue_step\<^sup>*\<^sup>* empty_queue (s_queue s')"
    "runs_advance (q_runs (s_queue s)) (q_runs (s_queue s'))" "runs_advance [] (q_runs (s_queue s'))"
    "none_lands lands s s'" "none_completes (s_queue s) (s_queue s')" "leases_kept h actor s s'"
    "status_of (s_queue s) i = Some TaskStatus.Completed \<Longrightarrow> status_of (s_queue s') i = Some TaskStatus.Completed"
proof -
  show m: "tables_sound s'" "queue_step\<^sup>*\<^sup>* (s_queue s) (s_queue s')"
    "runs_advance (q_runs (s_queue s)) (q_runs (s_queue s'))" "none_lands lands s s'"
    "none_completes (s_queue s) (s_queue s')" "leases_kept h actor s s'"
    using assms by (simp_all add: moves_def store_ok_def)
  show "queue_step\<^sup>*\<^sup>* empty_queue (s_queue s')" using assms(2) m(2) by (auto simp: store_ok_def)
  show "runs_advance [] (q_runs (s_queue s'))" using assms(2) m(3) by (auto simp: store_ok_def intro: runs_advance_trans)
  show "status_of (s_queue s') i = Some TaskStatus.Completed" if "status_of (s_queue s) i = Some TaskStatus.Completed"
    by (rule completed_stays [OF _ m(2) that]) (use assms(2) in \<open>simp add: store_ok_def\<close>)
qed

lemma moves_ok:
  assumes "moves {} h actor s s'" "store_ok s"
  shows "store_ok s'"
proof -
  note m = moves_parts [OF assms]
  have before: "\<exists>r \<in> set (q_runs (s_queue s)). landed r \<and> run_id r = run_id r' \<and> run_task_id r = run_task_id r'"
    if "r' \<in> set (q_runs (s_queue s'))" "landed r'" for r'
    using m(6) that by (simp add: none_lands_def)
  from assms(2) have ok: "landings_ok s" by (simp add: store_ok_def)
  have "landings_ok s'"
    unfolding landings_ok_def
  proof (intro conjI ballI allI impI)
    fix r' assume "r' \<in> set (q_runs (s_queue s'))" "landed r'"
    from before [OF this] ok m(9) show "status_of (s_queue s') (run_task_id r') = Some TaskStatus.Completed"
      unfolding landings_ok_def by metis
  next
    fix k assume "status_of (s_queue s') k = Some TaskStatus.Completed"
    with m(7) ok obtain r where "r \<in> set (q_runs (s_queue s))" "landed r" "run_task_id r = k"
      by (auto simp: none_completes_def landings_ok_def)
    with advance_landed [OF m(4)] show "\<exists>r \<in> set (q_runs (s_queue s')). landed r \<and> run_task_id r = k" by metis
  next
    fix r u assume "r \<in> set (q_runs (s_queue s'))" "u \<in> set (q_runs (s_queue s'))"
      "landed r \<and> landed u \<and> run_task_id r = run_task_id u"
    with before [of r] before [of u] ok show "run_id r = run_id u" unfolding landings_ok_def by metis
  qed
  with m show ?thesis by (simp add: store_ok_def)
qed

lemma stored_run_in:
  assumes "tables_sound s" "r \<in> set (q_runs (s_queue s))"
  shows "stored_run s (run_id r) = Some r"
  using assms(2) stored_run_unique [OF assms(1) _ assms(2)]
  by (cases "stored_run s (run_id r)") (auto simp: stored_run_def find_None_iff)

text \<open>The tasks that are completed stay those with a landing when a run of one more lands.\<close>

lemma landings_after_landing:
  assumes mv: "moves {i} h actor s u" "store_ok s"
    and run: "run \<in> set (q_runs (s_queue u))" "landed run" "run_id run = i"
    and active: "status_of (s_queue u) (run_task_id run) = Some TaskStatus.InProgress"
    and runs: "q_runs q' = q_runs (s_queue u)"
    and status: "status_of q' = (status_of (s_queue u))(run_task_id run \<mapsto> TaskStatus.Completed)"
    and s': "s' = u\<lparr>s_queue := q'\<rparr>"
  shows "landings_ok s'"
proof -
  let ?k = "run_task_id run"
  note m = moves_parts [OF mv]
  from mv(2) have ok: "landings_ok s" by (simp add: store_ok_def)
  have before: "\<exists>r \<in> set (q_runs (s_queue s)). landed r \<and> run_id r = run_id r' \<and> run_task_id r = run_task_id r'"
    if "r' \<in> set (q_runs (s_queue u))" "landed r'" "run_id r' \<noteq> i" for r'
    using m(6) that by (simp add: none_lands_def)
  have earlier: "status_of (s_queue u) (run_task_id r') = Some TaskStatus.Completed"
    if "r' \<in> set (q_runs (s_queue u))" "landed r'" "run_id r' \<noteq> i" for r'
    using before [OF that] ok m(9) unfolding landings_ok_def by metis
  have stored: "stored_run u i = Some run" using stored_run_in [OF m(1) run(1)] run(3) by simp
  have only: "r' = run" if "r' \<in> set (q_runs (s_queue u))" "run_id r' = i" for r'
    by (rule stored_run_unique [OF m(1) stored that])
  show ?thesis
    unfolding landings_ok_def
  proof (intro conjI ballI allI impI)
    fix r' assume r': "r' \<in> set (q_runs (s_queue s'))" "landed r'"
    then show "status_of (s_queue s') (run_task_id r') = Some TaskStatus.Completed"
      using earlier [of r'] only [of r'] by (cases "run_id r' = i") (simp_all add: s' runs status)
  next
    fix k assume "status_of (s_queue s') k = Some TaskStatus.Completed"
    then have "k = ?k \<or> status_of (s_queue s) k = Some TaskStatus.Completed"
      using m(7) by (auto simp: s' status none_completes_def split: if_splits)
    then show "\<exists>r \<in> set (q_runs (s_queue s')). landed r \<and> run_task_id r = k"
    proof
      assume "status_of (s_queue s) k = Some TaskStatus.Completed"
      with ok obtain r where "r \<in> set (q_runs (s_queue s))" "landed r" "run_task_id r = k" by (auto simp: landings_ok_def)
      with advance_landed [OF m(4)] show ?thesis by (auto simp: s' runs)
    qed (use run in \<open>auto simp: s' runs\<close>)
  next
    fix r w assume r: "r \<in> set (q_runs (s_queue s'))" and w: "w \<in> set (q_runs (s_queue s'))"
      and both: "landed r \<and> landed w \<and> run_task_id r = run_task_id w"
    have other: "run_task_id v \<noteq> ?k" if "v \<in> set (q_runs (s_queue u))" "landed v" "run_id v \<noteq> i" for v
      using earlier [OF that] active by auto
    show "run_id r = run_id w"
    proof (cases "run_id r = i \<or> run_id w = i")
      case True
      with only [of r] only [of w] other [of r] other [of w] r w both run(3) show ?thesis
        unfolding s' by (simp add: runs) metis
    next
      case False
      with before [of r] before [of w] r w both ok show ?thesis
        unfolding landings_ok_def by (simp add: s' runs) metis
    qed
  qed
qed

lemma lands_parts:
  assumes "lands_run h actor i s s' t run" "store_ok s"
  shows "store_ok s'" "leases_kept h actor s s'" "queue_step\<^sup>*\<^sup>* (s_queue s) (s_queue s')"
    "runs_advance (q_runs (s_queue s)) (q_runs (s_queue s'))" "run \<in> set (q_runs (s_queue s'))" "landed run"
    "run_id run = i" "status_of (s_queue s) (run_task_id run) \<noteq> Some TaskStatus.Completed"
    "status_of (s_queue s') (run_task_id run) = Some TaskStatus.Completed"
proof -
  let ?k = "run_task_id run"
  from assms(1) obtain u q' where mv: "moves {i} h actor s u" and run: "run \<in> set (q_runs (s_queue u))" "landed run" "run_id run = i"
    and complete: "complete_task (s_queue u) ?k i (host_stamp h) = Inr (q', t)" and s': "s' = u\<lparr>s_queue := q'\<rparr>"
    unfolding lands_run_def by blast
  note m = moves_parts [OF mv assms(2)]
  note e = end_task_accepted [OF complete [unfolded complete_task_def]]
  have step: "queue_step (s_queue u) q'" by (rule queue_step.completed [OF complete])
  have runs: "q_runs q' = q_runs (s_queue u)" using complete by (simp add: complete_task_def end_task_runs)
  have "c_status (core_of q') = (status_of (s_queue u))(?k \<mapsto> TaskStatus.Completed)" using e(2) by simp
  then have status: "status_of q' = (status_of (s_queue u))(?k \<mapsto> TaskStatus.Completed)" by simp
  have "landings_ok s'" by (rule landings_after_landing [OF mv assms(2) run e(1) runs status s'])
  moreover have "tables_sound s'" using m(1) by (simp add: tables_sound_def s' runs)
  moreover have "queue_step\<^sup>*\<^sup>* empty_queue (s_queue s')"
    using m(3) step by (simp add: s')
  moreover have "runs_advance [] (q_runs (s_queue s'))" using m(5) by (simp add: s' runs)
  ultimately show "store_ok s'" by (simp add: store_ok_def)
  show "leases_kept h actor s s'" using m(8) by (simp add: leases_kept_def lease_of_def s')
  show "queue_step\<^sup>*\<^sup>* (s_queue s) (s_queue s')" using m(2) step by (simp add: s')
  show "runs_advance (q_runs (s_queue s)) (q_runs (s_queue s'))" using m(4) by (simp add: s' runs)
  show "run \<in> set (q_runs (s_queue s'))" "landed run" "run_id run = i" using run by (simp_all add: s' runs)
  show "status_of (s_queue s) ?k \<noteq> Some TaskStatus.Completed" using m(9) [of ?k] e(1) by auto
  show "status_of (s_queue s') ?k = Some TaskStatus.Completed" by (simp add: s' status)
qed

text \<open>The transactions, whoever does them.\<close>

definition store_moves :: "RunStore \<Rightarrow> RunStore \<Rightarrow> bool" where
  "store_moves s s' \<longleftrightarrow> (\<exists>h actor. store_step h actor s s')"

lemma store_step_ok:
  assumes "store_step h actor s s'" "store_ok s"
  shows "store_ok s'" "leases_kept h actor s s'" "queue_step\<^sup>*\<^sup>* (s_queue s) (s_queue s')"
    "runs_advance (q_runs (s_queue s)) (q_runs (s_queue s'))"
proof -
  from store_step_moves [OF assms(1)]
  have "store_ok s' \<and> leases_kept h actor s s' \<and> queue_step\<^sup>*\<^sup>* (s_queue s) (s_queue s')
      \<and> runs_advance (q_runs (s_queue s)) (q_runs (s_queue s'))"
  proof (elim disjE exE)
    assume m: "moves {} h actor s s'"
    from moves_ok [OF m assms(2)] moves_parts(2,4,8) [OF m assms(2)] show ?thesis by simp
  next
    fix i t r assume l: "lands_run h actor i s s' t r"
    from lands_parts(1-4) [OF l assms(2)] show ?thesis by simp
  qed
  then show "store_ok s'" "leases_kept h actor s s'" "queue_step\<^sup>*\<^sup>* (s_queue s) (s_queue s')"
    "runs_advance (q_runs (s_queue s)) (q_runs (s_queue s'))" by simp_all
qed

lemma store_life_ok: "store_moves\<^sup>*\<^sup>* s s' \<Longrightarrow> store_ok s \<Longrightarrow> store_ok s'
    \<and> queue_step\<^sup>*\<^sup>* (s_queue s) (s_queue s') \<and> runs_advance (q_runs (s_queue s)) (q_runs (s_queue s'))"
proof (induction rule: rtranclp_induct)
  case (step u v)
  then have u: "store_ok u" "queue_step\<^sup>*\<^sup>* (s_queue s) (s_queue u)" "runs_advance (q_runs (s_queue s)) (q_runs (s_queue u))" by auto
  from step.hyps(2) obtain h actor where "store_step h actor u v" by (auto simp: store_moves_def)
  note v = store_step_ok [OF this u(1)]
  show ?case using v(1) rtranclp_trans [OF u(2) v(3)] runs_advance_trans [OF u(3) v(4)] by simp
qed simp

lemmas store_reachable_ok = store_life_ok [OF _ empty_store_ok]

text \<open>The queue of the store is a state of the plan of work, as every queue is.\<close>

interpretation store: work_plan "\<lambda>s. s = empty_store" store_moves store_ok "\<lambda>s. work_of (s_queue s)"
proof
  show "store_ok s \<and> work_of (s_queue s) = no_work" if "s = empty_store" for s
    using that empty_store_ok empty_queue_ok(2) by (simp add: empty_store_def)
  fix s s' assume step: "store_moves s s'" and ok: "store_ok s"
  from step obtain h actor where "store_step h actor s s'" by (auto simp: store_moves_def)
  note s' = store_step_ok [OF this ok]
  from s'(1) show "store_ok s'" .
  have "queue_ok (s_queue s)" "work_ok (work_of (s_queue s))"
    using ok queue_life by (auto simp: store_ok_def)
  with queue.steps_ok [OF s'(3)] show "work_step\<^sup>*\<^sup>* (work_of (s_queue s)) (work_of (s_queue s'))" by blast
qed

lemma store_reachable: "store.reachable s \<longleftrightarrow> store_moves\<^sup>*\<^sup>* empty_store s"
  by (simp add: store.reachable_def)

end
