(* ===== verification/Run_Promises.thy ===== *)
theory Run_Promises
  imports Run_Life Queue_Promises
begin

text \<open>
  What the store of runs promises, over every life of it from an empty store, and the witnesses of
  it: a life of the store in which a task is added, claimed by a supervisor, worked on, validated and
  landed, and one in which another supervisor adopts its run.
\<close>

section \<open>An example\<close>

definition example_host :: Host where
  "example_host = \<lparr>host_now = 100, host_stamp = ''t3'', host_alive = (\<lambda>_. True), host_pid = 5, host_stalled = (\<lambda>_. 0)\<rparr>"

text \<open>Two minutes on, when the leases of \<open>example_host\<close> are stale.\<close>

definition example_later :: Host where
  "example_later = example_host\<lparr>host_now := 220\<rparr>"

definition example_plan :: RunPlan where
  "example_plan = \<lparr>plan_repo_path = ''/r'', plan_run_dir = ''/d'', plan_branch = ''b'', plan_worktree_path = ''/w'',
     plan_receipt_path = ''/p'', plan_log_path = ''/l''\<rparr>"

definition example_valid :: Validation where
  "example_valid = \<lparr>val_accepted = True, val_result_commit = Some (CommitSha (replicate 40 CHR ''b'')), val_reason = None,
     val_evidence_missing = [], val_spike_result_missing = [], val_scope_violation = [], val_already_satisfied = False\<rparr>"

text \<open>A transaction of the queue that completes no task and writes no run.\<close>

definition in_queue :: "(Queue \<Rightarrow> Queue stored) \<Rightarrow> RunStore \<Rightarrow> RunStore stored" where
  "in_queue f s = and_then (f (s_queue s)) (\<lambda>q.
     if q_runs (s_queue s) = [] \<and> q_runs q = [] \<and> list_all (\<lambda>t. task_status t \<noteq> TaskStatus.Completed) (q_tasks q)
     then Inr (s\<lparr>s_queue := q\<rparr>) else Inl (Refused []))"

definition in_store :: "'a tx \<Rightarrow> RunStore \<Rightarrow> RunStore stored" where
  "in_store m s = and_then (m s) (\<lambda>(s, _). Inr s)"

definition example_lease :: "RunStore \<Rightarrow> RunStore stored" where
  "example_lease s = (case claim_for_supervisor example_host (LeaseToken ''a'') example_claim s of
     Some r \<Rightarrow> and_then r (\<lambda>(s, _). Inr s) | None \<Rightarrow> Inl (Refused []))"

abbreviation run_r :: RunId where
  "run_r \<equiv> RunId ''r''"

abbreviation example_holder :: LeaseToken where
  "example_holder \<equiv> LeaseToken ''a''"

definition example_working :: "(RunStore \<Rightarrow> RunStore stored) list" where
  "example_working = map in_queue [example_add 7 [], example_go 7 Submit, example_go 7 Approve] @
     [in_store (register_supervisor example_host example_holder 5 2 ''1''), example_lease,
      in_store (plan_run example_host run_r example_holder example_plan),
      in_store (workspace_created example_host run_r example_holder ''ws''),
      in_store (register_wrapper example_host run_r example_holder 8),
      in_store (register_agent example_host run_r 8 9)]"

definition example_validated :: "(RunStore \<Rightarrow> RunStore stored) list" where
  "example_validated = example_working @
     [in_store (wrapper_exited example_host run_r 8 0),
      in_store (finish_supervision example_host run_r example_holder True),
      in_store (finish_validation example_host run_r example_holder example_valid)]"

definition example_landing :: "(RunStore \<Rightarrow> RunStore stored) list" where
  "example_landing = example_validated @ [in_store (begin_integration example_host run_r example_holder)]"

definition is_tx :: "(RunStore \<Rightarrow> RunStore stored) \<Rightarrow> bool" where
  "is_tx f \<longleftrightarrow> (\<forall>s s'. f s = Inr s' \<longrightarrow> store_moves s s')"

lemma stores_reach:
  "\<forall>f \<in> set fs. is_tx f \<Longrightarrow> live (\<lambda>f. f) fs s = Inr s' \<Longrightarrow> store_moves\<^sup>*\<^sup>* s s'"
proof (induction fs arbitrary: s)
  case (Cons f fs)
  from Cons.prems(2) obtain s1 where s1: "f s = Inr s1" "live (\<lambda>f. f) fs s1 = Inr s'"
    by (auto simp: and_then_eq_Inr)
  with Cons.prems(1) have "store_moves s s1" by (simp add: is_tx_def)
  with Cons.IH [OF _ s1(2)] Cons.prems(1) show ?case by (simp add: converse_rtranclp_into_rtranclp)
qed simp

lemma in_queue_tx:
  assumes "is_step f"
  shows "is_tx (in_queue f)"
  unfolding is_tx_def
proof (intro allI impI)
  fix s s' assume "in_queue f s = Inr s'"
  then obtain q where q: "f (s_queue s) = Inr q" "q_runs (s_queue s) = []" "q_runs q = []"
    "list_all (\<lambda>t. task_status t \<noteq> TaskStatus.Completed) (q_tasks q)" "s' = s\<lparr>s_queue := q\<rparr>"
    by (auto simp: in_queue_def and_then_eq_Inr split: if_splits)
  have "status_of q i \<noteq> Some TaskStatus.Completed" for i
    using q(4) row_of_Some [of q i] by (auto simp: status_of_def list_all_iff)
  then have "none_completes (s_queue s) q" by (simp add: none_completes_def)
  with q assms have "store_step h a s s'" for h a
    using store_step.queue_moved [of s q h a] by (simp add: is_step_def)
  then show "store_moves s s'" unfolding store_moves_def by blast
qed

lemma in_store_tx:
  assumes "\<And>s s' x. m s = Inr (s', x) \<Longrightarrow> store_step h a s s'"
  shows "is_tx (in_store m)"
  unfolding is_tx_def store_moves_def
proof (intro allI impI)
  fix s s' assume "in_store m s = Inr s'"
  then obtain x where "m s = Inr (s', x)" by (auto simp: in_store_def and_then_eq_Inr)
  with assms show "\<exists>h actor. store_step h actor s s'" by blast
qed

lemma begin_integration_step:
  assumes "begin_integration h i token s = Inr (s', run)"
  shows "store_step h (Some token) s s'"
  using assms landing_begins by (fastforce simp: begin_integration_def tx_bind_def and_then_eq_Inr tx_return_def)

lemma example_transactions: "\<forall>f \<in> set example_landing. is_tx f"
proof -
  have claim: "is_tx example_lease"
    using claimed_run by (fastforce simp: is_tx_def example_lease_def and_then_eq_Inr store_moves_def split: option.splits)
  have "is_tx (in_store (register_supervisor h token pid parallel version))"
    "is_tx (in_store (plan_run h i token plan))" "is_tx (in_store (workspace_created h i token ws))"
    "is_tx (in_store (register_wrapper h i token pid))" "is_tx (in_store (register_agent h i pid agent))"
    "is_tx (in_store (wrapper_exited h i pid code))" "is_tx (in_store (finish_supervision h i token receipt))"
    "is_tx (in_store (finish_validation h i token v))" "is_tx (in_store (begin_integration h i token))"
    for h i token pid parallel version plan ws agent code receipt v
    by (rule in_store_tx, erule registers planned got_workspace wrapper_starts agent_starts wrapper_ends session_ends
        validates begin_integration_step)+
  then show ?thesis
    using claim in_queue_tx [OF example_steps(1)] in_queue_tx [OF example_steps(2)]
    by (simp add: example_landing_def example_validated_def example_working_def)
qed

definition example_store_working :: RunStore where
  "example_store_working = projr (live (\<lambda>f. f) example_working empty_store)"

definition example_store_validated :: RunStore where
  "example_store_validated = projr (live (\<lambda>f. f) example_validated empty_store)"

definition example_store_landing :: RunStore where
  "example_store_landing = projr (live (\<lambda>f. f) example_landing empty_store)"

lemma example_working_facts:
  "case live (\<lambda>f. f) example_working empty_store of
     Inr s \<Rightarrow> map run_status (q_runs (s_queue s)) = [RunStatus.Running]
       \<and> lease_of s run_r = Some \<lparr>lease_run_id = run_r, lease_token = example_holder, lease_pid = 5,
           lease_heartbeat_at = 100\<rparr>
       \<and> (case adopt_run example_later run_r example_holder (LeaseToken ''b'') 6 s of
            Inr (_, Some _) \<Rightarrow> True | _ \<Rightarrow> False)
       \<and> (case adopt_run example_host run_r example_holder (LeaseToken ''b'') 6 s of
            Inr _ \<Rightarrow> True | _ \<Rightarrow> False)
   | Inl _ \<Rightarrow> False"
  by code_simp

lemma example_landing_facts:
  "case live (\<lambda>f. f) example_landing empty_store of
     Inr s \<Rightarrow> map run_status (q_runs (s_queue s)) = [RunStatus.Integrating]
       \<and> (case finish_integration example_host run_r example_holder (CommitSha (replicate 40 CHR ''c'')) s of
            Inr (s', _, _) \<Rightarrow> map run_status (q_runs (s_queue s')) = [RunStatus.Integrated]
              \<and> map run_task_id (q_runs (s_queue s')) = [TaskId 7] | _ \<Rightarrow> False)
   | Inl _ \<Rightarrow> False"
  by code_simp

lemma example_working:
  "live (\<lambda>f. f) example_working empty_store = Inr example_store_working"
  "map run_status (q_runs (s_queue example_store_working)) = [RunStatus.Running]"
  "lease_of example_store_working run_r = Some \<lparr>lease_run_id = run_r, lease_token = example_holder,
     lease_pid = 5, lease_heartbeat_at = 100\<rparr>"
  "\<exists>s' run. adopt_run example_later run_r example_holder (LeaseToken ''b'') 6 example_store_working
     = Inr (s', Some run)"
  "\<exists>s' x. adopt_run example_host run_r example_holder (LeaseToken ''b'') 6 example_store_working = Inr (s', x)"
  using example_working_facts unfolding example_store_working_def
  by (cases "live (\<lambda>f. f) example_working empty_store"; auto split: option.splits sum.splits)+

lemma example_landing:
  "live (\<lambda>f. f) example_landing empty_store = Inr example_store_landing"
  "map run_status (q_runs (s_queue example_store_landing)) = [RunStatus.Integrating]"
  "\<exists>s' t run. finish_integration example_host run_r example_holder (CommitSha (replicate 40 CHR ''c''))
     example_store_landing = Inr (s', t, run) \<and> map run_status (q_runs (s_queue s')) = [RunStatus.Integrated]
     \<and> map run_task_id (q_runs (s_queue s')) = [TaskId 7]"
  using example_landing_facts unfolding example_store_landing_def
  by (cases "live (\<lambda>f. f) example_landing empty_store"; auto split: sum.splits)+

lemma example_store_reach:
  "store_moves\<^sup>*\<^sup>* empty_store example_store_working" "store_moves\<^sup>*\<^sup>* empty_store example_store_landing"
proof -
  have "set example_working \<subseteq> set example_landing"
    by (auto simp: example_landing_def example_validated_def)
  with example_transactions have "\<forall>f \<in> set example_working. is_tx f" by blast
  from stores_reach [OF this example_working(1)] show "store_moves\<^sup>*\<^sup>* empty_store example_store_working" .
  from stores_reach [OF example_transactions example_landing(1)]
  show "store_moves\<^sup>*\<^sup>* empty_store example_store_landing" .
qed

section \<open>Properties\<close>

lemma find_map_at: "find P xs = Some x \<Longrightarrow> (\<And>y. P (f y) = P y) \<Longrightarrow> find P (map f xs) = Some (f x)"
  by (induction xs) (auto split: if_splits)



text \<open>C10. A task is completed exactly when one run of it landed: a completed task has one landed run,
  and no second run of it lands, whoever adopts, resumes or recovers it.\<close>

theorem completed_by_one_landing:
  assumes "store_moves\<^sup>*\<^sup>* empty_store s"
  shows "status_of (s_queue s) k = Some TaskStatus.Completed
    \<longleftrightarrow> (\<exists>!run :: TaskRun. run \<in> set (q_runs (s_queue s)) \<and> landed run \<and> run_task_id run = k)"
proof -
  have ok: "landings_ok s" "tables_sound s" using store_reachable_ok [OF assms] by (simp_all add: store_ok_def)
  show ?thesis
  proof
    assume "status_of (s_queue s) k = Some TaskStatus.Completed"
    with ok(1) obtain run where run: "run \<in> set (q_runs (s_queue s))" "landed run" "run_task_id run = k"
      by (auto simp: landings_ok_def)
    have same: "r = run" if "r \<in> set (q_runs (s_queue s))" "landed r" "run_task_id r = k" for r
    proof -
      have "run_id r = run_id run"
        by (rule ok(1) [unfolded landings_ok_def, THEN conjunct2, THEN conjunct2, rule_format]) (simp_all add: run that)
      with stored_run_in [OF ok(2) run(1)] stored_run_in [OF ok(2) that(1)] show ?thesis by simp
    qed
    show "\<exists>!run :: TaskRun. run \<in> set (q_runs (s_queue s)) \<and> landed run \<and> run_task_id run = k"
    proof (rule ex1I [of _ run])
      show "run \<in> set (q_runs (s_queue s)) \<and> landed run \<and> run_task_id run = k" using run by (intro conjI)
    qed (elim conjE, rule same)
  next
    assume "\<exists>!run :: TaskRun. run \<in> set (q_runs (s_queue s)) \<and> landed run \<and> run_task_id run = k"
    then obtain run where run: "run \<in> set (q_runs (s_queue s))" "landed run" "run_task_id run = k" by (elim ex1E conjE)
    from ok(1) run(1,2) have "status_of (s_queue s) (run_task_id run) = Some TaskStatus.Completed"
      unfolding landings_ok_def by blast
    with run(3) show "status_of (s_queue s) k = Some TaskStatus.Completed" by simp
  qed
qed

lemma completed_by_one_landing_witness:
  "status_of (s_queue example_store_landing) (TaskId 7) = Some TaskStatus.Completed
    \<longleftrightarrow> (\<exists>!run :: TaskRun. run \<in> set (q_runs (s_queue example_store_landing)) \<and> landed run \<and> run_task_id run = TaskId 7)"
  by (rule completed_by_one_landing [OF example_store_reach(2)])

text \<open>C11. A lease is its holder's while it is live: no transaction of another supervisor, of a session
  or of a person takes it, moves its heartbeat or deletes it before its process is gone or its
  heartbeat is too old.\<close>

theorem live_lease_kept:
  assumes "store_moves\<^sup>*\<^sup>* empty_store s" "store_step h actor s s'"
    and "lease_of s i = Some l" "\<not> lease_is_stale h l" "actor \<noteq> Some (lease_token l)"
  shows "lease_of s' i = Some l"
  using store_step_ok(2) [OF assms(2)] store_reachable_ok [OF assms(1)] assms(3-5)
  by (auto simp: leases_kept_def)

lemma live_lease_kept_witness:
  "\<exists>s' x. adopt_run example_host run_r example_holder (LeaseToken ''b'') 6 example_store_working = Inr (s', x)
    \<and> map_option lease_token (lease_of s' run_r) = Some example_holder"
proof -
  obtain s' x where adopted: "adopt_run example_host run_r example_holder (LeaseToken ''b'') 6 example_store_working
      = Inr (s', x)" using example_working(5) by blast
  have "lease_of s' run_r = Some \<lparr>lease_run_id = run_r, lease_token = example_holder,
      lease_pid = 5, lease_heartbeat_at = 100\<rparr>"
    by (rule live_lease_kept [OF example_store_reach(1) adopts [OF adopted, of None] example_working(3)])
      (simp_all add: lease_is_stale_def example_host_def HEARTBEAT_TIMEOUT_SECS_def)
  with adopted show ?thesis by simp
qed

text \<open>C18. The keys of the tables: in every life of the store a run has one lease, a supervisor one
  registration, a task one unfinished run, and one run lands at a time.\<close>

theorem store_keys:
  assumes "store_moves\<^sup>*\<^sup>* empty_store s"
  shows "distinct (map lease_run_id (s_leases s)) \<and> distinct (map sup_token (s_supervisors s))
    \<and> distinct (map run_id (q_runs (s_queue s)))
    \<and> distinct (map run_task_id (filter (\<lambda>r. run_status r \<in> set unfinished_statuses) (q_runs (s_queue s))))
    \<and> length (filter (\<lambda>r. run_status r = RunStatus.Integrating) (q_runs (s_queue s))) \<le> 1"
  using store_reachable_ok [OF assms] by (simp add: store_ok_def tables_sound_def run_indexes_ok_def)

lemma store_keys_witness:
  "length (filter (\<lambda>r. run_status r = RunStatus.Integrating) (q_runs (s_queue example_store_landing))) \<le> 1"
  using store_keys [OF example_store_reach(2)] by simp

text \<open>C12. The end of a landing: the run is integrated at the commit, its task, which was not completed
  before, is completed, and every task it waited for was. The same landing sent again, by whoever, is
  answered as it was recorded and changes nothing.\<close>

theorem landing_completes_task:
  assumes "store_moves\<^sup>*\<^sup>* empty_store s" "finish_integration h i token commit s = Inr (s', t, run)" "s' \<noteq> s"
  shows "run \<in> set (q_runs (s_queue s')) \<and> run_id run = i \<and> run_status run = RunStatus.Integrated
    \<and> run_result_commit run = Some commit \<and> task_id t = run_task_id run
    \<and> status_of (s_queue s) (run_task_id run) \<noteq> Some TaskStatus.Completed
    \<and> status_of (s_queue s') (run_task_id run) = Some TaskStatus.Completed
    \<and> (\<forall>p. (run_task_id run, p) \<in> set (q_dependencies (s_queue s')) \<longrightarrow>
        status_of (s_queue s') p = Some TaskStatus.Completed)
    \<and> finish_integration h' i token' commit s' = Inr (s', t, run)"
proof -
  have ok: "store_ok s" using store_reachable_ok [OF assms(1)] by simp
  from assms(2,3) have land: "land_run h i token commit s = Inr (s', t, run)"
    by (auto simp: finish_integration_def tx_read_def tx_bind_def tx_check_def tx_return_def and_then_eq_Inr
        split: option.splits)
  note l = lands_parts [OF land_run_lands [OF land] ok]
  from l(1) have sound: "tables_sound s'" "queue_step\<^sup>*\<^sup>* empty_queue (s_queue s')" by (simp_all add: store_ok_def)
  from land obtain s1 s2 where "apply_run h i None (run_is_not i ''integrating'')
      (\<lambda>run. run_finish_integration run commit) s1 = Inr (s2, run)"
    by (auto simp: land_run_def tx_bind_def tx_then_def tx_return_def and_then_eq_Inr)
  from apply_run_stored [OF this drawn_any [OF finish_integration_drawn]] obtain row where
    "run_finish_integration row commit = Inr run" by metis
  then have run: "run_status run = RunStatus.Integrated" "run_result_commit run = Some commit"
    by (auto simp: run_finish_integration_def and_then_eq_Inr)
  from land_run_lands [OF land] obtain u q' where
    "complete_task (s_queue u) (run_task_id run) i (host_stamp h) = Inr (q', t)" "s' = u\<lparr>s_queue := q'\<rparr>"
    unfolding lands_run_def by blast
  then have t: "read_task (s_queue s') (run_task_id run) = Inr t"
    by (auto simp: complete_task_def end_task_def Let_def and_then_eq_Inr split: if_splits)
  have stored: "stored_run s' i = Some run" using stored_run_in [OF sound(1) l(5)] l(7) by simp
  have "finish_integration h' i token' commit s' = Inr (s', t, run)"
    using stored run t by (simp add: finish_integration_def option_filter_def tx_read_def tx_bind_def tx_check_def tx_return_def)
  moreover have "status_of (s_queue s') p = Some TaskStatus.Completed"
    if "(run_task_id run, p) \<in> set (q_dependencies (s_queue s'))" for p
    using core_okD(4) [OF queue_life_ok(2) [OF sound(2)], of "run_task_id run" p] that l(9) by simp
  ultimately show ?thesis using l run read_task_status(3) [OF t] by simp
qed

lemma landing_completes_task_witness:
  "\<exists>(s' :: RunStore) (run :: TaskRun). status_of (s_queue s') (TaskId 7) = Some TaskStatus.Completed
    \<and> run_result_commit run = Some (CommitSha (replicate 40 CHR ''c'')) \<and> run \<in> set (q_runs (s_queue s'))"
proof -
  obtain s' t run where f: "finish_integration example_host run_r example_holder (CommitSha (replicate 40 CHR ''c''))
      example_store_landing = Inr (s', t, run)" "map run_status (q_runs (s_queue s')) = [RunStatus.Integrated]"
    "map run_task_id (q_runs (s_queue s')) = [TaskId 7]"
    using example_landing(3) by (elim exE conjE)
  have "s' \<noteq> example_store_landing" using f(2) example_landing(2) by auto
  from landing_completes_task [OF example_store_reach(2) f(1) this] have l: "run \<in> set (q_runs (s_queue s'))"
    "run_result_commit run = Some (CommitSha (replicate 40 CHR ''c''))"
    "status_of (s_queue s') (run_task_id run) = Some TaskStatus.Completed" by simp_all
  have "run_task_id run = TaskId 7" using l(1) f(3) by auto
  with l show ?thesis by auto
qed

text \<open>C14. Adoption: a supervisor gets a run exactly when the run goes on, the lease is the one it names
  and is stale. Then the lease and the run are its own, the run's row is as it was, and who comes with
  the same old lease gets nothing.\<close>

theorem adoption_accepted_iff:
  assumes "stored_run s i = Some run" "token \<noteq> previous"
  shows "(adopt_run h i previous token pid s = Inr (s', Some found) \<longleftrightarrow>
      found = run \<and> run_status run \<in> set adoptable
      \<and> (\<exists>l. lease_of s i = Some l \<and> lease_token l = previous \<and> lease_is_stale h l)
      \<and> s' = s\<lparr>s_leases := map (\<lambda>l. if lease_run_id l = i \<and> lease_token l = previous
          then l\<lparr>lease_token := token, lease_pid := pid, lease_heartbeat_at := host_now h\<rparr> else l) (s_leases s),
        s_supervised := (s_supervised s)(i \<mapsto> token), s_log := s_log s @ [(i, RunAdopted)]\<rparr>)
    \<and> (adopt_run h i previous token pid s = Inr (s', Some found) \<longrightarrow>
      lease_of s' i = Some \<lparr>lease_run_id = i, lease_token = token, lease_pid = pid, lease_heartbeat_at = host_now h\<rparr>
      \<and> adopt_run h' i previous other pid' s' = Inr (s', None))"
proof -
  note steps = adopt_run_def tx_commit_some_def tx_read_def swap_lease_def set_supervisor_def run_event_def
    log_event_def tx_then_def tx_bind_def tx_write_def tx_return_def tx_ensure_def option_filter_def
  have iff: "adopt_run h i previous token pid s = Inr (s', Some found) \<longleftrightarrow>
      found = run \<and> run_status run \<in> set adoptable
      \<and> (\<exists>l. lease_of s i = Some l \<and> lease_token l = previous \<and> lease_is_stale h l)
      \<and> s' = s\<lparr>s_leases := map (\<lambda>l. if lease_run_id l = i \<and> lease_token l = previous
          then l\<lparr>lease_token := token, lease_pid := pid, lease_heartbeat_at := host_now h\<rparr> else l) (s_leases s),
        s_supervised := (s_supervised s)(i \<mapsto> token), s_log := s_log s @ [(i, RunAdopted)]\<rparr>"
    using assms(1)
    by (cases "lease_of s i") (auto simp: steps stored_run_def and_then_eq_Inr)
  have swapped: "lease_of s' i = Some (l\<lparr>lease_token := token, lease_pid := pid, lease_heartbeat_at := host_now h\<rparr>)"
    if "s_leases s' = map (\<lambda>l. if lease_run_id l = i \<and> lease_token l = previous
        then l\<lparr>lease_token := token, lease_pid := pid, lease_heartbeat_at := host_now h\<rparr> else l) (s_leases s)"
      "lease_of s i = Some l" "lease_token l = previous" for l
    using that(2,3) find_pred [OF that(2) [unfolded lease_of_def]]
    unfolding lease_of_def that(1) by (subst find_map_at) auto
  have "lease_of s' i = Some \<lparr>lease_run_id = i, lease_token = token, lease_pid = pid, lease_heartbeat_at = host_now h\<rparr>"
    if "adopt_run h i previous token pid s = Inr (s', Some found)"
  proof -
    from that iff obtain l where l: "lease_of s i = Some l" "lease_token l = previous"
      "s_leases s' = map (\<lambda>l. if lease_run_id l = i \<and> lease_token l = previous
        then l\<lparr>lease_token := token, lease_pid := pid, lease_heartbeat_at := host_now h\<rparr> else l) (s_leases s)" by auto
    have "lease_run_id l = i" using l(1) by (auto simp: lease_of_def dest: find_pred)
    with swapped [OF l(3,1,2)] show ?thesis by (cases l) simp
  qed
  moreover have "adopt_run h' i previous other pid' s' = Inr (s', None)"
    if "lease_of s' i = Some \<lparr>lease_run_id = i, lease_token = token, lease_pid = pid, lease_heartbeat_at = host_now h\<rparr>"
    using assms(2) by (simp add: steps that and_then_eq_Inr)
  ultimately show ?thesis using iff by blast
qed

lemma adoption_accepted_iff_witness:
  "\<exists>s'. map_option lease_token (lease_of s' run_r) = Some (LeaseToken ''b'')
    \<and> adopt_run example_later run_r example_holder (LeaseToken ''c'') 7 s' = Inr (s', None)"
proof -
  obtain s' found where adopted: "adopt_run example_later run_r example_holder (LeaseToken ''b'') 6 example_store_working
      = Inr (s', Some found)" using example_working(4) by blast
  then obtain run where run: "stored_run example_store_working run_r = Some run"
    by (auto simp: adopt_run_def tx_commit_some_def tx_read_def tx_return_def and_then_eq_Inr split: option.splits if_splits)
  from adoption_accepted_iff [OF run, of "LeaseToken ''b''" example_holder example_later 6 s' found example_later "LeaseToken ''c''" 7]
    adopted show ?thesis by (intro exI [of _ s']) auto
qed




lemma example_handoff:
  "case live (\<lambda>f. f) (example_landing @ [in_store (accept_handoff example_holder),
      in_store (request_handoff example_host example_holder ''2'')]) empty_store of
     Inr s \<Rightarrow> (case take_handoff example_holder ''2'' s of Inr (_, taken) \<Rightarrow> taken | Inl _ \<Rightarrow> False)
   | Inl _ \<Rightarrow> False"
  by code_simp


text \<open>C17. A run is resumed within its limits only: it is parked, no session of it is alive and no live
  lease holds it, and, unless it was parked for a hold, fewer than the three counted resumes, three
  kills and three provider failures went before. The lease is the resumer's then.\<close>

theorem resumed_within_limits:
  assumes "begin_resume h i token resumes limit repair s = Inr (s', Some run)"
  shows "(\<exists>parked. stored_run s i = Some parked \<and> run_status parked = RunStatus.NeedsSession)
    \<and> (\<forall>l. lease_of s i = Some l \<longrightarrow> lease_is_stale h l) \<and> \<not> session_live h s i
    \<and> (rc_parked_for_hold resumes
      \<or> rc_counted resumes < MAX_RESUME_ATTEMPTS \<and> rc_kill_only resumes < KILL_ONLY_RESUME_LIMIT
        \<and> rc_provider_only resumes < PROVIDER_ONLY_RESUME_LIMIT)
    \<and> holds_lease s' i token"
proof -
  let ?tail = "\<lambda>parked. tx_then (if run_worker_mode parked = WorkerMode.Interactive
      then tx_then (tx_write (update_run_row i (\<lambda>r. run_running_on r
          \<lparr>worker_provider = run_actual_provider r, worker_mode = WorkerMode.Headless\<rparr>)))
        (run_event h i WorkerModeConverted)
      else tx_return ())
    (tx_then (run_event h i LeaseAcquired)
    (tx_then (run_event h i ResumeStarted)
    (tx_then (if repair then run_event h i AutoRepaired else tx_return ())
    (tx_read (\<lambda>s. stored_run s i) tx_return))))"
  from assms obtain parked t where parked: "stored_run s i = Some parked" "\<not> resumes_exhausted resumes limit"
    and leased: "lease_parked_run h i token True s = Inr (t, True)" and tail: "?tail parked t = Inr (s', Some run)"
    by (auto simp: begin_resume_def tx_commit_some_def tx_read_def [of "\<lambda>s. s"] tx_bind_def [of "lease_parked_run h i token True"]
        tx_return_def [of None] and_then_eq_Inr split: option.splits if_splits)
  have "keeps (\<lambda>s s'. s_leases s' = s_leases s) (?tail parked)"
    by (intro same_leases.keeps_structure same_leases_event keeps_write) (simp add: update_run_row_def)
  from keepsD [OF this tail] have leases: "s_leases s' = s_leases t" .
  from leased have status: "map_option run_status (stored_run s i) = Some RunStatus.NeedsSession"
    "\<not> session_live h s i" "lease_of s i = None \<or> (\<exists>l. lease_of s i = Some l \<and> lease_is_stale h l)"
    and held: "holds_lease t i token"
    by (auto simp: lease_parked_run_def clear_stale_lease_def clear_processes_def insert_lease_def set_supervisor_def
        tx_read_def tx_bind_def tx_then_def tx_write_def tx_return_def tx_ensure_def tx_fail_def and_then_eq_Inr
        holds_lease_def split: option.splits if_splits)
  from held leases have "holds_lease s' i token" by (simp add: holds_lease_def)
  with status parked show ?thesis by (auto simp: resumes_exhausted_def)
qed

lemma example_resume:
  "case live (\<lambda>f. f) (example_working @ [in_store (wrapper_exited example_host run_r 8 0),
      in_store (finish_supervision example_host run_r example_holder True),
      in_store (finish_validation example_host run_r example_holder
        (example_valid\<lparr>val_accepted := False, val_evidence_missing := [''tests'']\<rparr>)),
      in_store (release_lease example_host run_r example_holder)]) empty_store of
     Inr s \<Rightarrow> (case begin_resume example_host run_r (LeaseToken ''b'')
         \<lparr>rc_counted = 2, rc_conflict_only = 0, rc_kill_only = 0, rc_provider_only = 0, rc_conflict_requests = 0,
           rc_parked_for_conflict = False, rc_parked_for_send_back = False, rc_parked_for_hold = False\<rparr> 2 False s of
         Inr (_, Some _) \<Rightarrow> True | _ \<Rightarrow> False)
   | Inl _ \<Rightarrow> False"
  by code_simp

lemma resumed_within_limits_witness:
  "\<exists>s s'. \<not> session_live example_host s run_r \<and> holds_lease s' run_r (LeaseToken ''b'')"
proof -
  from example_resume obtain s s' run where
    resumed: "begin_resume example_host run_r (LeaseToken ''b'')
         \<lparr>rc_counted = 2, rc_conflict_only = 0, rc_kill_only = 0, rc_provider_only = 0, rc_conflict_requests = 0,
           rc_parked_for_conflict = False, rc_parked_for_send_back = False, rc_parked_for_hold = False\<rparr> 2 False s
      = Inr (s', Some run)"
    by (auto split: sum.splits option.splits)
  from resumed_within_limits [OF this] show ?thesis by blast
qed

section \<open>The start of a landing\<close>

lemma settle_total: "\<exists>s' b. settle_at_rest_in h i checked s = Inr (s', b)"
  by (auto simp: settle_at_rest_in_def settle_open_def tx_read_def tx_return_def tx_then_def tx_bind_def tx_write_def
      split: option.split)

lemma run_event_total: "stored_run s i \<noteq> None \<Longrightarrow> \<exists>s'. run_event h i kind s = Inr (s', ())"
  using settle_total [of h i False "s\<lparr>s_log := s_log s @ [(i, kind)]\<rparr>"]
  by (auto simp: run_event_def log_event_def tx_read_def tx_return_def tx_then_def tx_bind_def tx_write_def tx_ensure_def)

lemma filter_one:
  assumes "distinct (map g rs)" "\<And>r. r \<in> set rs \<Longrightarrow> P r \<Longrightarrow> g r = i"
  shows "length (filter P rs) \<le> 1"
  using assms
proof (induction rs)
  case (Cons r rs)
  have "filter P rs = []" if "P r"
    using Cons.prems that by (force simp: filter_empty_conv)
  with Cons show ?case by auto
qed simp

lemma landing_indexes:
  assumes "run_indexes_ok rs" "\<And>r. r \<in> set rs \<Longrightarrow> run_status r \<noteq> RunStatus.Integrating"
    and "\<And>r. r \<in> set rs \<Longrightarrow> run_id r = i \<Longrightarrow> run_status r \<in> {RunStatus.AwaitingIntegration, RunStatus.NeedsSession}"
  shows "run_indexes_ok (map (\<lambda>r. if run_id r = i then r\<lparr>run_status := RunStatus.Integrating\<rparr> else r) rs)"
proof -
  let ?f = "\<lambda>r. if run_id r = i then r\<lparr>run_status := RunStatus.Integrating\<rparr> else r"
  have same: "map run_task_id (filter (\<lambda>r. P (run_status r)) (map ?f us)) = map run_task_id (filter (\<lambda>r. P (run_status r)) us)"
    if "set us \<subseteq> set rs" "P RunStatus.Integrating = P RunStatus.AwaitingIntegration"
      "P RunStatus.Integrating = P RunStatus.NeedsSession" for P us
    using that
  proof (induction us)
    case (Cons u us)
    then show ?case using assms(3) [of u] by (cases "run_id u = i") auto
  qed simp
  have "length (filter (\<lambda>r. run_status (?f r) = RunStatus.Integrating) rs) \<le> 1"
    by (rule filter_one [of run_id _ _ i]) (use assms in \<open>auto simp: run_indexes_ok_def split: if_splits\<close>)
  then have "length (filter (\<lambda>r. run_status r = RunStatus.Integrating) (map ?f rs)) \<le> 1"
    by (simp add: filter_map comp_def)
  moreover have "map run_id (map ?f rs) = map run_id rs" by simp
  moreover note same [of rs "\<lambda>st. st \<in> set unfinished_statuses"] same [of rs "\<lambda>st. st = RunStatus.Integrated"]
  ultimately show ?thesis
    using assms(1) unfolding run_indexes_ok_def by (simp only: unfinished_statuses_def) simp
qed

lemma landing_now_None: "landing_now s = None \<longleftrightarrow> (\<forall>r \<in> set (q_runs (s_queue s)). run_status r \<noteq> RunStatus.Integrating)"
  by (auto simp: landing_now_def find_None_iff)

lemma begin_drawn: "drawn any_command run_begin_integration"
  by (rule drawnI [of _ BeginIntegration]) (simp_all add: command_kinds)

lemma landing_saved:
  assumes "tables_sound s" "stored_run s i = Some row" "landing_now s = None"
    and "run_status row \<in> {RunStatus.AwaitingIntegration, RunStatus.NeedsSession}"
  shows "\<exists>s' run. apply_run h i None refusal run_begin_integration s = Inr (s', run) \<and> stored_run s' i \<noteq> None"
proof -
  let ?run = "row\<lparr>run_status := RunStatus.Integrating\<rparr>"
  have begins: "run_begin_integration row = Inr ?run"
    using assms(4) by (auto simp: run_begin_integration_def require_status_def require_def)
  have i: "run_id row = i" by (rule stored_run_id [OF assms(2)])
  have status: "run_status r \<in> {RunStatus.AwaitingIntegration, RunStatus.NeedsSession}"
    if "r \<in> set (q_runs (s_queue s))" "run_id r = i" for r
    using stored_run_unique [OF assms(1,2) that] assms(4) by simp
  have rows: "map (\<lambda>r. if run_id r = i then saved_row r ?run else r) (q_runs (s_queue s))
      = map (\<lambda>r. if run_id r = i then r\<lparr>run_status := RunStatus.Integrating\<rparr> else r) (q_runs (s_queue s))"
    using stored_run_unique [OF assms(1,2)] by (auto simp: saved_row_def)
  have "run_indexes_ok (map (\<lambda>r. if run_id r = i then r\<lparr>run_status := RunStatus.Integrating\<rparr> else r) (q_runs (s_queue s)))"
    by (rule landing_indexes) (use assms(1,3) status in \<open>auto simp: tables_sound_def landing_now_None\<close>)
  then obtain t where row: "save_run_row ?run (run_status row) None s = Inr (t, True)"
    using assms(2) by (auto simp: save_run_row_def update_run_row_def i rows)
  obtain t' b where "settle_at_rest_in h i False t = Inr (t', b)" using settle_total by blast
  moreover have "unfinished_change (run_status row) RunStatus.Integrating = []"
    using assms(4) by (auto simp: unfinished_change_def RunStatus_is_unfinished_def)
  ultimately have "apply_run h i None refusal run_begin_integration s = Inr (t', ?run)"
    using assms(2,4) begins row i
    by (auto simp: apply_run_def save_run_def tx_read_def tx_bind_def tx_then_def tx_return_def tx_ensure_def)
  moreover from apply_run_stored [OF this] have "?run \<in> set (q_runs (s_queue t'))"
    using begin_drawn by blast
  ultimately show ?thesis using i by (auto simp: stored_run_def find_None_iff)
qed



end
