(* ===== verification/Spec2Isabelle.thy ===== *)
theory Spec2Isabelle
  imports Scope Worker Priority_Rules Task_Aggregate Goal_Aggregate Run_Aggregate
    Proposal_Aggregate Claim_Order Replacements Dep_Graph Replan_Operation Task_Hold
    Replacement_Plan Queue_Promises Run_Promises
begin

text \<open>
  A verification of the core of dagq, a queue of tasks that AI agents carry out. A task has goals
  it belongs to, predecessors it waits for and a plan review to pass; a supervisor claims the
  claimable tasks in an order of priorities, starts a run for each, validates its receipt and
  lands its commit on main. Everything durable is a row of the queue; the rules that decide what
  may happen to a row are pure functions of \<^verbatim>\<open>src/domain/\<close>, and those are modelled here, with the
  store's and the application's code around them where it composes them.

  Theories and the code they model (paths under \<^verbatim>\<open>src/\<close> of the crate):

  \<^item> \<open>Prelude\<close>: fallible code (\<open>and_then\<close>, \<open>require\<close>), UTF-8 trimming, printing, splitting,
    stable sorting keys. \<open>Lives\<close>: sequences of commands on an aggregate, with the interfaces
    \<open>preserves\<close> and \<open>settles\<close> the aggregates are interpreted in.
  \<^item> \<open>Vocabulary\<close>: identifiers, the \<open>string_enum!\<close> enumerations (interface \<open>string_enum\<close>, interpreted
    for every one), priorities, rejections (\<open>DomainError\<close>).
  \<^item> \<open>Scope\<close>: \<^verbatim>\<open>domain/scope.rs\<close>, path globs. \<open>Worker\<close>: \<^verbatim>\<open>domain/worker.rs\<close>. \<open>Priority_Rules\<close>: where
    priorities and origins come from.
  \<^item> \<open>Task_Aggregate\<close>, \<open>Goal_Aggregate\<close>, \<open>Run_Aggregate\<close>, \<open>Proposal_Aggregate\<close>:
    \<^verbatim>\<open>domain/task.rs\<close>, \<^verbatim>\<open>goal.rs\<close>, \<^verbatim>\<open>run.rs\<close>, \<^verbatim>\<open>proposal.rs\<close>. Each has its record, its commands as
    functions into \<open>result\<close>, a datatype naming every command, an invariant and what a whole life
    of commands keeps.
  \<^item> \<open>Claim_Order\<close>: \<^verbatim>\<open>domain/claim_order.rs\<close> and \<^verbatim>\<open>domain/slot_order.rs\<close>, in which order the candidates
    are claimed and the free slots given out.

  \<^item> \<open>Replacements\<close>: \<open>unresolved_replacements\<close> of \<^verbatim>\<open>domain/replan_apply.rs\<close>, the walk over the
    replacements of replaced tasks. \<open>Dep_Graph\<close>: \<open>dependency_graph\<close> of \<^verbatim>\<open>application/mod.rs\<close>, who waits
    for whom, the effective priorities and the critical chain.
  \<^item> \<open>Replan_Operation\<close>: \<^verbatim>\<open>domain/task_replan.rs\<close> and the table of operations of
    \<^verbatim>\<open>infrastructure/replans.rs\<close>, the guards of a task's steps. \<open>Task_Hold\<close>: \<^verbatim>\<open>domain/task_hold.rs\<close>.
  \<^item> \<open>Replacement_Plan\<close>: \<^verbatim>\<open>domain/replan_plan.rs\<close>, the check of a replacement plan, and the checks of
    its apply in \<^verbatim>\<open>domain/replan_apply.rs\<close>.

  The queue, where these rules meet:

  \<^item> \<open>Work_Plan\<close>: the specification, a plan of work that knows only which tasks wait, are started,
    landed, dropped or split up, and who waits for whom; the interface \<open>work_plan\<close> states what a
    store must do to be one. \<open>Queue_Core\<close>: the columns of the tables the plan depends on and their
    steps, each a step of the plan.
  \<^item> \<open>Queue_Store\<close>: the tables and their rows (\<^verbatim>\<open>infrastructure/store_rows.rs\<close>), a record with one list
    per table, an SQL condition as a boolean function of a row, \<^verbatim>\<open>UPDATE\<close> and \<^verbatim>\<open>DELETE\<close> as \<open>map\<close> and
    \<open>filter\<close>. \<open>Queue_Tasks\<close>: the transactions on tasks (\<^verbatim>\<open>infrastructure/store_writes.rs\<close>,
    \<^verbatim>\<open>task_store.rs\<close>): insertion, edges, moves, transitions, the claim, the end of a task, edits.
    \<open>Replacement_Apply\<close>: plans recorded, approved and applied (\<^verbatim>\<open>infrastructure/replans.rs\<close>,
    \<^verbatim>\<open>replan_apply.rs\<close>).
  \<^item> \<open>Queue_Refinement\<close>, \<open>Replacement_Refinement\<close>: every transaction is steps of \<open>Queue_Core\<close>.
    \<open>Queue_Life\<close>: any sequence of transactions (\<open>queue_step\<close>), with \<open>work_plan\<close> interpreted on it.
    \<open>Queue_Promises\<close>: what holds of every queue that comes about.

  The store of the runs that go, over the queue:

  \<^item> \<open>Run_Store\<close>: leases, session processes, registered supervisors, asks and the runs' log beside the
    queue's tables, a transaction as a function of the store into a sum, and the saving of a run
    (\<^verbatim>\<open>infrastructure/runtime_store/mod.rs\<close>). \<open>Run_Coordination\<close>: heartbeats, registrations, handoffs and
    processes (\<^verbatim>\<open>coordination.rs\<close>). \<open>Run_Transitions\<close>: claim to landing (\<^verbatim>\<open>transitions.rs\<close>,
    \<^verbatim>\<open>domain/run/recorded.rs\<close>). \<open>Run_Recovery\<close>: adoption, takeovers, resumes, rounds and restores
    (\<^verbatim>\<open>recovery.rs\<close>).
  \<^item> \<open>Run_Frame\<close>: the interface \<open>tx_frame\<close>, a relation of stores every combinator of transactions
    carries. \<open>Run_Keeps\<close>: its interpretation on \<open>moves\<close> (the tables keep their keys, the queue makes
    its own steps, runs move by their commands, nobody's live lease is touched) and the primitives.
    \<open>Run_Handlers\<close>: one line per handler. \<open>Run_Life\<close>: what a landing does, the transactions
    (\<open>store_step\<close>, a rule per handler), the invariant of the store, and \<open>work_plan\<close> interpreted on it.
    \<open>Run_Promises\<close>: the theorems, with a life of the store as their witness.

  How the parts interact: a transaction reads rows, asks an aggregate or a rule of \<^verbatim>\<open>domain/\<close>, and
  writes back what it answers. \<open>Run_Store\<close> holds a \<open>Queue\<close> and saves runs into it; the claim of
  \<open>Run_Transitions\<close> is that of \<open>Queue_Tasks\<close> with a lease, its landing ends the task by
  \<open>complete_task\<close>. What a transaction asks of code around the store comes in with the call, as a record of
  facts (\<open>ClaimFacts\<close>, \<open>TransitionFacts\<close>, \<open>ReplanFacts\<close>, \<open>ApplyFacts\<close>, \<open>Host\<close>): settings, clocks, which
  processes live, hashes, the proposals' table, what the runs' events say. The theorems hold
  for every one of them; those that speak of one name it.

  Conventions. A Rust enum is a datatype with the variants' names, a struct a record, \<open>Result\<close> the
  sum \<open>'a result\<close> with \<open>Inl\<close> the rejection, \<open>Option\<close> an \<open>option\<close>, a text its bytes. A panic
  (\<open>expect\<close>) is an outer \<open>None\<close>. A transaction that fails is an \<open>Inl\<close> and leaves the store as it was;
  transactions are serial, as the store's write lock makes them, so a life is a sequence of them.
  Unique indexes are conditions of the writes. The texts of refusals are shortened where the code
  adds advice to them. Row IDs and counts are \<open>int\<close> and \<open>nat\<close>: no operation computes with
  them but by counting rows; times saturate as \<open>i64\<close> where the code saturates. Loops are structural
  or have a termination proof, the recursive queries of \<open>Queue_Store\<close> included, but for these: the walk
  of \<open>Replacements\<close> has fuel for one level per task, shown to be enough, and the two loops of \<open>Dep_Graph\<close>
  are partial functions, shown to return on every graph and on every DAG.

  Two rules of the lives say more than the code does: \<open>others\<close> lets the goals, the holds and the runs of
  a queue change at will, and \<open>holds_and_asks\<close> the asks and the settling of the holds, so what is
  proved of every life does not rest on what their own writers keep. Conversely \<open>queue_moved\<close> admits
  the other transactions of the queue only where they complete no task and write no run, as all do but
  the claim, the end of a task and the applied replacement, which have rules of their own.

  Not modelled. The prompts and texts shown to people, measurements, ledgers and forecasts, and the
  payloads and phases of events only they read: they decide nothing of the queue. The supervisor's
  loop, containers, Git, the verification commands and the sessions of the agents: processes
  outside the program, whose effects enter as the transactions they end in. The line protocol of the
  broker and the SQL engines: the transactions behind them are the ones here. The slot limits and
  load of a registration, the binding of the repository, the inheritance by hand, the asks a discarded
  proposal closes, the counting of resumes from a run's events and the detection of a replanning:
  readings of event texts and JSON, which come in with the calls they decide.
\<close>

section \<open>Texts and wire forms\<close>

text \<open>Every enumeration the queue stores as text reads back: parsing the text a value prints
  gives that value, for the statuses of tasks, runs, goals and proposals, the providers, modes,
  origins, roles and classifications alike.\<close>

theorem stored_texts_read_back:
  "from_str ''TaskStatus'' TaskStatus_all TaskStatus_as_str (TaskStatus_as_str ts) = Inr ts
    \<and> from_str ''RunStatus'' RunStatus_all RunStatus_as_str (RunStatus_as_str rs) = Inr rs
    \<and> from_str ''GoalStatus'' GoalStatus_all GoalStatus_as_str (GoalStatus_as_str gs) = Inr gs
    \<and> from_str ''GoalVerdict'' GoalVerdict_all GoalVerdict_as_str (GoalVerdict_as_str verdict) = Inr verdict
    \<and> from_str ''ProposalStatus'' ProposalStatus_all ProposalStatus_as_str (ProposalStatus_as_str ps) = Inr ps
    \<and> from_str ''Provider'' Provider_all Provider_as_str (Provider_as_str provider) = Inr provider
    \<and> from_str ''WorkerMode'' WorkerMode_all WorkerMode_as_str (WorkerMode_as_str mode) = Inr mode
    \<and> from_str ''PriorityBy'' PriorityBy_all PriorityBy_as_str (PriorityBy_as_str by) = Inr by
    \<and> from_str ''OriginKind'' OriginKind_all OriginKind_as_str (OriginKind_as_str kind) = Inr kind
    \<and> from_str ''ActorRole'' ActorRole_all ActorRole_as_str (ActorRole_as_str role) = Inr role
    \<and> from_str ''MembershipClassification'' MembershipClassification_all MembershipClassification_as_str
        (MembershipClassification_as_str class) = Inr class"
  by (intro conjI TaskStatus_enum.from_str_as_str RunStatus_enum.from_str_as_str
      GoalStatus_enum.from_str_as_str GoalVerdict_enum.from_str_as_str
      ProposalStatus_enum.from_str_as_str Provider_enum.from_str_as_str
      WorkerMode_enum.from_str_as_str PriorityBy_enum.from_str_as_str
      OriginKind_enum.from_str_as_str ActorRole_enum.from_str_as_str
      MembershipClassification_enum.from_str_as_str)


end
